(* ===== verification/F9_Prelude.thy ===== *)
theory F9_Prelude
  imports Main "HOL-Library.Word" "HOL-Library.Multiset"
begin

text \<open>
  The vocabulary shared by every component: machine words, the outcome of code that can go
  wrong, singly linked chains in a table of kernel objects, and a few generic facts on words
  and lists that the component proofs use through the collections declared here.

  A C function that can dereference NULL, index an array out of its range, loop forever or
  stop in \<open>panic\<close> returns a \<^typ>\<open>'a + 'b\<close> whose left side names what went wrong
  (\<open>fault\<close>); a C error code is an ordinary value of the right side.
\<close>

unbundle bit_operations_syntax

section \<open>Machine integers\<close>

type_synonym u8 = "8 word"
type_synonym u16 = "16 word"
type_synonym u32 = "32 word"
type_synonym u64 = "64 word"

text \<open>
  \<open>memptr\<close> is an address held in a \<^verbatim>\<open>memptr_t\<close>; \<open>ptr\<close> is a pointer to an element of
  one of the kernel's tables, given by the index of the element, with \<open>None\<close> for NULL.
\<close>

type_synonym memptr = u32
type_synonym ptr = "nat option"

section \<open>Outcomes\<close>

datatype fault =
    NullDeref           \<comment> \<open>a NULL pointer is dereferenced\<close>
  | OutOfBounds         \<comment> \<open>an array is indexed outside its declared range\<close>
  | Diverges            \<comment> \<open>a loop that never leaves\<close>
  | Panic string        \<comment> \<open>\<^verbatim>\<open>panic()\<close>: prints and spins forever\<close>

type_synonym 'a outcome = "fault + 'a"

definition bindF :: "'a outcome \<Rightarrow> ('a \<Rightarrow> 'b outcome) \<Rightarrow> 'b outcome" where
  "bindF m f = (case m of Inl e \<Rightarrow> Inl e | Inr x \<Rightarrow> f x)"

lemma bindF_simps [simp]:
  "bindF (Inr x) f = f x"
  "bindF (Inl e) f = Inl e"
  by (simp_all add: bindF_def)

lemma bindF_cong [fundef_cong]:
  "m = m' \<Longrightarrow> (\<And>x. m' = Inr x \<Longrightarrow> f x = g x) \<Longrightarrow> bindF m f = bindF m' g"
  by (cases m') auto

lemma bindF_eq_Inr: "bindF m f = Inr y \<longleftrightarrow> (\<exists>x. m = Inr x \<and> f x = Inr y)"
  by (cases m) auto

lemma bindF_eq_InrE [elim!]:
  assumes "bindF m f = Inr y"
  obtains x where "m = Inr x" "f x = Inr y"
  using assms by (auto simp: bindF_eq_Inr)

lemma bindF_assoc: "bindF (bindF m f) g = bindF m (\<lambda>x. bindF (f x) g)"
  by (cases m) auto

text \<open>Dereference of a pointer into a table: NULL is a fault.\<close>

definition deref :: "ptr \<Rightarrow> nat outcome" where
  "deref p = (case p of None \<Rightarrow> Inl NullDeref | Some i \<Rightarrow> Inr i)"

lemma deref_simps [simp]:
  "deref None = Inl NullDeref"
  "deref (Some i) = Inr i"
  by (simp_all add: deref_def)

lemma deref_eq_Inr [simp]: "deref p = Inr i \<longleftrightarrow> p = Some i"
  by (cases p) auto

text \<open>A read of an array of fixed length.\<close>

definition array_get :: "'a list \<Rightarrow> nat \<Rightarrow> 'a outcome" where
  "array_get xs i = (if i < length xs then Inr (xs ! i) else Inl OutOfBounds)"

definition array_set :: "'a list \<Rightarrow> nat \<Rightarrow> 'a \<Rightarrow> 'a list outcome" where
  "array_set xs i v = (if i < length xs then Inr (xs[i := v]) else Inl OutOfBounds)"

lemma array_get_in [simp]: "i < length xs \<Longrightarrow> array_get xs i = Inr (xs ! i)"
  by (simp add: array_get_def)

lemma array_set_in [simp]: "i < length xs \<Longrightarrow> array_set xs i v = Inr (xs[i := v])"
  by (simp add: array_set_def)

lemma array_get_eq_Inr: "array_get xs i = Inr v \<longleftrightarrow> i < length xs \<and> xs ! i = v"
  by (simp add: array_get_def)

lemma array_set_eq_Inr: "array_set xs i v = Inr ys \<longleftrightarrow> i < length xs \<and> xs[i := v] = ys"
  by (simp add: array_set_def)

section \<open>Words as numbers\<close>

lemma unat_of_nat32: "n < 4294967296 \<Longrightarrow> unat (of_nat n :: u32) = n"
  by (simp add: unat_of_nat)

lemma unat_lt32: "unat (w :: u32) < 4294967296"
  using unsigned_less [of w, where ?'a = nat] by simp

lemma unat_add32: "unat a + unat b < 4294967296 \<Longrightarrow> unat (a + b :: u32) = unat a + unat b"
  by (simp add: unat_word_ariths)

lemma unat_mult32: "unat a * unat b < 4294967296 \<Longrightarrow> unat (a * b :: u32) = unat a * unat b"
  by (simp add: unat_word_ariths)

lemma unat_sub32: "unat b \<le> unat a \<Longrightarrow> unat (a - b :: u32) = unat a - unat b"
  by (simp add: unat_sub word_le_nat_alt)

lemma unat_minus_1_32: "unat (- 1 :: u32) = 4294967295"
  by (simp add: unsigned_minus_1_eq_mask mask_eq_exp_minus_1)

lemma uint_less_iff: "uint w < numeral k \<longleftrightarrow> unat w < numeral k"
  using of_nat_less_iff [of "unat w" "numeral k", where 'a = int] by simp

lemma sint32: "sint (w :: u32) = (if unat w < 2147483648 then int (unat w) else int (unat w) - 4294967296)"
proof (cases "uint w < 2147483648")
  case True
  moreover have "- 2147483648 \<le> uint w" using uint_ge_0 [of w] by linarith
  ultimately have "signed_take_bit 31 (uint w) = uint w" by (simp add: signed_take_bit_int_eq_self)
  with True show ?thesis by (simp add: sint_uint uint_less_iff)
next
  case False
  with uint_lt2p [of w] have b: "0 \<le> uint w - 2147483648" "uint w - 2147483648 < 4294967296" by auto
  have "(uint w + 2147483648) mod 4294967296 = (uint w - 2147483648 + 4294967296) mod 4294967296"
    by (simp add: add.commute)
  also have "\<dots> = uint w - 2147483648" using b by (simp only: mod_add_self2 mod_pos_pos_trivial)
  finally have "signed_take_bit 31 (uint w) = uint w - 4294967296"
    by (simp add: signed_take_bit_eq_take_bit_shift take_bit_eq_mod)
  with False show ?thesis by (simp add: sint_uint uint_less_iff)
qed
section \<open>Bits of a machine word\<close>

named_theorems wbits \<open>the bits of masks and of masked words\<close>

lemma bit_mask_or [wbits]:
  "n < 32 \<Longrightarrow> bit ((w :: u32) OR push_bit n 1) m \<longleftrightarrow> bit w m \<or> m = n"
  by (auto simp: bit_or_iff bit_push_bit_iff bit_1_iff bit_exp_iff)

lemma bit_mask_clear [wbits]:
  "n < 32 \<Longrightarrow> bit ((w :: u32) AND NOT (push_bit n 1)) m \<longleftrightarrow> bit w m \<and> m \<noteq> n"
  by (auto simp: bit_and_iff bit_not_iff bit_exp_iff dest: bit_imp_le_length)

lemma shift_and_one [wbits]: "(drop_bit n (w :: u32)) AND 1 = of_bool (bit w n)"
  by (simp add: bit_iff_odd_drop_bit and_one_eq mod_2_eq_odd)

lemma and_mask_zero_iff [wbits]:
  "n < 32 \<Longrightarrow> (w :: u32) AND push_bit n 1 = 0 \<longleftrightarrow> \<not> bit w n"
  by (auto simp: bit_and_iff bit_exp_iff bit_eq_iff [of "w AND 2 ^ n" 0] dest: bit_imp_le_length)

section \<open>Positions in a ring\<close>

lemma ring_inj:
  assumes "k < R" "c < R" "(a + k) mod R = (a + c) mod (R :: nat)"
  shows "k = c"
proof -
  have "(a + k + (R - a mod R)) mod R = (a + c + (R - a mod R)) mod R"
    using assms(3) by (metis mod_add_left_eq)
  moreover have "(a + j + (R - a mod R)) mod R = j" if "j < R" for j
  proof -
    have "a + j + (R - a mod R) = j + R * (a div R) + R"
      using that mod_less_divisor [of R a] mult_div_mod_eq [of R a] by linarith
    then show ?thesis using that by simp
  qed
  ultimately show ?thesis using assms by simp
qed

section \<open>Chains of table slots\<close>

text \<open>
  \<open>lseg nx p xs q\<close>: following the links \<open>nx\<close> from \<open>p\<close> visits the slots \<open>xs\<close> in this order and
  then arrives at \<open>q\<close>.
\<close>

primrec lseg :: "('i \<Rightarrow> 'i option) \<Rightarrow> 'i option \<Rightarrow> 'i list \<Rightarrow> 'i option \<Rightarrow> bool" where
  "lseg nx p [] q \<longleftrightarrow> p = q"
| "lseg nx p (x # xs) q \<longleftrightarrow> p = Some x \<and> lseg nx (nx x) xs q"

definition hd_opt :: "'i list \<Rightarrow> 'i option" where
  "hd_opt xs = (case xs of [] \<Rightarrow> None | x # _ \<Rightarrow> Some x)"

lemma hd_opt_simps [simp]:
  "hd_opt [] = None"
  "hd_opt (x # xs) = Some x"
  "hd_opt (xs @ ys) = (if xs = [] then hd_opt ys else hd_opt xs)"
  by (auto simp: hd_opt_def split: list.splits)

lemma hd_opt_hd: "xs \<noteq> [] \<Longrightarrow> hd_opt xs = Some (hd xs)"
  by (cases xs) auto

lemma lseg_append:
  "lseg nx p (xs @ ys) q \<longleftrightarrow> (\<exists>r. lseg nx p xs r \<and> lseg nx r ys q)"
  by (induction xs arbitrary: p) auto

lemma lseg_hd: "lseg nx p xs None \<Longrightarrow> p = hd_opt xs"
  by (cases xs) auto

lemma lseg_snoc: "lseg nx p (xs @ [x]) q \<longleftrightarrow> lseg nx p xs (Some x) \<and> nx x = q"
  by (auto simp: lseg_append)

lemma lseg_cong: "(\<And>x. x \<in> set xs \<Longrightarrow> nx x = nx' x) \<Longrightarrow> lseg nx p xs q \<longleftrightarrow> lseg nx' p xs q"
  by (induction xs arbitrary: p) auto

lemma lseg_transfer: "lseg nx p xs q \<Longrightarrow> (\<And>x. x \<in> set xs \<Longrightarrow> nx' x = nx x) \<Longrightarrow> lseg nx' p xs q"
  by (induction xs arbitrary: p) auto

lemma lseg_upd_other [simp]: "x \<notin> set xs \<Longrightarrow> lseg (nx(x := v)) p xs q \<longleftrightarrow> lseg nx p xs q"
  by (rule lseg_cong) auto

text \<open>A chain that ends in NULL is determined by its head and never visits a slot twice.\<close>

lemma lseg_None_unique: "lseg nx p xs None \<Longrightarrow> lseg nx p ys None \<Longrightarrow> xs = ys"
  by (induction xs arbitrary: p ys) (case_tac ys; auto)+

lemma lseg_None_distinct: "lseg nx p xs None \<Longrightarrow> distinct xs"
proof (induction xs arbitrary: p)
  case (Cons x xs)
  have "x \<notin> set xs"
  proof
    assume "x \<in> set xs"
    then obtain us vs where "xs = us @ x # vs" by (auto simp: in_set_conv_decomp)
    then have "lseg nx (nx x) (us @ x # vs) None" "lseg nx (nx x) vs None"
      using Cons.prems by (auto simp: lseg_append)
    then have "us @ x # vs = vs" by (rule lseg_None_unique)
    then have "length (us @ x # vs) = length vs" by simp
    then show False by simp
  qed
  then show ?case using Cons by auto
qed simp

lemma lseg_middle:
  "lseg nx p (us @ x # vs) q \<longleftrightarrow> lseg nx p us (Some x) \<and> lseg nx (nx x) vs q"
  by (auto simp: lseg_append)

lemma lseg_end_next: "lseg nx p xs q \<Longrightarrow> xs \<noteq> [] \<Longrightarrow> nx (last xs) = q"
  by (induction xs arbitrary: p) auto

text \<open>Redirecting the last link of a segment.\<close>

lemma lseg_redirect:
  assumes "lseg nx p xs q" "xs \<noteq> []" "distinct xs"
  shows "lseg (nx(last xs := r)) p xs r"
proof -
  from assms(2) obtain ys x where "xs = ys @ [x]" by (cases xs rule: rev_cases) auto
  with assms show ?thesis by (simp add: lseg_snoc)
qed

text \<open>The slots of a table of \<open>n\<close> elements bound the length of a chain.\<close>

lemma distinct_bounded: "distinct xs \<Longrightarrow> set xs \<subseteq> {..<n} \<Longrightarrow> length xs \<le> n"
  using card_mono [of "{..<n}" "set xs"] by (simp add: distinct_card)

end
