(* ===== verification/F9_Queue.thy ===== *)
theory F9_Queue
  imports F9_Prelude
begin

text \<open>
  The byte queue of \<^verbatim>\<open>kernel/lib/queue.c\<close>, a ring buffer over a caller-supplied array. The
  contract its clients rely on is the locale \<open>byte_fifo\<close>: up to a capacity the queue is a
  first-in first-out list. The code meets it with capacity \<open>size - 2\<close>, and the last property
  shows what it does beyond: it never reports an overflow, it silently empties itself.
\<close>

section \<open>The queue and its operations\<close>

definition QUEUE_OK :: u32 where "QUEUE_OK = 0"
definition QUEUE_OVERFLOW :: u32 where "QUEUE_OVERFLOW = 1"
definition QUEUE_EMPTY :: u32 where "QUEUE_EMPTY = 2"

record queue_t =
  q_data :: "u8 list"
  q_top :: u32
  q_end :: u32
  q_size :: u32

definition queue_length :: "queue_t \<Rightarrow> u32" where
  "queue_length q =
     (if q_end q \<ge> q_top q then q_end q - q_top q else q_size q + q_top q - q_end q)"

definition queue_init :: "queue_t \<Rightarrow> u8 list \<Rightarrow> u32 \<Rightarrow> u32 \<times> queue_t" where
  "queue_init q addr sz =
     (QUEUE_OK, q\<lparr>q_top := 0, q_end := 0, q_size := sz, q_data := addr\<rparr>)"

definition queue_push :: "queue_t \<Rightarrow> u8 \<Rightarrow> (u32 \<times> queue_t) outcome" where
  "queue_push q element =
     (if queue_length q = q_size q then Inr (QUEUE_OVERFLOW, q)
      else let e = q_end q + 1;
               e' = (if e = q_size q - 1 then 0 else e)
           in bindF (array_set (q_data q) (unat e') element) (\<lambda>d.
                Inr (QUEUE_OK, q\<lparr>q_end := e', q_data := d\<rparr>)))"

definition queue_is_empty :: "queue_t \<Rightarrow> bool" where
  "queue_is_empty q \<longleftrightarrow> queue_length q = 0"

text \<open>The popped byte is returned beside the code; \<open>None\<close> when \<open>*element\<close> is not written.\<close>

definition queue_pop :: "queue_t \<Rightarrow> (u32 \<times> u8 option \<times> queue_t) outcome" where
  "queue_pop q =
     (if queue_length q = 0 then Inr (QUEUE_EMPTY, None, q)
      else let t = q_top q + 1;
               t' = (if t = q_size q - 1 then 0 else t)
           in bindF (array_get (q_data q) (unat t')) (\<lambda>x.
                Inr (QUEUE_OK, Some x, q\<lparr>q_top := t'\<rparr>)))"

section \<open>The contract of a bounded first-in first-out queue\<close>

locale byte_fifo =
  fixes push :: "'q \<Rightarrow> u8 \<Rightarrow> (u32 \<times> 'q) outcome"
    and pop :: "'q \<Rightarrow> (u32 \<times> u8 option \<times> 'q) outcome"
    and contents :: "'q \<Rightarrow> u8 list"
    and cap :: "'q \<Rightarrow> nat"
    and invar :: "'q \<Rightarrow> bool"
  assumes push_room: "invar q \<Longrightarrow> length (contents q) < cap q \<Longrightarrow>
      \<exists>q'. push q x = Inr (QUEUE_OK, q') \<and> contents q' = contents q @ [x] \<and> invar q' \<and> cap q' = cap q"
    and pop_empty: "invar q \<Longrightarrow> contents q = [] \<Longrightarrow> pop q = Inr (QUEUE_EMPTY, None, q)"
    and pop_some: "invar q \<Longrightarrow> contents q = x # xs \<Longrightarrow>
      \<exists>q'. pop q = Inr (QUEUE_OK, Some x, q') \<and> contents q' = xs \<and> invar q' \<and> cap q' = cap q"
begin

fun push_all :: "'q \<Rightarrow> u8 list \<Rightarrow> 'q outcome" where
  "push_all q [] = Inr q"
| "push_all q (x # xs) = bindF (push q x) (\<lambda>(_, q'). push_all q' xs)"

fun pop_n :: "'q \<Rightarrow> nat \<Rightarrow> (u8 option list \<times> 'q) outcome" where
  "pop_n q 0 = Inr ([], q)"
| "pop_n q (Suc n) =
     bindF (pop q) (\<lambda>(_, x, q'). bindF (pop_n q' n) (\<lambda>(xs, q''). Inr (x # xs, q'')))"

lemma push_all_contents:
  assumes "invar q" "length (contents q) + length xs \<le> cap q"
  shows "\<exists>q'. push_all q xs = Inr q' \<and> contents q' = contents q @ xs \<and> invar q' \<and> cap q' = cap q"
  using assms
proof (induction xs arbitrary: q)
  case Nil
  then show ?case by simp
next
  case (Cons x xs)
  from Cons.prems push_room [of q x] obtain q1 where
    "push q x = Inr (QUEUE_OK, q1)" "contents q1 = contents q @ [x]" "invar q1" "cap q1 = cap q"
    by auto
  with Cons.IH [of q1] Cons.prems show ?case by auto
qed

lemma pop_n_contents:
  assumes "invar q" "n \<le> length (contents q)"
  shows "\<exists>q'. pop_n q n = Inr (map Some (take n (contents q)), q') \<and>
              contents q' = drop n (contents q) \<and> invar q' \<and> cap q' = cap q"
  using assms
proof (induction n arbitrary: q)
  case 0
  then show ?case by simp
next
  case (Suc n)
  then obtain x xs where "contents q = x # xs" by (cases "contents q") auto
  with Suc.prems(1) pop_some [of q x xs] obtain q1 where
    "pop q = Inr (QUEUE_OK, Some x, q1)" "contents q1 = xs" "invar q1" "cap q1 = cap q" by auto
  with Suc.IH [of q1] Suc.prems \<open>contents q = x # xs\<close> show ?case by auto
qed

text \<open>Bytes come out in the order in which they went in.\<close>

lemma fifo_order:
  assumes "invar q" "contents q = []" "length xs \<le> cap q"
  shows "\<exists>q1 q2. push_all q xs = Inr q1 \<and> pop_n q1 (length xs) = Inr (map Some xs, q2) \<and>
                 contents q2 = [] \<and> invar q2"
proof -
  from push_all_contents [of q xs] assms obtain q1 where
    "push_all q xs = Inr q1" "contents q1 = xs" "invar q1" by auto
  with pop_n_contents [of q1 "length xs"] show ?thesis by auto
qed

end

section \<open>The ring buffer satisfies the contract\<close>

definition queue_ring :: "queue_t \<Rightarrow> nat" where
  "queue_ring q = unat (q_size q) - 1"

definition queue_ok :: "queue_t \<Rightarrow> bool" where
  "queue_ok q \<longleftrightarrow> 2 \<le> unat (q_size q) \<and> unat (q_size q) < 2147483648 \<and>
     unat (q_size q) \<le> length (q_data q) \<and>
     unat (q_top q) < queue_ring q \<and> unat (q_end q) < queue_ring q"

definition queue_count :: "queue_t \<Rightarrow> nat" where
  "queue_count q = (unat (q_end q) + queue_ring q - unat (q_top q)) mod queue_ring q"

text \<open>The bytes in the ring, oldest first: the cells after \<open>top\<close> up to and including \<open>end\<close>.\<close>

definition queue_contents :: "queue_t \<Rightarrow> u8 list" where
  "queue_contents q =
     map (\<lambda>k. q_data q ! ((unat (q_top q) + 1 + k) mod queue_ring q)) [0..<queue_count q]"

definition queue_cap :: "queue_t \<Rightarrow> nat" where
  "queue_cap q = queue_ring q - 1"

lemma queue_step:
  assumes "queue_ok q" "unat i < queue_ring q"
  shows "unat (if i + 1 = q_size q - 1 then 0 else i + 1) = (unat i + 1) mod queue_ring q"
proof -
  from assms have b: "unat i + 1 < 4294967296" "1 \<le> unat (q_size q)"
    by (auto simp: queue_ok_def queue_ring_def)
  have u: "unat (i + 1) = unat i + 1" using b(1) by (simp add: unat_add32)
  have r: "unat (q_size q - 1) = queue_ring q" using b(2) by (simp add: unat_sub32 queue_ring_def)
  have "i + 1 = q_size q - 1 \<longleftrightarrow> unat i + 1 = queue_ring q"
    by (metis u r word_unat_eq_iff)
  then show ?thesis using u assms(2) by auto
qed

lemma queue_count_eq:
  "queue_ok q \<Longrightarrow> queue_count q =
     (if unat (q_top q) \<le> unat (q_end q) then unat (q_end q) - unat (q_top q)
      else unat (q_end q) + queue_ring q - unat (q_top q))"
  by (auto simp: queue_count_def queue_ok_def mod_if)

lemma queue_count_less: "queue_ok q \<Longrightarrow> queue_count q < queue_ring q"
  by (auto simp: queue_count_def queue_ok_def)

lemma queue_end_eq: "queue_ok q \<Longrightarrow> unat (q_end q) = (unat (q_top q) + queue_count q) mod queue_ring q"
  by (auto simp: queue_count_eq queue_ok_def)

lemma unat_queue_length:
  assumes "queue_ok q"
  shows "unat (queue_length q) =
    (if unat (q_top q) \<le> unat (q_end q) then unat (q_end q) - unat (q_top q)
     else unat (q_size q) + unat (q_top q) - unat (q_end q))"
proof (cases "unat (q_top q) \<le> unat (q_end q)")
  case True
  then show ?thesis by (simp add: queue_length_def word_le_nat_alt unat_sub32)
next
  case False
  from assms have "unat (q_size q + q_top q) = unat (q_size q) + unat (q_top q)"
    unfolding queue_ok_def queue_ring_def by (intro unat_add32) linarith
  with False show ?thesis by (simp add: queue_length_def word_le_nat_alt unat_sub32)
qed

lemma queue_length_0_iff: "queue_ok q \<Longrightarrow> queue_length q = 0 \<longleftrightarrow> queue_count q = 0"
  using unat_queue_length [of q]
  by (auto simp: word_unat_eq_iff [of "queue_length q" 0] queue_count_eq queue_ok_def split: if_splits)

text \<open>The overflow test of \<open>queue_push\<close> never succeeds on a well-formed queue.\<close>

lemma queue_length_neq_size: "queue_ok q \<Longrightarrow> queue_length q \<noteq> q_size q"
  using unat_queue_length [of q]
  by (auto simp: word_unat_eq_iff [of "queue_length q" "q_size q"] queue_ok_def queue_ring_def
      split: if_splits)

lemma queue_push_eq:
  assumes "queue_ok q"
  obtains e' where "unat e' = (unat (q_end q) + 1) mod queue_ring q"
    "queue_push q x = Inr (QUEUE_OK, q\<lparr>q_end := e', q_data := (q_data q)[unat e' := x]\<rparr>)"
    "queue_ok (q\<lparr>q_end := e', q_data := (q_data q)[unat e' := x]\<rparr>)"
proof -
  define e where "e = (if q_end q + 1 = q_size q - 1 then 0 else q_end q + 1)"
  from assms have e: "unat e = (unat (q_end q) + 1) mod queue_ring q"
    unfolding e_def by (intro queue_step) (auto simp: queue_ok_def)
  moreover from assms have "(unat (q_end q) + 1) mod queue_ring q < queue_ring q"
    by (auto simp: queue_ok_def intro!: mod_less_divisor)
  ultimately have r: "unat e < queue_ring q" by simp
  with assms have l: "unat e < length (q_data q)" unfolding queue_ok_def queue_ring_def by linarith
  have "queue_push q x = Inr (QUEUE_OK, q\<lparr>q_end := e, q_data := (q_data q)[unat e := x]\<rparr>)"
    unfolding queue_push_def Let_def e_def [symmetric] using l assms by (simp add: queue_length_neq_size)
  moreover have "queue_ok (q\<lparr>q_end := e, q_data := (q_data q)[unat e := x]\<rparr>)"
    using assms r by (simp add: queue_ok_def queue_ring_def)
  ultimately show thesis using e by (rule that [rotated])
qed

lemma queue_pop_eq:
  assumes "queue_ok q" "queue_count q \<noteq> 0"
  obtains t' where "unat t' = (unat (q_top q) + 1) mod queue_ring q"
    "queue_pop q = Inr (QUEUE_OK, Some (q_data q ! unat t'), q\<lparr>q_top := t'\<rparr>)"
    "queue_ok (q\<lparr>q_top := t'\<rparr>)"
proof -
  define t where "t = (if q_top q + 1 = q_size q - 1 then 0 else q_top q + 1)"
  from assms have t: "unat t = (unat (q_top q) + 1) mod queue_ring q"
    unfolding t_def by (intro queue_step) (auto simp: queue_ok_def)
  moreover from assms have "(unat (q_top q) + 1) mod queue_ring q < queue_ring q"
    by (auto simp: queue_ok_def intro!: mod_less_divisor)
  ultimately have r: "unat t < queue_ring q" by simp
  with assms have l: "unat t < length (q_data q)" unfolding queue_ok_def queue_ring_def by linarith
  have "queue_pop q = Inr (QUEUE_OK, Some (q_data q ! unat t), q\<lparr>q_top := t\<rparr>)"
    unfolding queue_pop_def Let_def t_def [symmetric] using l assms by (simp add: queue_length_0_iff)
  moreover have "queue_ok (q\<lparr>q_top := t\<rparr>)"
    using assms r by (simp add: queue_ok_def queue_ring_def)
  ultimately show thesis using t by (rule that [rotated])
qed

lemma queue_ring_upd [simp]:
  "queue_ring (q\<lparr>q_end := e, q_data := d\<rparr>) = queue_ring q" "queue_ring (q\<lparr>q_top := t\<rparr>) = queue_ring q"
  by (simp_all add: queue_ring_def)

text \<open>Pushing below the capacity appends.\<close>

lemma queue_push_contents:
  assumes ok: "queue_ok q" and room: "queue_count q < queue_ring q - 1"
    and e': "unat e' = (unat (q_end q) + 1) mod queue_ring q"
  shows "queue_contents (q\<lparr>q_end := e', q_data := (q_data q)[unat e' := x]\<rparr>) = queue_contents q @ [x]"
proof -
  let ?R = "queue_ring q" and ?t = "unat (q_top q)" and ?c = "queue_count q"
  let ?q = "q\<lparr>q_end := e', q_data := (q_data q)[unat e' := x]\<rparr>"
  have e: "unat e' = (?t + 1 + ?c) mod ?R"
    unfolding e' queue_end_eq [OF ok] by (simp add: mod_Suc_eq)
  have R: "?R \<le> length (q_data q)" "?c + 1 < ?R" "?t < ?R" "0 < ?R"
    using ok room by (auto simp: queue_ok_def queue_ring_def)
  have c': "queue_count ?q = ?c + 1"
  proof (cases "?t + 1 + ?c < ?R")
    case True
    then show ?thesis using R by (simp add: queue_count_def e mod_if)
  next
    case False
    then have "(?t + 1 + ?c) mod ?R = ?t + 1 + ?c - ?R" using R by (simp add: mod_if)
    then show ?thesis using R False by (simp add: queue_count_def e)
  qed
  have old: "(q_data q)[unat e' := x] ! ((?t + 1 + k) mod ?R) = q_data q ! ((?t + 1 + k) mod ?R)"
    if "k < ?c" for k
  proof (rule nth_list_update_neq)
    have "k < ?R" "?c < ?R" "k \<noteq> ?c" using that R(2) by auto
    then show "unat e' \<noteq> (?t + 1 + k) mod ?R" unfolding e using ring_inj by metis
  qed
  have new: "(q_data q)[unat e' := x] ! ((?t + 1 + ?c) mod ?R) = x"
    unfolding e [symmetric]
    by (rule nth_list_update_eq) (use R(1,4) in \<open>simp add: e less_le_trans [OF mod_less_divisor]\<close>)
  show ?thesis using old new by (simp add: queue_contents_def c')
qed

text \<open>Popping removes the head.\<close>

lemma queue_pop_contents:
  assumes ok: "queue_ok q" and ne: "queue_count q \<noteq> 0"
    and t': "unat t' = (unat (q_top q) + 1) mod queue_ring q"
  shows "queue_contents q = q_data q ! unat t' # queue_contents (q\<lparr>q_top := t'\<rparr>)"
proof -
  let ?R = "queue_ring q" and ?t = "unat (q_top q)" and ?c = "queue_count q"
  have R: "?c < ?R" "?t < ?R" "unat (q_end q) < ?R"
    using ok queue_count_less by (auto simp: queue_ok_def)
  have c': "queue_count (q\<lparr>q_top := t'\<rparr>) = ?c - 1"
  proof (cases "?t + 1 < ?R")
    case True
    then show ?thesis using R ne ok t' by (auto simp: queue_count_def queue_count_eq mod_if split: if_splits)
  next
    case False
    with R(2) have "?t + 1 = ?R" by simp
    then show ?thesis using R ne ok t' by (auto simp: queue_count_def queue_count_eq mod_if split: if_splits)
  qed
  have i: "(unat t' + 1 + k) mod ?R = (?t + 1 + Suc k) mod ?R" for k
    using mod_add_left_eq [of "?t + 1" ?R "1 + k"] by (simp add: t')
  have "[0..<?c] = 0 # map Suc [0..<?c - 1]"
    using ne by (cases ?c) (simp_all add: upt_conv_Cons map_Suc_upt del: upt_Suc)
  then show ?thesis using i by (simp add: queue_contents_def c' t')
qed

lemma length_queue_contents: "length (queue_contents q) = queue_count q"
  by (simp add: queue_contents_def)

lemma queue_contents_Nil_iff: "queue_contents q = [] \<longleftrightarrow> queue_count q = 0"
  by (metis length_0_conv length_queue_contents)

interpretation bq: byte_fifo queue_push queue_pop queue_contents queue_cap queue_ok
proof (unfold_locales, goal_cases)
  case (1 q x)
  from queue_push_eq [OF 1(1), of x] obtain e' where
    e': "unat e' = (unat (q_end q) + 1) mod queue_ring q"
    "queue_push q x = Inr (QUEUE_OK, q\<lparr>q_end := e', q_data := (q_data q)[unat e' := x]\<rparr>)"
    "queue_ok (q\<lparr>q_end := e', q_data := (q_data q)[unat e' := x]\<rparr>)"
    by blast
  moreover have "queue_contents (q\<lparr>q_end := e', q_data := (q_data q)[unat e' := x]\<rparr>) = queue_contents q @ [x]"
    using 1 by (intro queue_push_contents e') (simp_all add: queue_cap_def length_queue_contents)
  moreover have "queue_cap (q\<lparr>q_end := e', q_data := (q_data q)[unat e' := x]\<rparr>) = queue_cap q"
    by (simp add: queue_cap_def)
  ultimately show ?case by blast
next
  case (2 q)
  then show ?case by (simp add: queue_pop_def queue_contents_Nil_iff queue_length_0_iff)
next
  case (3 q x xs)
  then have ne: "queue_count q \<noteq> 0" using queue_contents_Nil_iff [of q] by simp
  from queue_pop_eq [OF 3(1) ne] obtain t' where t': "unat t' = (unat (q_top q) + 1) mod queue_ring q"
    "queue_pop q = Inr (QUEUE_OK, Some (q_data q ! unat t'), q\<lparr>q_top := t'\<rparr>)"
    "queue_ok (q\<lparr>q_top := t'\<rparr>)" by blast
  from queue_pop_contents [OF 3(1) ne t'(1)] t' 3(2) show ?case
    by (auto simp: queue_cap_def)
qed

section \<open>Properties\<close>

text \<open>
  C8: the ring buffer refines a first-in first-out list. On a well-formed queue holding fewer
  than \<open>size - 2\<close> bytes \<open>queue_push\<close> succeeds and appends its byte, \<open>queue_pop\<close> answers
  \<open>QUEUE_EMPTY\<close> exactly on the empty queue and otherwise removes and returns the oldest byte,
  and both keep the queue well formed.
\<close>

theorem queue_refines_fifo:
  assumes "queue_ok q"
  shows "(length (queue_contents q) < queue_cap q \<longrightarrow>
           (\<exists>q'. queue_push q x = Inr (QUEUE_OK, q') \<and> queue_contents q' = queue_contents q @ [x] \<and>
                 queue_ok q' \<and> queue_cap q' = queue_cap q)) \<and>
         (case queue_contents q of
            [] \<Rightarrow> queue_is_empty q \<and> queue_pop q = Inr (QUEUE_EMPTY, None, q)
          | y # ys \<Rightarrow> \<not> queue_is_empty q \<and>
              (\<exists>q'. queue_pop q = Inr (QUEUE_OK, Some y, q') \<and> queue_contents q' = ys \<and>
                    queue_ok q' \<and> queue_cap q' = queue_cap q))"
proof (intro conjI impI)
  assume "length (queue_contents q) < queue_cap q"
  with assms show "\<exists>q'. queue_push q x = Inr (QUEUE_OK, q') \<and> queue_contents q' = queue_contents q @ [x] \<and>
      queue_ok q' \<and> queue_cap q' = queue_cap q" by (rule bq.push_room)
next
  have e: "queue_is_empty q \<longleftrightarrow> queue_contents q = []"
    using assms by (simp add: queue_is_empty_def queue_length_0_iff queue_contents_Nil_iff)
  show "case queue_contents q of
            [] \<Rightarrow> queue_is_empty q \<and> queue_pop q = Inr (QUEUE_EMPTY, None, q)
          | y # ys \<Rightarrow> \<not> queue_is_empty q \<and>
              (\<exists>q'. queue_pop q = Inr (QUEUE_OK, Some y, q') \<and> queue_contents q' = ys \<and>
                    queue_ok q' \<and> queue_cap q' = queue_cap q)"
    using e bq.pop_empty [OF assms] bq.pop_some [OF assms] by (auto split: list.split)
qed

definition queue_example :: queue_t where
  "queue_example = \<lparr>q_data = replicate 8 0, q_top = 6, q_end = 2, q_size = 8\<rparr>"

theorem queue_refines_fifo_witness:
  "queue_ok queue_example \<and> queue_contents queue_example = [0, 0, 0] \<and>
   (\<exists>q'. queue_push queue_example 65 = Inr (QUEUE_OK, q') \<and> queue_contents q' = [0, 0, 0, 65])"
proof -
  have ok: "queue_ok queue_example" by (simp add: queue_ok_def queue_ring_def queue_example_def)
  have c: "queue_contents queue_example = [0, 0, 0]" "queue_cap queue_example = 6"
    by (simp_all add: queue_contents_def queue_count_def queue_ring_def queue_cap_def queue_example_def
        upt_conv_Cons)
  with ok queue_refines_fifo [OF ok, of 65] show ?thesis by auto
qed

text \<open>
  Bytes leave the queue in the order they entered it: pushing any sequence no longer than
  the capacity into an empty queue and then popping as many bytes returns that sequence.
\<close>

lemma queue_fifo_order:
  assumes "queue_ok q" "queue_contents q = []" "length xs \<le> queue_cap q"
  shows "\<exists>q1 q2. bq.push_all q xs = Inr q1 \<and> bq.pop_n q1 (length xs) = Inr (map Some xs, q2) \<and>
                 queue_contents q2 = [] \<and> queue_ok q2"
  using assms by (rule bq.fifo_order)

lemma queue_fifo_order_example:
  "\<exists>q1 q2. bq.push_all (snd (queue_init queue_example (replicate 8 0) 8)) [72, 105] = Inr q1 \<and>
           bq.pop_n q1 2 = Inr ([Some 72, Some 105], q2)"
proof -
  let ?q = "snd (queue_init queue_example (replicate 8 0) 8)"
  have "queue_ok ?q" "queue_contents ?q = []" "length [72, 105 :: u8] \<le> queue_cap ?q"
    by (simp_all add: queue_ok_def queue_contents_def queue_count_def queue_ring_def queue_cap_def
        queue_init_def queue_example_def)
  from queue_fifo_order [OF this] show ?thesis by (auto simp: numeral_2_eq_2)
qed

text \<open>
  C36: \<open>queue_push\<close> never answers \<open>QUEUE_OVERFLOW\<close> on a well-formed queue, full or not. When
  the queue holds \<open>size - 2\<close> bytes the next push is accepted and empties it: all the bytes
  queued so far, and the new one, are lost to \<open>queue_pop\<close>.
\<close>

theorem queue_push_overflow_undetected:
  assumes "queue_ok q"
  shows "\<exists>q'. queue_push q x = Inr (QUEUE_OK, q') \<and> queue_ok q' \<and>
          (length (queue_contents q) = queue_cap q \<longrightarrow> queue_contents q' = [])"
proof -
  from queue_push_eq [OF assms, of x] obtain e' where
    e: "unat e' = (unat (q_end q) + 1) mod queue_ring q"
    and p: "queue_push q x = Inr (QUEUE_OK, q\<lparr>q_end := e', q_data := (q_data q)[unat e' := x]\<rparr>)"
      "queue_ok (q\<lparr>q_end := e', q_data := (q_data q)[unat e' := x]\<rparr>)" by blast
  have "queue_contents (q\<lparr>q_end := e', q_data := (q_data q)[unat e' := x]\<rparr>) = []"
    if "length (queue_contents q) = queue_cap q"
  proof -
    have "queue_count q = queue_ring q - 1" "0 < queue_ring q" "unat (q_top q) < queue_ring q"
      using that assms by (auto simp: length_queue_contents queue_cap_def queue_ok_def)
    then have "unat e' = unat (q_top q)"
      unfolding e queue_end_eq [OF assms] by (simp add: mod_Suc_eq)
    then show ?thesis by (simp add: queue_contents_Nil_iff queue_count_def)
  qed
  with p show ?thesis by blast
qed

theorem queue_push_overflow_undetected_witness:
  "let q = queue_example\<lparr>q_end := 5\<rparr> in
   queue_ok q \<and> length (queue_contents q) = 6 \<and>
   (\<exists>q'. queue_push q 1 = Inr (QUEUE_OK, q') \<and> queue_contents q' = [])"
proof -
  let ?q = "queue_example\<lparr>q_end := 5\<rparr>"
  have "queue_ok ?q" by (simp add: queue_ok_def queue_ring_def queue_example_def)
  moreover have "length (queue_contents ?q) = 6" "queue_cap ?q = 6"
    by (simp_all add: length_queue_contents queue_count_def queue_ring_def queue_cap_def queue_example_def)
  ultimately show ?thesis using queue_push_overflow_undetected [of ?q 1] by auto
qed

end
