(* ===== verification/F9_Bitmap.thy ===== *)
theory F9_Bitmap
  imports F9_Prelude
begin

text \<open>
  Kernel bitmaps (\<^verbatim>\<open>include/lib/bitmap.h\<close>, the classic variant that is compiled when
  \<^verbatim>\<open>CONFIG_BITMAP_BITBAND\<close> is off, as in \<^verbatim>\<open>board/discoveryf4/defconfig\<close>) over the
  exclusive-access primitives of \<^verbatim>\<open>platform/bitops.c\<close>. A bitmap is the array of 32-bit
  words the code declares; every access that leaves the array is a fault.
\<close>

section \<open>Atomic primitives\<close>

definition atomic_set :: "u32 \<Rightarrow> u32 \<Rightarrow> u32" where
  "atomic_set atom newval = newval"

definition atomic_get :: "u32 \<Rightarrow> u32" where
  "atomic_get atom = atom"

text \<open>
  The inline assembly of \<open>test_and_set_word\<close> and \<open>test_and_set_bit\<close>: a load-exclusive, a
  test, and a store-exclusive that is executed only when the test finds the bit clear. The
  store can be refused by the processor (\<open>strex\<close> then leaves 1 in \<open>r0\<close> and memory as it
  was); \<open>strex_ok\<close> is the processor's answer. The result is the new word and what the
  function returns, \<open>result == 0\<close>.
\<close>

definition test_and_set_word :: "bool \<Rightarrow> u32 \<Rightarrow> u32 \<times> u32" where
  "test_and_set_word strex_ok word =
     (if word = 0
      then (if strex_ok then (1, 1) else (word, 0))
      else (word, 0))"

definition test_and_set_bit :: "bool \<Rightarrow> u32 \<Rightarrow> u32 \<Rightarrow> u32 \<times> u32" where
  "test_and_set_bit strex_ok word bitmask =
     (if word AND bitmask = 0
      then (if strex_ok then (word OR bitmask, 1) else (word, 0))
      else (word, 0))"

section \<open>Bitmap words and cursors\<close>

definition BITMAP_ALIGN :: nat where
  "BITMAP_ALIGN = 32"

text \<open>\<^verbatim>\<open>ALIGNED(size, align)\<close> of \<^verbatim>\<open>include/types.h\<close>: the number of words that hold
  \<open>size\<close> bits.\<close>

definition ALIGNED :: "nat \<Rightarrow> nat \<Rightarrow> nat" where
  "ALIGNED sz align = sz div align + (if sz AND (align - 1) \<noteq> 0 then 1 else 0)"

definition DECLARE_BITMAP :: "nat \<Rightarrow> u32 list" where
  "DECLARE_BITMAP sz = replicate (ALIGNED sz BITMAP_ALIGN) 0"

definition BITOFF :: "nat \<Rightarrow> nat" where
  "BITOFF b = b mod BITMAP_ALIGN"

definition BITMASK :: "nat \<Rightarrow> u32" where
  "BITMASK b = push_bit (BITOFF b) 1"

definition BITINDEX :: "nat \<Rightarrow> nat" where
  "BITINDEX b = b div BITMAP_ALIGN"

lemmas bitmap_macros = BITMAP_ALIGN_def BITOFF_def BITMASK_def BITINDEX_def

definition bitmap_set_bit :: "u32 list \<Rightarrow> nat \<Rightarrow> u32 list outcome" where
  "bitmap_set_bit bm b =
     bindF (array_get bm (BITINDEX b)) (\<lambda>w. array_set bm (BITINDEX b) (w OR BITMASK b))"

definition bitmap_clear_bit :: "u32 list \<Rightarrow> nat \<Rightarrow> u32 list outcome" where
  "bitmap_clear_bit bm b =
     bindF (array_get bm (BITINDEX b)) (\<lambda>w. array_set bm (BITINDEX b) (w AND NOT (BITMASK b)))"

definition bitmap_get_bit :: "u32 list \<Rightarrow> nat \<Rightarrow> u32 outcome" where
  "bitmap_get_bit bm b =
     bindF (array_get bm (BITINDEX b)) (\<lambda>w. Inr (drop_bit (BITOFF b) w AND 1))"

text \<open>
  The kernel calls \<open>test_and_set_bit\<close> on one core, from code that is not interrupted between
  the two exclusive accesses by another exclusive access, so the store is granted.
\<close>

definition bitmap_test_and_set_bit :: "u32 list \<Rightarrow> nat \<Rightarrow> (u32 \<times> u32 list) outcome" where
  "bitmap_test_and_set_bit bm b =
     bindF (array_get bm (BITINDEX b)) (\<lambda>w.
       let (w', r) = test_and_set_bit True w (BITMASK b)
       in bindF (array_set bm (BITINDEX b) w') (\<lambda>bm'. Inr (r, bm')))"

section \<open>A bitmap as a set of bits\<close>

definition bm_has :: "u32 list \<Rightarrow> nat \<Rightarrow> bool" where
  "bm_has bm b \<longleftrightarrow> bit (bm ! (b div 32)) (b mod 32)"

definition bm_room :: "u32 list \<Rightarrow> nat" where
  "bm_room bm = 32 * length bm"

lemma bm_room_index: "b < bm_room bm \<longleftrightarrow> b div 32 < length bm"
  by (auto simp: bm_room_def)

lemma bm_has_update:
  assumes "b div 32 < length bm"
  shows "bm_has (bm[b div 32 := w]) c \<longleftrightarrow>
         (if c div 32 = b div 32 then bit w (c mod 32) else bm_has bm c)"
  using assms by (auto simp: bm_has_def)

lemma same_bit: "c div 32 = b div 32 \<Longrightarrow> c mod 32 = b mod 32 \<longleftrightarrow> c = (b :: nat)"
  by (metis div_mult_mod_eq)

lemma bitmap_set_bit_spec:
  assumes "b < bm_room bm"
  obtains bm' where "bitmap_set_bit bm b = Inr bm'" "length bm' = length bm"
    "\<And>c. bm_has bm' c \<longleftrightarrow> bm_has bm c \<or> c = b"
proof
  let ?bm' = "bm[b div 32 := bm ! (b div 32) OR push_bit (b mod 32) 1]"
  from assms have i: "b div 32 < length bm" by (simp add: bm_room_index)
  then show "bitmap_set_bit bm b = Inr ?bm'"
    by (simp add: bitmap_set_bit_def bitmap_macros)
  show "length ?bm' = length bm" by simp
  show "bm_has ?bm' c \<longleftrightarrow> bm_has bm c \<or> c = b" for c
    using i same_bit [of c b] by (simp add: bm_has_update wbits del: push_bit_of_1) (auto simp: bm_has_def)
qed

lemma bitmap_clear_bit_spec:
  assumes "b < bm_room bm"
  obtains bm' where "bitmap_clear_bit bm b = Inr bm'" "length bm' = length bm"
    "\<And>c. bm_has bm' c \<longleftrightarrow> bm_has bm c \<and> c \<noteq> b"
proof
  let ?bm' = "bm[b div 32 := bm ! (b div 32) AND NOT (push_bit (b mod 32) 1)]"
  from assms have i: "b div 32 < length bm" by (simp add: bm_room_index)
  then show "bitmap_clear_bit bm b = Inr ?bm'"
    by (simp add: bitmap_clear_bit_def bitmap_macros)
  show "length ?bm' = length bm" by simp
  show "bm_has ?bm' c \<longleftrightarrow> bm_has bm c \<and> c \<noteq> b" for c
    using i same_bit [of c b] by (simp add: bm_has_update wbits del: push_bit_of_1) (auto simp: bm_has_def)
qed

lemma bitmap_get_bit_spec:
  "b < bm_room bm \<Longrightarrow> bitmap_get_bit bm b = Inr (of_bool (bm_has bm b))"
  by (simp add: bitmap_get_bit_def bm_room_index bitmap_macros shift_and_one bm_has_def)

lemma bitmap_test_and_set_bit_taken:
  assumes "b < bm_room bm" "bm_has bm b"
  shows "bitmap_test_and_set_bit bm b = Inr (0, bm)"
  using assms
  by (simp add: bitmap_test_and_set_bit_def bm_room_index bitmap_macros test_and_set_bit_def
      and_mask_zero_iff bm_has_def del: push_bit_of_1)

lemma bitmap_test_and_set_bit_free:
  assumes "b < bm_room bm" "\<not> bm_has bm b"
  obtains bm' where "bitmap_test_and_set_bit bm b = Inr (1, bm')" "bitmap_set_bit bm b = Inr bm'"
  using assms that
  by (simp add: bitmap_test_and_set_bit_def bitmap_set_bit_def bm_room_index bitmap_macros
      test_and_set_bit_def and_mask_zero_iff bm_has_def del: push_bit_of_1)

lemma DECLARE_BITMAP_room: "n \<le> bm_room (DECLARE_BITMAP n)"
proof -
  have "n AND 31 = n mod 32"
    using take_bit_eq_mask [of 5 n] by (simp add: take_bit_eq_mod mask_eq_exp_minus_1)
  then show ?thesis
    by (simp add: bm_room_def DECLARE_BITMAP_def ALIGNED_def BITMAP_ALIGN_def) presburger
qed

lemma DECLARE_BITMAP_empty: "b < bm_room (DECLARE_BITMAP n) \<Longrightarrow> \<not> bm_has (DECLARE_BITMAP n) b"
  by (simp add: bm_room_index bm_has_def DECLARE_BITMAP_def)

end
