(* ===== verification/F9_Ktable.thy ===== *)
theory F9_Ktable
  imports F9_Bitmap
begin

text \<open>
  Kernel tables (\<^verbatim>\<open>kernel/lib/ktable.c\<close>, \<^verbatim>\<open>include/lib/ktable.h\<close>): fixed arrays of
  kernel objects whose free slots are found in a bitmap. The table keeps the address of its
  data and the size of an element, so element pointers are 32-bit addresses as in the code;
  \<open>ktable_alloc_slot\<close> is the same search with the slot number kept, which is how the
  components above represent a pointer to an element.

  The interface the other components use is the locale \<open>slot_table\<close>: allocation takes the
  least free slot, releasing gives exactly that slot back.
\<close>

section \<open>The table and its operations\<close>

record ktable =
  tname :: string
  bitmap :: "u32 list"
  kt_data :: u32
  kt_num :: u32
  kt_size :: u32

definition DECLARE_KTABLE :: "string \<Rightarrow> u32 \<Rightarrow> u32 \<Rightarrow> nat \<Rightarrow> ktable" where
  "DECLARE_KTABLE name data elem_size n =
     \<lparr>tname = name, bitmap = DECLARE_BITMAP n, kt_data = data,
      kt_num = of_nat n, kt_size = elem_size\<rparr>"

text \<open>The address of element \<open>i\<close>.\<close>

definition ktable_elem :: "ktable \<Rightarrow> nat \<Rightarrow> u32" where
  "ktable_elem kt i = kt_data kt + of_nat i * kt_size kt"

text \<open>
  \<open>ktable_init\<close> clears the first \<open>num / 8\<close> bytes of the bitmap; byte \<open>b\<close> of the array is
  byte \<open>b mod 4\<close> of word \<open>b div 4\<close> (little endian). A byte beyond the array is a fault.
\<close>

definition clear_byte :: "u32 list \<Rightarrow> nat \<Rightarrow> u32 list outcome" where
  "clear_byte bm b =
     bindF (array_get bm (b div 4)) (\<lambda>w.
       array_set bm (b div 4) (w AND NOT (push_bit (8 * (b mod 4)) 0xFF)))"

fun clear_bytes :: "nat \<Rightarrow> u32 list \<Rightarrow> u32 list outcome" where
  "clear_bytes 0 bm = Inr bm"
| "clear_bytes (Suc n) bm = bindF (clear_bytes n bm) (\<lambda>bm'. clear_byte bm' n)"

definition ktable_init :: "ktable \<Rightarrow> ktable outcome" where
  "ktable_init kt =
     bindF (clear_bytes (unat (kt_num kt div 8)) (bitmap kt)) (\<lambda>bm. Inr (kt\<lparr>bitmap := bm\<rparr>))"

text \<open>The C comparisons \<open>i > kt->num\<close> convert the \<^verbatim>\<open>int\<close> to unsigned.\<close>

definition ktable_is_allocated :: "ktable \<Rightarrow> int \<Rightarrow> int outcome" where
  "ktable_is_allocated kt i =
     (if (word_of_int i :: u32) > kt_num kt then Inr (- 1)
      else bindF (bitmap_get_bit (bitmap kt) (nat i)) (\<lambda>r. Inr (uint r)))"

definition ktable_alloc_id :: "ktable \<Rightarrow> int \<Rightarrow> (u32 option \<times> ktable) outcome" where
  "ktable_alloc_id kt i =
     (if (word_of_int i :: u32) > kt_num kt then Inr (None, kt)
      else bindF (bitmap_test_and_set_bit (bitmap kt) (nat i)) (\<lambda>(r, bm).
        if r \<noteq> 0 then Inr (Some (ktable_elem kt (nat i)), kt\<lparr>bitmap := bm\<rparr>)
        else Inr (None, kt\<lparr>bitmap := bm\<rparr>)))"

text \<open>The search loop of \<open>ktable_alloc\<close>, from cursor \<open>i\<close>.\<close>

function ktable_alloc_from :: "ktable \<Rightarrow> nat \<Rightarrow> (nat option \<times> ktable) outcome" where
  "ktable_alloc_from kt i =
     (if i < unat (kt_num kt)
      then bindF (bitmap_test_and_set_bit (bitmap kt) i) (\<lambda>(r, bm).
             if r \<noteq> 0 then Inr (Some i, kt\<lparr>bitmap := bm\<rparr>)
             else ktable_alloc_from (kt\<lparr>bitmap := bm\<rparr>) (Suc i))
      else Inr (None, kt))"
  by pat_completeness auto
termination
  by (relation "measure (\<lambda>(kt, i). unat (kt_num kt) - i)") auto

declare ktable_alloc_from.simps [simp del]

definition ktable_alloc_slot :: "ktable \<Rightarrow> (nat option \<times> ktable) outcome" where
  "ktable_alloc_slot kt = ktable_alloc_from kt 0"

definition ktable_alloc :: "ktable \<Rightarrow> (u32 option \<times> ktable) outcome" where
  "ktable_alloc kt =
     bindF (ktable_alloc_slot kt) (\<lambda>(s, kt'). Inr (map_option (ktable_elem kt') s, kt'))"

definition ktable_getid :: "ktable \<Rightarrow> u32 \<Rightarrow> u32" where
  "ktable_getid kt element =
     (let i = (element - kt_data kt) div kt_size kt
      in if i > kt_num kt \<or> sint i < 0 then - 1 else i)"

definition ktable_free :: "ktable \<Rightarrow> u32 \<Rightarrow> ktable outcome" where
  "ktable_free kt element =
     (let i = ktable_getid kt element
      in if i \<noteq> - 1
         then bindF (bitmap_clear_bit (bitmap kt) (unat i)) (\<lambda>bm. Inr (kt\<lparr>bitmap := bm\<rparr>))
         else Inr kt)"

text \<open>Releasing the element with slot number \<open>i\<close>, as the components above call it.\<close>

definition ktable_free_slot :: "ktable \<Rightarrow> nat \<Rightarrow> ktable outcome" where
  "ktable_free_slot kt i = ktable_free kt (ktable_elem kt i)"

section \<open>The contract of a table of slots\<close>

locale slot_table =
  fixes alloc :: "'t \<Rightarrow> (nat option \<times> 't) outcome"
    and free :: "'t \<Rightarrow> nat \<Rightarrow> 't outcome"
    and used :: "'t \<Rightarrow> nat set"
    and cap :: "'t \<Rightarrow> nat"
    and invar :: "'t \<Rightarrow> bool"
  assumes used_bound: "invar t \<Longrightarrow> used t \<subseteq> {..<cap t}"
    and alloc_full: "invar t \<Longrightarrow> used t = {..<cap t} \<Longrightarrow> alloc t = Inr (None, t)"
    and alloc_free: "invar t \<Longrightarrow> used t \<noteq> {..<cap t} \<Longrightarrow>
      \<exists>i t'. alloc t = Inr (Some i, t') \<and> i < cap t \<and> i \<notin> used t \<and> (\<forall>j<i. j \<in> used t) \<and>
             used t' = insert i (used t) \<and> invar t' \<and> cap t' = cap t"
    and free_slot: "invar t \<Longrightarrow> i < cap t \<Longrightarrow>
      \<exists>t'. free t i = Inr t' \<and> used t' = used t - {i} \<and> invar t' \<and> cap t' = cap t"
begin

lemma finite_used: "invar t \<Longrightarrow> finite (used t)"
  using used_bound finite_subset by blast

lemma full_iff_card: "invar t \<Longrightarrow> used t = {..<cap t} \<longleftrightarrow> cap t \<le> card (used t)"
  by (metis card_lessThan card_seteq finite_lessThan le_refl used_bound)

text \<open>Case analysis of an allocation; it never faults.\<close>

lemma alloc_cases:
  assumes "invar t"
  obtains (full) "alloc t = Inr (None, t)" "used t = {..<cap t}"
  | (slot) i t' where "alloc t = Inr (Some i, t')" "i < cap t" "i \<notin> used t" "\<forall>j<i. j \<in> used t"
      "used t' = insert i (used t)" "invar t'" "cap t' = cap t"
proof (cases "used t = {..<cap t}")
  case True
  then show ?thesis using alloc_full assms full by blast
next
  case False
  then show ?thesis using alloc_free [OF assms] slot by blast
qed

lemma alloc_room:
  assumes "invar t" "card (used t) < cap t"
  obtains i t' where "alloc t = Inr (Some i, t')" "i < cap t" "i \<notin> used t"
    "used t' = insert i (used t)" "invar t'" "cap t' = cap t"
    "card (used t') = Suc (card (used t))"
  using assms that finite_used [OF assms(1)]
  by (cases t rule: alloc_cases) auto

text \<open>Giving the slot just allocated back restores the set of allocated slots.\<close>

lemma alloc_then_free:
  assumes "invar t" "alloc t = Inr (Some i, t')"
  shows "\<exists>t''. free t' i = Inr t'' \<and> used t'' = used t \<and> invar t''"
proof -
  from assms(1) show ?thesis
  proof (cases rule: alloc_cases)
    case full
    with assms(2) show ?thesis by simp
  next
    case (slot k u)
    with assms(2) free_slot [of t' i] show ?thesis by auto
  qed
qed

text \<open>Releasing a slot below every other free slot makes it the next one handed out.\<close>

lemma free_then_alloc:
  assumes "invar t" "i < cap t" "\<forall>j<i. j \<in> used t"
  shows "\<exists>t' t''. free t i = Inr t' \<and> alloc t' = Inr (Some i, t'') \<and> used t'' = insert i (used t)"
proof -
  from free_slot [OF assms(1,2)] obtain t' where
    f: "free t i = Inr t'" "used t' = used t - {i}" "invar t'" "cap t' = cap t" by blast
  from f(2,4) assms(2) have "used t' \<noteq> {..<cap t'}" by auto
  from alloc_free [OF f(3) this] obtain k t'' where
    a: "alloc t' = Inr (Some k, t'')" "k \<notin> used t'" "\<forall>j<k. j \<in> used t'" "used t'' = insert k (used t')"
    by blast
  have "k = i"
  proof (rule linorder_cases [of k i])
    assume "k < i" then show ?thesis using assms(3) a(2) f(2) by auto
  next
    assume "i < k" then show ?thesis using a(3) f(2) by auto
  qed simp
  with f a show ?thesis by auto
qed

end

section \<open>The code's tables satisfy the contract\<close>

text \<open>
  What a declared table satisfies: the bitmap holds a bit for each element, and the data array
  lies in the address space without wrapping.
\<close>

definition ktable_ok :: "ktable \<Rightarrow> bool" where
  "ktable_ok kt \<longleftrightarrow>
     unat (kt_num kt) \<le> bm_room (bitmap kt) \<and> kt_size kt \<noteq> 0 \<and> unat (kt_num kt) < 2147483648 \<and>
     unat (kt_data kt) + unat (kt_num kt) * unat (kt_size kt) < 4294967296"

definition ktable_used :: "ktable \<Rightarrow> nat set" where
  "ktable_used kt = {i. i < unat (kt_num kt) \<and> bm_has (bitmap kt) i}"

definition ktable_cap :: "ktable \<Rightarrow> nat" where
  "ktable_cap kt = unat (kt_num kt)"

lemma ktable_ok_bitmap: "length bm = length (bitmap kt) \<Longrightarrow> ktable_ok (kt\<lparr>bitmap := bm\<rparr>) = ktable_ok kt"
  by (simp add: ktable_ok_def bm_room_def)

lemma ktable_elem_bound:
  assumes "ktable_ok kt" "i < unat (kt_num kt)"
  shows "unat (kt_data kt) + i * unat (kt_size kt) < 4294967296"
proof -
  from assms(2) have "i * unat (kt_size kt) \<le> unat (kt_num kt) * unat (kt_size kt)" by simp
  with assms(1) show ?thesis unfolding ktable_ok_def by linarith
qed

lemma unat_ktable_elem:
  assumes "ktable_ok kt" "i < unat (kt_num kt)"
  shows "unat (ktable_elem kt i) = unat (kt_data kt) + i * unat (kt_size kt)"
proof -
  have "ktable_elem kt i = of_nat (unat (kt_data kt) + i * unat (kt_size kt))"
    by (simp add: ktable_elem_def)
  then show ?thesis using ktable_elem_bound [OF assms] by (simp only: unat_of_nat32)
qed

lemma ktable_getid_elem:
  assumes ok: "ktable_ok kt" and i: "i < unat (kt_num kt)"
  shows "ktable_getid kt (ktable_elem kt i) = of_nat i"
proof -
  from ok i have i31: "i < 2147483648" and s: "kt_size kt \<noteq> 0" unfolding ktable_ok_def by auto
  have off: "ktable_elem kt i - kt_data kt = of_nat (i * unat (kt_size kt))"
    by (simp add: ktable_elem_def)
  have "i * unat (kt_size kt) < 4294967296" using ktable_elem_bound [OF ok i] by simp
  then have "unat ((ktable_elem kt i - kt_data kt) div kt_size kt) = i"
    unfolding off unat_div using s by (simp only: unat_of_nat32) (simp add: unat_eq_zero)
  moreover have u: "unat (of_nat i :: u32) = i" using i31 by (simp add: unat_of_nat32)
  ultimately have d: "(ktable_elem kt i - kt_data kt) div kt_size kt = of_nat i"
    by (metis word_unat_eq_iff)
  have "\<not> sint (of_nat i :: u32) < 0" using i31 u by (simp add: sint32)
  moreover have "\<not> (of_nat i :: u32) > kt_num kt" using i u by (simp add: word_less_nat_alt)
  ultimately show ?thesis by (simp add: ktable_getid_def d)
qed

text \<open>The search loop: the least free slot from the cursor on, and nothing else changes.\<close>

lemma ktable_alloc_from_spec:
  assumes "ktable_ok kt" "\<forall>j<i. j < unat (kt_num kt) \<longrightarrow> bm_has (bitmap kt) j"
  shows "ktable_used kt = {..<ktable_cap kt} \<and> ktable_alloc_from kt i = Inr (None, kt) \<or>
         (\<exists>k bm. ktable_alloc_from kt i = Inr (Some k, kt\<lparr>bitmap := bm\<rparr>) \<and> k < ktable_cap kt \<and>
                 (\<forall>j<k. bm_has (bitmap kt) j) \<and> \<not> bm_has (bitmap kt) k \<and>
                 bitmap_set_bit (bitmap kt) k = Inr bm)"
  using assms
proof (induction kt i rule: ktable_alloc_from.induct)
  case (1 kt i)
  show ?case
  proof (cases "i < unat (kt_num kt)")
    case False
    then have "ktable_used kt = {..<ktable_cap kt}"
      using "1.prems"(2) by (auto simp: ktable_used_def ktable_cap_def)
    with False show ?thesis by (simp add: ktable_alloc_from.simps [of kt i])
  next
    case True
    with "1.prems"(1) have room: "i < bm_room (bitmap kt)" by (simp add: ktable_ok_def)
    show ?thesis
    proof (cases "bm_has (bitmap kt) i")
      case taken: True
      have step: "bitmap_test_and_set_bit (bitmap kt) i = Inr (0, bitmap kt)"
        by (rule bitmap_test_and_set_bit_taken [OF room taken])
      have "\<forall>j<Suc i. j < unat (kt_num kt) \<longrightarrow> bm_has (bitmap kt) j"
        using "1.prems"(2) taken by (auto simp: less_Suc_eq)
      with "1.IH" [OF True step] "1.prems"(1) True step show ?thesis
        by (simp add: ktable_alloc_from.simps [of kt i])
    next
      case free: False
      obtain bm where "bitmap_test_and_set_bit (bitmap kt) i = Inr (1, bm)"
        "bitmap_set_bit (bitmap kt) i = Inr bm"
        using bitmap_test_and_set_bit_free [OF room free] by blast
      moreover have "\<forall>j<i. bm_has (bitmap kt) j" using "1.prems"(2) True by auto
      ultimately show ?thesis using True free
        by (simp add: ktable_alloc_from.simps [of kt i] ktable_cap_def)
    qed
  qed
qed

lemma ktable_set_bit:
  assumes "ktable_ok kt" "k < ktable_cap kt" "bitmap_set_bit (bitmap kt) k = Inr bm"
  shows "ktable_ok (kt\<lparr>bitmap := bm\<rparr>)" "ktable_used (kt\<lparr>bitmap := bm\<rparr>) = insert k (ktable_used kt)"
proof -
  from assms(1,2) have "k < bm_room (bitmap kt)" by (simp add: ktable_ok_def ktable_cap_def)
  then obtain bm' where "bitmap_set_bit (bitmap kt) k = Inr bm'" "length bm' = length (bitmap kt)"
    "\<And>c. bm_has bm' c \<longleftrightarrow> bm_has (bitmap kt) c \<or> c = k"
    by (rule bitmap_set_bit_spec) blast
  with assms show "ktable_ok (kt\<lparr>bitmap := bm\<rparr>)"
    "ktable_used (kt\<lparr>bitmap := bm\<rparr>) = insert k (ktable_used kt)"
    by (auto simp: ktable_ok_bitmap ktable_used_def ktable_cap_def)
qed

lemma ktable_free_slot_spec:
  assumes "ktable_ok kt" "i < ktable_cap kt"
  shows "\<exists>bm. ktable_free_slot kt i = Inr (kt\<lparr>bitmap := bm\<rparr>) \<and> ktable_ok (kt\<lparr>bitmap := bm\<rparr>) \<and>
              ktable_used (kt\<lparr>bitmap := bm\<rparr>) = ktable_used kt - {i}"
proof -
  from assms have i: "i < unat (kt_num kt)" "i < 2147483648" "i < bm_room (bitmap kt)"
    by (auto simp: ktable_cap_def ktable_ok_def)
  have u: "unat (of_nat i :: u32) = i" using i(2) by (simp add: unat_of_nat32)
  have ne: "(of_nat i :: u32) \<noteq> - 1"
  proof
    assume "(of_nat i :: u32) = - 1"
    then have "unat (of_nat i :: u32) = 4294967295" by (simp add: unat_minus_1_32)
    with u i(2) show False by simp
  qed
  obtain bm where "bitmap_clear_bit (bitmap kt) i = Inr bm" "length bm = length (bitmap kt)"
    "\<And>c. bm_has bm c \<longleftrightarrow> bm_has (bitmap kt) c \<and> c \<noteq> i"
    using bitmap_clear_bit_spec [OF i(3)] by blast
  then show ?thesis using assms u ne i(1)
    by (auto simp: ktable_free_slot_def ktable_free_def Let_def ktable_getid_elem ktable_ok_bitmap
        ktable_used_def)
qed

interpretation kt: slot_table ktable_alloc_slot ktable_free_slot ktable_used ktable_cap ktable_ok
proof (unfold_locales, goal_cases)
  case (1 t)
  then show ?case by (auto simp: ktable_used_def ktable_cap_def)
next
  case (2 t)
  then show ?case using ktable_alloc_from_spec [of t 0]
    by (auto simp: ktable_alloc_slot_def ktable_used_def ktable_cap_def)
next
  case (3 t)
  then obtain k bm where k: "ktable_alloc_from t 0 = Inr (Some k, t\<lparr>bitmap := bm\<rparr>)" "k < ktable_cap t"
    "\<forall>j<k. bm_has (bitmap t) j" "\<not> bm_has (bitmap t) k" "bitmap_set_bit (bitmap t) k = Inr bm"
    using ktable_alloc_from_spec [of t 0] by auto
  then show ?case using ktable_set_bit [OF 3(1) k(2,5)]
    by (auto simp: ktable_alloc_slot_def ktable_used_def ktable_cap_def)
next
  case (4 t i)
  then show ?case using ktable_free_slot_spec [of t i] by (auto simp: ktable_cap_def)
qed

section \<open>Initialisation\<close>

lemma bit_byte_mask:
  "k < 4 \<Longrightarrow> bit (push_bit (8 * k) 0xFF :: u32) m \<longleftrightarrow> m div 8 = k"
proof -
  assume k: "k < 4"
  have m8: "(0xFF :: u32) = mask 8" by (simp add: mask_eq_exp_minus_1)
  have "bit (0xFF :: u32) j \<longleftrightarrow> j < 8" for j
    unfolding m8 by (subst bit_mask_iff) auto
  then have "bit (push_bit (8 * k) 0xFF :: u32) m \<longleftrightarrow> m < 32 \<and> 8 * k \<le> m \<and> m - 8 * k < 8"
    by (auto simp: bit_push_bit_iff)
  also have "\<dots> \<longleftrightarrow> m div 8 = k" using k by auto
  finally show ?thesis .
qed

lemma byte_of_bit: "(c :: nat) div 32 = b div 4 \<Longrightarrow> (c mod 32) div 8 = b mod 4 \<longleftrightarrow> c div 8 = b"
proof -
  have "(c mod 32) div 8 = (c div 8) mod 4" "(c div 8) div 4 = c div 32"
    using mod_mult2_eq [of c 8 4] div_mult2_eq [of c 8 4] by simp_all
  then show "c div 32 = b div 4 \<Longrightarrow> (c mod 32) div 8 = b mod 4 \<longleftrightarrow> c div 8 = b"
    by (metis div_mult_mod_eq)
qed

lemma clear_byte_spec:
  assumes "b < 4 * length bm"
  obtains bm' where "clear_byte bm b = Inr bm'" "length bm' = length bm"
    "\<And>c. bm_has bm' c \<longleftrightarrow> bm_has bm c \<and> c div 8 \<noteq> b"
proof
  let ?m = "push_bit (8 * (b mod 4)) 0xFF :: u32"
  let ?bm' = "bm[b div 4 := bm ! (b div 4) AND NOT ?m]"
  from assms have i: "b div 4 < length bm" by auto
  then show "clear_byte bm b = Inr ?bm'" by (simp add: clear_byte_def)
  show "length ?bm' = length bm" by simp
  show "bm_has ?bm' c \<longleftrightarrow> bm_has bm c \<and> c div 8 \<noteq> b" for c
  proof (cases "c div 32 = b div 4")
    case True
    then have "bit ?m (c mod 32) \<longleftrightarrow> c div 8 = b"
      by (simp add: bit_byte_mask byte_of_bit)
    with True i show ?thesis by (auto simp: bm_has_def bit_and_iff bit_not_iff dest: bit_imp_le_length)
  next
    case False
    then have "c div 8 \<noteq> b" by auto
    with False i show ?thesis by (auto simp: bm_has_def)
  qed
qed

lemma clear_bytes_spec:
  assumes "n \<le> 4 * length bm"
  shows "\<exists>bm'. clear_bytes n bm = Inr bm' \<and> length bm' = length bm \<and>
               (\<forall>c. bm_has bm' c \<longleftrightarrow> bm_has bm c \<and> n \<le> c div 8)"
  using assms
proof (induction n)
  case 0
  then show ?case by simp
next
  case (Suc n)
  then obtain bm1 where b1: "clear_bytes n bm = Inr bm1" "length bm1 = length bm"
    "\<And>c. bm_has bm1 c \<longleftrightarrow> bm_has bm c \<and> n \<le> c div 8" by auto
  with Suc.prems obtain bm2 where "clear_byte bm1 n = Inr bm2" "length bm2 = length bm1"
    "\<And>c. bm_has bm2 c \<longleftrightarrow> bm_has bm1 c \<and> c div 8 \<noteq> n"
    using clear_byte_spec [of n bm1] by auto
  with b1 show ?case by auto
qed

section \<open>Properties\<close>

text \<open>
  C7: on a well-formed table \<open>ktable_alloc\<close> never faults. A full table gives NULL and is left
  as it is; otherwise the result is the address of the least free element, which becomes
  allocated, and no other element changes its status.
\<close>

theorem ktable_alloc_least_free:
  assumes "ktable_ok kt"
  shows "if ktable_used kt = {..<ktable_cap kt} then ktable_alloc kt = Inr (None, kt)
         else \<exists>i kt'. ktable_alloc kt = Inr (Some (ktable_elem kt' i), kt') \<and>
                i < ktable_cap kt \<and> i \<notin> ktable_used kt \<and> (\<forall>j<i. j \<in> ktable_used kt) \<and>
                ktable_used kt' = insert i (ktable_used kt) \<and> ktable_ok kt'"
  using assms
proof (cases rule: kt.alloc_cases)
  case full
  then show ?thesis by (simp add: ktable_alloc_def)
next
  case (slot i t')
  then show ?thesis by (auto simp: ktable_alloc_def)
qed

theorem ktable_alloc_least_free_witness:
  "let kt = DECLARE_KTABLE ''thread_table'' 0x10001000 96 32 in
   ktable_ok kt \<and> (if ktable_used kt = {..<ktable_cap kt} then ktable_alloc kt = Inr (None, kt)
         else \<exists>i kt'. ktable_alloc kt = Inr (Some (ktable_elem kt' i), kt') \<and>
                i < ktable_cap kt \<and> i \<notin> ktable_used kt \<and> (\<forall>j<i. j \<in> ktable_used kt) \<and>
                ktable_used kt' = insert i (ktable_used kt) \<and> ktable_ok kt')"
proof -
  have "ktable_ok (DECLARE_KTABLE ''thread_table'' 0x10001000 96 32)"
    by (simp add: ktable_ok_def DECLARE_KTABLE_def DECLARE_BITMAP_def ALIGNED_def BITMAP_ALIGN_def
        bm_room_def)
  then show ?thesis unfolding Let_def using ktable_alloc_least_free by blast
qed

text \<open>
  the element that \<open>ktable_alloc\<close> returned can be given back with \<open>ktable_free\<close>, after
  which exactly the elements allocated before the allocation are allocated.
\<close>

lemma ktable_alloc_free_roundtrip:
  assumes "ktable_ok kt" "ktable_alloc kt = Inr (Some p, kt1)"
  shows "\<exists>kt2. ktable_free kt1 p = Inr kt2 \<and> ktable_used kt2 = ktable_used kt \<and> ktable_ok kt2"
proof -
  from assms(2) obtain i where "ktable_alloc_slot kt = Inr (Some i, kt1)" "p = ktable_elem kt1 i"
    by (auto simp: ktable_alloc_def)
  with kt.alloc_then_free [OF assms(1)] show ?thesis by (auto simp: ktable_free_slot_def)
qed

lemma ktable_ok_declared [simp]:
  assumes "n < 2147483648" "sz \<noteq> 0" "unat data + n * unat sz < 4294967296"
  shows "ktable_ok (DECLARE_KTABLE name data sz n)"
proof -
  have "unat (of_nat n :: u32) = n" using assms(1) by (simp add: unat_of_nat32)
  then show ?thesis using assms DECLARE_BITMAP_room [of n]
    by (simp add: ktable_ok_def DECLARE_KTABLE_def)
qed

lemma ktable_used_declared [simp]:
  "n < 2147483648 \<Longrightarrow> ktable_used (DECLARE_KTABLE name data sz n) = {}"
  using DECLARE_BITMAP_room [of n] DECLARE_BITMAP_empty [of _ n]
  by (auto simp: ktable_used_def DECLARE_KTABLE_def unat_of_nat32)

lemma ktable_cap_declared [simp]:
  "n < 2147483648 \<Longrightarrow> ktable_cap (DECLARE_KTABLE name data sz n) = n"
  by (simp add: ktable_cap_def DECLARE_KTABLE_def unat_of_nat32)

lemma ktable_alloc_free_roundtrip_example:
  "\<exists>kt1 kt2. ktable_ok (DECLARE_KTABLE ''as_table'' 0x20000000 20 16) \<and>
     ktable_alloc (DECLARE_KTABLE ''as_table'' 0x20000000 20 16) = Inr (Some 0x20000000, kt1) \<and>
     ktable_free kt1 0x20000000 = Inr kt2 \<and> ktable_used kt2 = {}"
proof -
  let ?kt = "DECLARE_KTABLE ''as_table'' 0x20000000 20 16"
  have ok: "ktable_ok ?kt" by simp
  have a: "ktable_alloc ?kt = Inr (Some 0x20000000, ?kt\<lparr>bitmap := [1]\<rparr>)"
    by (simp add: ktable_alloc_def ktable_alloc_slot_def ktable_alloc_from.simps DECLARE_KTABLE_def
        DECLARE_BITMAP_def ALIGNED_def bitmap_macros bitmap_test_and_set_bit_def test_and_set_bit_def
        ktable_elem_def)
  from ktable_alloc_free_roundtrip [OF ok a] a ok show ?thesis by auto
qed

text \<open>
  when the number of elements is a multiple of 8, as in every table the kernel declares,
  \<open>ktable_init\<close> leaves a well-formed table with no element allocated.
\<close>

lemma ktable_init_empties:
  assumes "ktable_ok kt" "unat (kt_num kt) mod 8 = 0"
  shows "\<exists>kt'. ktable_init kt = Inr kt' \<and> ktable_ok kt' \<and> ktable_used kt' = {} \<and>
               ktable_cap kt' = ktable_cap kt"
proof -
  let ?n = "unat (kt_num kt div 8)"
  have n: "?n = unat (kt_num kt) div 8" by (simp add: unat_div)
  with assms have "?n \<le> 4 * length (bitmap kt)"
    by (auto simp: ktable_ok_def bm_room_def)
  from clear_bytes_spec [OF this] obtain bm where bm: "clear_bytes ?n (bitmap kt) = Inr bm"
    "length bm = length (bitmap kt)" "\<And>c. bm_has bm c \<longleftrightarrow> bm_has (bitmap kt) c \<and> ?n \<le> c div 8"
    by blast
  have "ktable_used (kt\<lparr>bitmap := bm\<rparr>) = {}"
    using assms(2) n by (auto simp: ktable_used_def bm(3))
  then show ?thesis using bm assms(1)
    by (auto simp: ktable_init_def ktable_ok_bitmap ktable_cap_def)
qed

lemma ktable_init_empties_example:
  "\<exists>kt'. ktable_init ((DECLARE_KTABLE ''fpage_table'' 0x20000000 20 256)\<lparr>bitmap := replicate 8 5\<rparr>) = Inr kt' \<and>
         ktable_ok kt' \<and> ktable_used kt' = {} \<and> ktable_cap kt' = 256"
proof -
  let ?kt = "(DECLARE_KTABLE ''fpage_table'' 0x20000000 20 256)\<lparr>bitmap := replicate 8 5\<rparr>"
  have "ktable_ok ?kt" by (simp add: ktable_ok_def DECLARE_KTABLE_def bm_room_def)
  moreover have "unat (kt_num ?kt) mod 8 = 0" by (simp add: DECLARE_KTABLE_def)
  ultimately show ?thesis using ktable_init_empties [of ?kt]
    by (simp add: DECLARE_KTABLE_def ktable_cap_def)
qed


end
