(* ===== verification/F9_Mempool.thy ===== *)
theory F9_Mempool
  imports F9_Ktable
begin

text \<open>
  Memory pools (\<^verbatim>\<open>include/memory.h\<close> and the first part of \<^verbatim>\<open>kernel/memory.c\<close>): the static
  memory map of the board, the search for the pool that holds a region, the rounding to the
  granularity of flexible pages, and the memory descriptors that \<open>memory_init\<close> publishes in the
  kernel interface page. The addresses that the linker script defines are fields of the record
  \<open>link_syms\<close>, a parameter of the model; the constants of the kernel configuration are those of
  \<^verbatim>\<open>board/discoveryf4/defconfig\<close>.
\<close>

section \<open>Flags, tags and the memory map\<close>

definition MP_KR :: u32 where "MP_KR = 0x0001"
definition MP_KW :: u32 where "MP_KW = 0x0002"
definition MP_KX :: u32 where "MP_KX = 0x0004"
definition MP_UR :: u32 where "MP_UR = 0x0010"
definition MP_UW :: u32 where "MP_UW = 0x0020"
definition MP_UX :: u32 where "MP_UX = 0x0040"
definition MP_NO_FPAGE :: u32 where "MP_NO_FPAGE = 0x0000"
definition MP_SRAM :: u32 where "MP_SRAM = 0x0100"
definition MP_AHB_RAM :: u32 where "MP_AHB_RAM = 0x0200"
definition MP_DEVICES :: u32 where "MP_DEVICES = 0x0400"
definition MP_MEMPOOL :: u32 where "MP_MEMPOOL = 0x0800"
definition MP_MAP_ALWAYS :: u32 where "MP_MAP_ALWAYS = 0x1000"
definition MP_FPAGE_MASK :: u32 where "MP_FPAGE_MASK = 0x0F00"
definition INVALID_FPAGE_REGION :: u32 where "INVALID_FPAGE_REGION = 0xffffffff"

lemmas mp_flags_defs = MP_KR_def MP_KW_def MP_KX_def MP_UR_def MP_UW_def MP_UX_def MP_NO_FPAGE_def
  MP_SRAM_def MP_AHB_RAM_def MP_DEVICES_def MP_MEMPOOL_def MP_MAP_ALWAYS_def MP_FPAGE_MASK_def
  INVALID_FPAGE_REGION_def

definition MP_USER_PERM :: "u32 \<Rightarrow> u32" where
  "MP_USER_PERM mpflags = drop_bit 4 (mpflags AND 0xF0)"

datatype mempool_tag =
  MPT_KERNEL_TEXT | MPT_KERNEL_DATA | MPT_USER_TEXT | MPT_USER_DATA | MPT_AVAILABLE | MPT_DEVICES
  | MPT_UNKNOWN

primrec mempool_tag_code :: "mempool_tag \<Rightarrow> u32" where
  "mempool_tag_code MPT_KERNEL_TEXT = 0"
| "mempool_tag_code MPT_KERNEL_DATA = 1"
| "mempool_tag_code MPT_USER_TEXT = 2"
| "mempool_tag_code MPT_USER_DATA = 3"
| "mempool_tag_code MPT_AVAILABLE = 4"
| "mempool_tag_code MPT_DEVICES = 5"
| "mempool_tag_code MPT_UNKNOWN = - 1"

record mempool_t =
  mp_name :: string
  mp_start :: memptr
  mp_end :: memptr
  mp_flags :: u32
  mp_tag :: mempool_tag

definition DECLARE_MEMPOOL :: "string \<Rightarrow> memptr \<Rightarrow> memptr \<Rightarrow> u32 \<Rightarrow> mempool_tag \<Rightarrow> mempool_t" where
  "DECLARE_MEMPOOL name start stop flags tag =
     \<lparr>mp_name = name, mp_start = start, mp_end = stop, mp_flags = flags, mp_tag = tag\<rparr>"

record link_syms =
  kernel_text_start :: memptr
  kernel_text_end :: memptr
  user_text_start :: memptr
  user_text_end :: memptr
  kip_start :: memptr
  kip_end :: memptr
  kernel_data_end :: memptr
  kernel_bss_start :: memptr
  kernel_bss_end :: memptr
  user_data_start :: memptr
  user_data_end :: memptr
  user_bss_start :: memptr
  user_bss_end :: memptr
  bitmap_start :: memptr
  bitmap_end :: memptr
  kernel_ahb_end :: memptr

definition memmap :: "link_syms \<Rightarrow> mempool_t list" where
  "memmap l =
    [DECLARE_MEMPOOL ''KTEXT'' (kernel_text_start l) (kernel_text_end l)
       (MP_KR OR MP_KX OR MP_NO_FPAGE) MPT_KERNEL_TEXT,
     DECLARE_MEMPOOL ''UTEXT'' (user_text_start l) (user_text_end l)
       (MP_UR OR MP_UX OR MP_MEMPOOL OR MP_MAP_ALWAYS) MPT_USER_TEXT,
     DECLARE_MEMPOOL ''KIP'' (kip_start l) (kip_end l)
       (MP_KR OR MP_KW OR MP_UR OR MP_SRAM) MPT_KERNEL_DATA,
     DECLARE_MEMPOOL ''KDATA'' (kip_end l) (kernel_data_end l)
       (MP_KR OR MP_KW OR MP_NO_FPAGE) MPT_KERNEL_DATA,
     DECLARE_MEMPOOL ''KBSS'' (kernel_bss_start l) (kernel_bss_end l)
       (MP_KR OR MP_KW OR MP_NO_FPAGE) MPT_KERNEL_DATA,
     DECLARE_MEMPOOL ''UDATA'' (user_data_start l) (user_data_end l)
       (MP_UR OR MP_UW OR MP_MEMPOOL OR MP_MAP_ALWAYS) MPT_USER_DATA,
     DECLARE_MEMPOOL ''UBSS'' (user_bss_start l) (user_bss_end l)
       (MP_UR OR MP_UW OR MP_MEMPOOL OR MP_MAP_ALWAYS) MPT_USER_DATA,
     DECLARE_MEMPOOL ''MEM0'' (user_bss_end l) 0x2001c000
       (MP_UR OR MP_UW OR MP_SRAM) MPT_AVAILABLE,
     DECLARE_MEMPOOL ''KBITMAP'' (bitmap_start l) (bitmap_end l)
       (MP_KR OR MP_KW OR MP_NO_FPAGE) MPT_KERNEL_DATA,
     DECLARE_MEMPOOL ''MEM1'' (kernel_ahb_end l) 0x10010000
       (MP_UR OR MP_UW OR MP_AHB_RAM) MPT_AVAILABLE,
     DECLARE_MEMPOOL ''APB1DEV'' 0x40000000 0x40007800
       (MP_UR OR MP_UW OR MP_DEVICES) MPT_DEVICES,
     DECLARE_MEMPOOL ''APB2_1DEV'' 0x40010000 0x40013400
       (MP_UR OR MP_UW OR MP_DEVICES) MPT_DEVICES,
     DECLARE_MEMPOOL ''APB2_2DEV'' 0x40014000 0x40014c00
       (MP_UR OR MP_UW OR MP_DEVICES) MPT_DEVICES,
     DECLARE_MEMPOOL ''AHB1_1DEV'' 0x40020000 0x40022400
       (MP_UR OR MP_UW OR MP_DEVICES) MPT_DEVICES,
     DECLARE_MEMPOOL ''AHB1_2DEV'' 0x40023c00 0x40040000
       (MP_UR OR MP_UW OR MP_DEVICES) MPT_DEVICES,
     DECLARE_MEMPOOL ''AHB2DEV'' 0x50000000 0x50061000
       (MP_UR OR MP_UW OR MP_DEVICES) MPT_DEVICES,
     DECLARE_MEMPOOL ''AHB3DEV'' 0x60000000 0xA0001000
       (MP_UR OR MP_UW OR MP_DEVICES) MPT_DEVICES]"

section \<open>Rounding and searching\<close>

definition CONFIG_SMALLEST_FPAGE_SHIFT :: nat where
  "CONFIG_SMALLEST_FPAGE_SHIFT = 8"

definition CONFIG_SMALLEST_FPAGE_SIZE :: u32 where
  "CONFIG_SMALLEST_FPAGE_SIZE = push_bit CONFIG_SMALLEST_FPAGE_SHIFT 1"

definition addr_align :: "memptr \<Rightarrow> u32 \<Rightarrow> memptr" where
  "addr_align addr sz = (addr + (sz - 1)) AND NOT (sz - 1)"

text \<open>Element \<open>i\<close> of the memory map, \<^verbatim>\<open>memmap[i]\<close> with a C \<^verbatim>\<open>int\<close> index.\<close>

definition memmap_at :: "mempool_t list \<Rightarrow> int \<Rightarrow> mempool_t outcome" where
  "memmap_at mm i = (if i < 0 then Inl OutOfBounds else array_get mm (nat i))"

definition mempool_align :: "mempool_t list \<Rightarrow> int \<Rightarrow> memptr \<Rightarrow> memptr outcome" where
  "mempool_align mm mpid addr =
     bindF (memmap_at mm mpid) (\<lambda>mp.
       if mp_flags mp AND MP_FPAGE_MASK \<noteq> 0
       then Inr (addr_align addr CONFIG_SMALLEST_FPAGE_SIZE)
       else Inr INVALID_FPAGE_REGION)"

function mempool_search_from :: "mempool_t list \<Rightarrow> memptr \<Rightarrow> u32 \<Rightarrow> nat \<Rightarrow> int" where
  "mempool_search_from mm base sz i =
     (if i < length mm
      then if mp_start (mm ! i) \<le> base \<and> mp_end (mm ! i) \<ge> base + sz then int i
           else mempool_search_from mm base sz (Suc i)
      else - 1)"
  by pat_completeness auto
termination
  by (relation "measure (\<lambda>(mm, base, sz, i). length mm - i)") auto

declare mempool_search_from.simps [simp del]

definition mempool_search :: "mempool_t list \<Rightarrow> memptr \<Rightarrow> u32 \<Rightarrow> int" where
  "mempool_search mm base sz = mempool_search_from mm base sz 0"

text \<open>
  The pointer \<open>memmap + mpid\<close> as an index; reading through it is \<open>mempool_deref\<close>.
\<close>

definition mempool_getbyid :: "int \<Rightarrow> int option" where
  "mempool_getbyid mpid = (if mpid = - 1 then None else Some mpid)"

definition mempool_deref :: "mempool_t list \<Rightarrow> int option \<Rightarrow> mempool_t outcome" where
  "mempool_deref mm p = (case p of None \<Rightarrow> Inl NullDeref | Some i \<Rightarrow> memmap_at mm i)"

section \<open>Memory descriptors of the kernel interface page\<close>

record kip_mem_desc_t =
  md_base :: u32
  md_size :: u32

text \<open>One turn of the loop of \<open>memory_init\<close> on pool \<open>i\<close>: the descriptors written so far and
  the next.\<close>

definition memory_init_desc :: "mempool_t \<Rightarrow> nat \<Rightarrow> kip_mem_desc_t list" where
  "memory_init_desc mp i =
     (if mp_tag mp \<in> {MPT_USER_DATA, MPT_USER_TEXT, MPT_DEVICES, MPT_AVAILABLE}
      then [\<lparr>md_base = addr_align (mp_start mp) CONFIG_SMALLEST_FPAGE_SIZE OR of_nat i,
             md_size = addr_align (mp_end mp - mp_start mp) CONFIG_SMALLEST_FPAGE_SIZE
                       OR mempool_tag_code (mp_tag mp)\<rparr>]
      else [])"

fun memory_init_descs :: "mempool_t list \<Rightarrow> nat \<Rightarrow> kip_mem_desc_t list" where
  "memory_init_descs [] i = []"
| "memory_init_descs (mp # mps) i = memory_init_desc mp i @ memory_init_descs mps (Suc i)"

section \<open>Rounding and search are correct\<close>

lemma and_not_mask8: "unat (w AND NOT 255 :: u32) = unat w div 256 * 256"
proof -
  have "w AND NOT (mask 8) = push_bit 8 (drop_bit 8 w)"
    by (rule bit_word_eqI) (auto simp: bit_simps)
  then have "w AND NOT 255 = push_bit 8 (drop_bit 8 w)" by (simp add: mask_eq_exp_minus_1)
  then have "unat (w AND NOT 255) = take_bit 32 (push_bit 8 (unat w div 256))"
    using unat_lt32 [of w]
    by (simp only: unsigned_push_bit_eq unsigned_drop_bit_eq) (simp add: drop_bit_eq_div take_bit_nat_eq_self)
  also have "\<dots> = unat w div 256 * 256"
    using unat_lt32 [of w] div_mult_mod_eq [of "unat w" 256]
    by (simp add: take_bit_eq_mod push_bit_eq_mult)
  finally show ?thesis .
qed

lemma addr_align_eq: "addr_align w CONFIG_SMALLEST_FPAGE_SIZE = (w + 255) AND NOT 255"
  by (simp add: addr_align_def CONFIG_SMALLEST_FPAGE_SIZE_def CONFIG_SMALLEST_FPAGE_SHIFT_def)

lemma unat_addr_align:
  assumes "unat w + 255 < 4294967296"
  shows "unat (addr_align w CONFIG_SMALLEST_FPAGE_SIZE) = (unat w + 255) div 256 * 256"
  using assms unat_add32 [of w 255] unfolding addr_align_eq and_not_mask8 by simp

lemma addr_align_fix:
  assumes "256 dvd unat w"
  shows "addr_align w CONFIG_SMALLEST_FPAGE_SIZE = w"
proof -
  have "unat w + 255 < 4294967296" using assms unat_lt32 [of w] by (elim dvdE) auto
  with assms show ?thesis by (intro word_unat_eq_iff [THEN iffD2]) (auto simp: unat_addr_align)
qed

lemma mempool_align_fix:
  assumes "memmap_at mm mpid = Inr mp" "mp_flags mp AND MP_FPAGE_MASK \<noteq> 0" "256 dvd unat w"
  shows "mempool_align mm mpid w = Inr w"
  using assms by (simp add: mempool_align_def addr_align_fix)

lemma mempool_search_from_spec:
  "mempool_search_from mm base sz i = r \<Longrightarrow>
     (r = - 1 \<and> (\<forall>j. i \<le> j \<longrightarrow> j < length mm \<longrightarrow> \<not> (mp_start (mm ! j) \<le> base \<and> base + sz \<le> mp_end (mm ! j)))) \<or>
     (\<exists>k. r = int k \<and> i \<le> k \<and> k < length mm \<and> mp_start (mm ! k) \<le> base \<and> base + sz \<le> mp_end (mm ! k) \<and>
          (\<forall>j. i \<le> j \<longrightarrow> j < k \<longrightarrow> \<not> (mp_start (mm ! j) \<le> base \<and> base + sz \<le> mp_end (mm ! j))))"
proof (induction mm base sz i arbitrary: r rule: mempool_search_from.induct)
  case (1 mm base sz i)
  let ?hit = "\<lambda>j. mp_start (mm ! j) \<le> base \<and> base + sz \<le> mp_end (mm ! j)"
  show ?case
  proof (cases "i < length mm \<and> \<not> ?hit i")
    case True
    then have "mempool_search_from mm base sz (Suc i) = r"
      using 1(2) by (subst (asm) mempool_search_from.simps) auto
    from 1(1) [OF _ _ this] True show ?thesis by (metis Suc_leD Suc_leI le_neq_implies_less)
  next
    case False
    then show ?thesis using 1(2) by (subst (asm) mempool_search_from.simps) (auto split: if_splits)
  qed
qed

text \<open>
  The pool found for a region is the first one of the memory map that contains it, and the
  search fails only when no pool contains it.
\<close>

lemma mempool_search_first:
  "(mempool_search mm base sz = - 1 \<and>
      (\<forall>mp\<in>set mm. \<not> (mp_start mp \<le> base \<and> base + sz \<le> mp_end mp))) \<or>
   (\<exists>k < length mm. mempool_search mm base sz = int k \<and>
      mp_start (mm ! k) \<le> base \<and> base + sz \<le> mp_end (mm ! k) \<and>
      (\<forall>j < k. \<not> (mp_start (mm ! j) \<le> base \<and> base + sz \<le> mp_end (mm ! j))))"
  using mempool_search_from_spec [OF refl, of mm base sz 0]
  by (auto simp: mempool_search_def in_set_conv_nth)

text \<open>A layout of the linker symbols, for concrete runs.\<close>

definition demo_link :: link_syms where
  "demo_link = \<lparr>kernel_text_start = 0x08000000, kernel_text_end = 0x08008000,
     user_text_start = 0x08008000, user_text_end = 0x0800A000,
     kip_start = 0x20000000, kip_end = 0x20000100, kernel_data_end = 0x20000400,
     kernel_bss_start = 0x20000400, kernel_bss_end = 0x20002000,
     user_data_start = 0x20002000, user_data_end = 0x20002400,
     user_bss_start = 0x20002400, user_bss_end = 0x20003000,
     bitmap_start = 0x10000000, bitmap_end = 0x10000100, kernel_ahb_end = 0x10002000\<rparr>"

lemma mempool_search_first_example:
  "mempool_search (memmap demo_link) 0x20003100 0x1300 = 7 \<and> mp_name (memmap demo_link ! 7) = ''MEM0'' \<and>
   mp_start (memmap demo_link ! 7) \<le> 0x20003100 \<and> 0x20004400 \<le> mp_end (memmap demo_link ! 7)"
proof -
  have e: "mempool_search (memmap demo_link) 0x20003100 0x1300 = 7" by code_simp
  with mempool_search_first [of "memmap demo_link" "0x20003100" "0x1300"]
  have "mp_start (memmap demo_link ! 7) \<le> 0x20003100 \<and> 0x20004400 \<le> mp_end (memmap demo_link ! 7)"
    by auto
  moreover have "mp_name (memmap demo_link ! 7) = ''MEM0''" by code_simp
  ultimately show ?thesis using e by blast
qed

end
