(* ===== verification/F9_Fpage.thy ===== *)
theory F9_Fpage
  imports F9_Mempool
begin

text \<open>
  Flexible pages and the chains they form (\<^verbatim>\<open>kernel/fpage.c\<close>, \<^verbatim>\<open>include/fpage.h\<close>). A
  page lies in a slot of the table \<open>fpage_table\<close>; the C pointers \<open>as_next\<close>, \<open>map_next\<close> and
  \<open>mpu_next\<close> are slot numbers. An address space is the head of a chain through \<open>as_next\<close>,
  kept in ascending order of base addresses.

  The memory state holds both tables, a log of the stores to device registers (newest
  first), and \<open>uninit\<close>: the truth values that reads of uninitialised local variables yield,
  in order, for the macro \<^verbatim>\<open>remove_fpage_from_list\<close> tests a variable it never sets. The walks
  over chains have as many steps as a table has slots, plus one; a walk that needs more has
  met a slot twice and goes round forever.
\<close>

section \<open>Pages, address spaces and the memory state\<close>

definition CONFIG_MAX_FPAGES :: nat where "CONFIG_MAX_FPAGES = 256"

definition CONFIG_MAX_ADRESS_SPACES :: nat where "CONFIG_MAX_ADRESS_SPACES = 16"

definition FPAGE_ALWAYS :: "6 word" where "FPAGE_ALWAYS = 1"
definition FPAGE_CLONE :: "6 word" where "FPAGE_CLONE = 2"
definition FPAGE_MAPPED :: "6 word" where "FPAGE_MAPPED = 4"

record fpage_t =
  as_next :: ptr
  map_next :: ptr
  mpu_next :: ptr
  fp_base :: u32
  fp_mpid :: "6 word"
  fp_flags :: "6 word"
  fp_shift :: u16
  fp_rwx :: "4 word"
  fp_used :: int

record as_t =
  as_spaceid :: u32
  as_first :: ptr
  mpu_first :: ptr
  mpu_stack_first :: ptr
  as_shared :: u32

record mem_t =
  fpage_table :: ktable
  fpages :: "nat \<Rightarrow> fpage_t"
  as_table :: ktable
  ases :: "nat \<Rightarrow> as_t"
  mmio :: "(u32 \<times> u32) list"
  uninit :: "bool list"

datatype map_action_t = MAP | GRANT | UNMAP

definition FPAGE_BASE :: "fpage_t \<Rightarrow> memptr" where
  "FPAGE_BASE fp = fp_base fp"

definition FPAGE_SIZE :: "fpage_t \<Rightarrow> u32" where
  "FPAGE_SIZE fp = push_bit (unat (fp_shift fp)) 1"

definition FPAGE_END :: "fpage_t \<Rightarrow> memptr" where
  "FPAGE_END fp = FPAGE_BASE fp + FPAGE_SIZE fp"

definition addr_in_fpage :: "memptr \<Rightarrow> fpage_t \<Rightarrow> bool \<Rightarrow> bool" where
  "addr_in_fpage addr fp incl_end \<longleftrightarrow>
     addr \<ge> FPAGE_BASE fp \<and> addr < FPAGE_END fp \<or> incl_end \<and> addr = FPAGE_END fp"

text \<open>Stores to one field of one page or address space.\<close>

definition upd_fpage :: "nat \<Rightarrow> (fpage_t \<Rightarrow> fpage_t) \<Rightarrow> mem_t \<Rightarrow> mem_t" where
  "upd_fpage i f m = m\<lparr>fpages := (fpages m)(i := f (fpages m i))\<rparr>"

definition upd_as :: "nat \<Rightarrow> (as_t \<Rightarrow> as_t) \<Rightarrow> mem_t \<Rightarrow> mem_t" where
  "upd_as a f m = m\<lparr>ases := (ases m)(a := f (ases m a))\<rparr>"

section \<open>Binary logarithm and creation of chains\<close>

text \<open>The loop \<^verbatim>\<open>while ((addr <<= 1) != 0) ++shift\<close>; the measure is the number of left shifts
  that turn the address into zero.\<close>

function fp_addr_log2_loop :: "u32 \<Rightarrow> nat \<Rightarrow> nat" where
  "fp_addr_log2_loop addr shift =
     (let addr' = push_bit 1 addr in
      if addr' \<noteq> 0 then fp_addr_log2_loop addr' (Suc shift) else shift)"
  by pat_completeness auto
termination
proof (relation "measure (\<lambda>(addr, shift). LEAST n. push_bit n addr = 0)", goal_cases)
  case (2 addr shift x)
  define k where "k = (LEAST n. push_bit n addr = 0)"
  have "push_bit 32 addr = 0" by (simp add: bit_eq_iff bit_simps)
  then have k0: "push_bit k addr = 0" unfolding k_def by (rule LeastI)
  with 2 obtain j where j: "k = Suc j" by (cases k) auto
  with k0 2 have "push_bit j x = 0" by simp
  then have "(LEAST n. push_bit n x = 0) \<le> j" by (rule Least_le)
  with j show ?case by (simp add: k_def [symmetric])
qed simp

declare fp_addr_log2_loop.simps [simp del]

definition fp_addr_log2 :: "memptr \<Rightarrow> int" where
  "fp_addr_log2 addr = 31 - int (fp_addr_log2_loop addr 0)"

definition fpages_init :: "mem_t \<Rightarrow> mem_t outcome" where
  "fpages_init m = bindF (ktable_init (fpage_table m)) (\<lambda>kt. Inr (m\<lparr>fpage_table := kt\<rparr>))"

definition create_fpage :: "mempool_t list \<Rightarrow> memptr \<Rightarrow> u32 \<Rightarrow> int \<Rightarrow> mem_t \<Rightarrow> (nat \<times> mem_t) outcome" where
  "create_fpage mm base shift mpid m =
     bindF (ktable_alloc_slot (fpage_table m)) (\<lambda>(s, kt).
     case s of
       None \<Rightarrow> Inl (Panic ''assert'')
     | Some i \<Rightarrow>
         bindF (mempool_deref mm (mempool_getbyid mpid)) (\<lambda>mp.
         Inr (i, upd_fpage i (\<lambda>f. f\<lparr>
                as_next := None,
                map_next := Some i,
                mpu_next := None,
                fp_mpid := word_of_int mpid,
                fp_flags := (if mp_flags mp AND MP_MAP_ALWAYS \<noteq> 0 then 0 OR FPAGE_ALWAYS else 0),
                fp_rwx := ucast (MP_USER_PERM (mp_flags mp)),
                fp_base := base,
                fp_shift := ucast shift\<rparr>) (m\<lparr>fpage_table := kt\<rparr>))))"

definition destroy_fpage :: "nat \<Rightarrow> mem_t \<Rightarrow> mem_t outcome" where
  "destroy_fpage fp m =
     bindF (ktable_free_slot (fpage_table m) fp) (\<lambda>kt. Inr (m\<lparr>fpage_table := kt\<rparr>))"

text \<open>The shift of the next page: the lesser of the two logarithms.\<close>

definition chain_shift :: "memptr \<Rightarrow> u32 \<Rightarrow> nat" where
  "chain_shift base sz =
     (let bshift = nat (fp_addr_log2 base);
          sshift = nat (fp_addr_log2 sz)
      in if push_bit bshift 1 > sz then sshift else bshift)"

subsection \<open>The logarithm is the number of trailing zeros\<close>

lemma fp_addr_log2_loop_lowest:
  assumes "bit addr n" "\<forall>j<n. \<not> bit addr j"
  shows "fp_addr_log2_loop addr s = s + (31 - n)"
  using assms
proof (induction addr s arbitrary: n rule: fp_addr_log2_loop.induct)
  case (1 addr s)
  from 1(2) have n: "n < 32" by (auto dest: bit_imp_le_length)
  show ?case
  proof (cases "n = 31")
    case True
    have "\<not> bit (push_bit 1 addr) k" for k using 1(3) True unfolding bit_push_bit_iff by auto
    then have "push_bit 1 addr = 0" by (intro bit_word_eqI) (metis bit_0_eq bot_apply bot_bool_def)
    then show ?thesis using True by (subst fp_addr_log2_loop.simps) (simp only: Let_def, simp)
  next
    case False
    with 1(2) n have b: "bit (push_bit 1 addr) (Suc n)" unfolding bit_push_bit_iff by simp
    then have nz: "push_bit 1 addr \<noteq> 0" by auto
    moreover have "\<forall>j<Suc n. \<not> bit (push_bit 1 addr) j" using 1(3) unfolding bit_push_bit_iff by auto
    ultimately have "fp_addr_log2_loop (push_bit 1 addr) (Suc s) = Suc s + (31 - Suc n)"
      using 1(1) b by blast
    then show ?thesis using nz n False by (subst fp_addr_log2_loop.simps) (simp only: Let_def, simp)
  qed
qed

lemma fp_addr_log2_zero: "fp_addr_log2 0 = 31"
  by (simp add: fp_addr_log2_def fp_addr_log2_loop.simps)

lemma lowest_bit:
  assumes "(w :: u32) \<noteq> 0"
  obtains n where "n < 32" "bit w n" "\<forall>j<n. \<not> bit w j"
proof -
  from assms obtain i where "bit w i" by (auto simp: bit_eq_iff)
  then have b: "bit w (LEAST n. bit w n)" by (rule LeastI)
  have "(LEAST n. bit w n) < 32" using bit_imp_le_length [OF b] by simp
  moreover have "\<forall>j<(LEAST n. bit w n). \<not> bit w j" using not_less_Least by blast
  ultimately show ?thesis using that b by blast
qed

lemma low_zeros_dvd: "\<forall>j<n. \<not> bit (w :: u32) j \<Longrightarrow> 2 ^ n dvd unat w"
proof -
  assume "\<forall>j<n. \<not> bit w j"
  then have "take_bit n w = 0" by (auto simp: bit_eq_iff bit_take_bit_iff)
  then have "unat (take_bit n w) = 0" by simp
  then have "take_bit n (unat w) = 0" by (simp add: unsigned_take_bit_eq)
  then show ?thesis by (simp add: take_bit_eq_0_iff)
qed

text \<open>On an address other than zero the result is the position of the lowest bit that is set.\<close>

lemma fp_addr_log2_cases:
  assumes "w \<noteq> 0"
  obtains n where "fp_addr_log2 w = int n" "n < 32" "bit w n" "2 ^ n dvd unat w" "2 ^ n \<le> unat w"
proof -
  from assms obtain n where n: "n < 32" "bit w n" "\<forall>j<n. \<not> bit w j" by (rule lowest_bit)
  have d: "2 ^ n dvd unat w" using n(3) by (rule low_zeros_dvd)
  moreover have "0 < unat w" using assms by (simp add: unat_gt_0)
  ultimately have "2 ^ n \<le> unat w" by (rule dvd_imp_le)
  moreover have "fp_addr_log2 w = int n"
    using n fp_addr_log2_loop_lowest [OF n(2,3), of 0] by (simp add: fp_addr_log2_def)
  ultimately show ?thesis using that n d by blast
qed

lemma unat_exp32: "n < 32 \<Longrightarrow> unat (push_bit n 1 :: u32) = 2 ^ n"
  using power_strict_increasing [of n 32 "2 :: nat"]
  by (subst unsigned_push_bit_eq) (simp add: take_bit_eq_mod)

text \<open>
  A page starts at a multiple of its size and is not longer than what is left to cover.
\<close>

lemma chain_shift_ok:
  assumes "sz \<noteq> 0"
  shows "chain_shift base sz < 32" "2 ^ chain_shift base sz dvd unat base"
    "2 ^ chain_shift base sz \<le> unat sz"
proof -
  obtain n where n: "fp_addr_log2 sz = int n" "n < 32" "2 ^ n dvd unat sz" "2 ^ n \<le> unat sz"
    using fp_addr_log2_cases [OF assms] by metis
  obtain b where b: "fp_addr_log2 base = int b" "b < 32" "2 ^ b dvd unat base"
  proof (cases "base = 0")
    case True
    then show ?thesis using that [of 31] by (simp add: fp_addr_log2_zero)
  next
    case False
    then show ?thesis using that fp_addr_log2_cases by metis
  qed
  have gt: "push_bit b 1 > sz \<longleftrightarrow> unat sz < 2 ^ b"
    using b(2) unfolding word_less_nat_alt by (subst unat_exp32) simp_all
  have "2 ^ n dvd unat base" if "unat sz < 2 ^ b"
  proof -
    from that n(4) have "(2 :: nat) ^ n < 2 ^ b" by (rule order.strict_trans1 [rotated])
    then have "n < b" by (rule power_less_imp_less_exp [rotated]) simp
    then have "(2 :: nat) ^ n dvd 2 ^ b" by (simp add: le_imp_power_dvd)
    then show ?thesis using b(3) dvd_trans by blast
  qed
  then show "chain_shift base sz < 32" "2 ^ chain_shift base sz dvd unat base"
    "2 ^ chain_shift base sz \<le> unat sz"
    using n b unfolding chain_shift_def gt Let_def by (auto simp: gt simp del: push_bit_of_1)
qed

lemma chain_shift_decreases:
  assumes "sz \<noteq> 0"
  shows "unat (sz - push_bit (chain_shift base sz) 1) = unat sz - 2 ^ chain_shift base sz"
    "unat (sz - push_bit (chain_shift base sz) 1) < unat sz"
proof -
  let ?s = "chain_shift base sz"
  note c = chain_shift_ok [OF assms, of base]
  have e: "unat (push_bit ?s 1 :: u32) = 2 ^ ?s" using c(1) by (rule unat_exp32)
  show *: "unat (sz - push_bit ?s 1) = unat sz - 2 ^ ?s"
    using unat_sub32 [of "push_bit ?s 1" sz] c(3) unfolding e by blast
  have "0 < (2 :: nat) ^ ?s" by simp
  then show "unat (sz - push_bit ?s 1) < unat sz" using c(3) unfolding * by linarith
qed

function create_fpage_chain_loop ::
  "mempool_t list \<Rightarrow> int \<Rightarrow> ptr \<Rightarrow> memptr \<Rightarrow> u32 \<Rightarrow> ptr \<Rightarrow> ptr \<Rightarrow> mem_t \<Rightarrow> (ptr \<times> ptr \<times> mem_t) outcome" where
  "create_fpage_chain_loop mm mpid fpage base sz pfirst plast m =
     (if sz = 0 then Inr (pfirst, plast, m)
      else let shift = chain_shift base sz in
        bindF (create_fpage mm base (of_nat shift) mpid m) (\<lambda>(i, m1).
          if pfirst = None
          then create_fpage_chain_loop mm mpid (Some i) (base + push_bit shift 1) (sz - push_bit shift 1)
                 (Some i) (Some i) m1
          else bindF (deref fpage) (\<lambda>f.
                 create_fpage_chain_loop mm mpid (Some i) (base + push_bit shift 1)
                   (sz - push_bit shift 1) pfirst (Some i)
                   (upd_fpage f (as_next_update (\<lambda>_. Some i)) m1))))"
  by pat_completeness auto
termination
  by (relation "measure (\<lambda>(mm, mpid, fpage, base, sz, pfirst, plast, m). unat sz)")
     (auto intro: chain_shift_decreases simp del: push_bit_of_1)

declare create_fpage_chain_loop.simps [simp del]

definition create_fpage_chain ::
  "mempool_t list \<Rightarrow> memptr \<Rightarrow> u32 \<Rightarrow> int \<Rightarrow> ptr \<Rightarrow> ptr \<Rightarrow> mem_t \<Rightarrow> (ptr \<times> ptr \<times> mem_t) outcome" where
  "create_fpage_chain mm base sz mpid pfirst plast m =
     create_fpage_chain_loop mm mpid None base sz pfirst plast m"

section \<open>The pages of a region\<close>

text \<open>What \<open>create_fpage_chain\<close> lays over a region, as a list of base addresses and shifts.\<close>

function fpage_tiling :: "memptr \<Rightarrow> u32 \<Rightarrow> (memptr \<times> nat) list" where
  "fpage_tiling base sz =
     (if sz = 0 then []
      else let shift = chain_shift base sz in
        (base, shift) # fpage_tiling (base + push_bit shift 1) (sz - push_bit shift 1))"
  by pat_completeness auto
termination
  by (relation "measure (\<lambda>(base, sz). unat sz)")
     (auto intro: chain_shift_decreases simp del: push_bit_of_1)

declare fpage_tiling.simps [simp del]

text \<open>
  \<open>tiled a ts b\<close>: the pages \<open>ts\<close> follow each other without gap or overlap from \<open>a\<close> to \<open>b\<close>,
  each at a multiple of its own size.
\<close>

fun tiled :: "nat \<Rightarrow> (memptr \<times> nat) list \<Rightarrow> nat \<Rightarrow> bool" where
  "tiled a [] b \<longleftrightarrow> a = b"
| "tiled a ((p, s) # ts) b \<longleftrightarrow> unat p = a \<and> s < 32 \<and> 2 ^ s dvd a \<and> tiled (a + 2 ^ s) ts b"

lemma tiled_append: "tiled a (xs @ ys) c \<longleftrightarrow> (\<exists>b. tiled a xs b \<and> tiled b ys c)"
  by (induction a xs c rule: tiled.induct) auto

lemma tiled_mono: "tiled a ts b \<Longrightarrow> a \<le> b"
  by (induction a ts b rule: tiled.induct) auto

lemma tiled_covers: "tiled a ts b \<Longrightarrow> (\<Union>(p, s)\<in>set ts. {unat p..<unat p + 2 ^ s}) = {a..<b}"
proof (induction a ts b rule: tiled.induct)
  case (2 a p s ts b)
  then have "(\<Union>(p, s)\<in>set ts. {unat p..<unat p + 2 ^ s}) = {a + 2 ^ s..<b}" "a + 2 ^ s \<le> b"
    using tiled_mono by auto
  with 2 show ?case by auto
qed auto

lemma fpage_tiling_tiled:
  "unat base + unat sz \<le> 4294967296 \<Longrightarrow> tiled (unat base) (fpage_tiling base sz) (unat base + unat sz)"
proof (induction base sz rule: fpage_tiling.induct)
  case (1 base sz)
  show ?case
  proof (cases "sz = 0")
    case True
    then show ?thesis by (simp add: fpage_tiling.simps)
  next
    case False
    define s where "s = chain_shift base sz"
    define b' sz' where "b' = base + push_bit s 1" and "sz' = sz - push_bit s 1"
    note c = chain_shift_ok [OF False, of base, folded s_def]
    have e: "unat (push_bit s 1 :: u32) = 2 ^ s" using c(1) by (rule unat_exp32)
    have u: "unat sz' = unat sz - 2 ^ s"
      using chain_shift_decreases [OF False, of base] by (simp only: s_def sz'_def)
    have step: "fpage_tiling base sz = (base, s) # fpage_tiling b' sz'"
      using False by (subst fpage_tiling.simps) (simp only: s_def b'_def sz'_def Let_def if_False)
    have "tiled (unat base + 2 ^ s) (fpage_tiling b' sz') (unat base + unat sz)"
    proof (cases "sz' = 0")
      case True
      then show ?thesis using u c(3) by (simp add: fpage_tiling.simps)
    next
      case False
      then have "0 < unat sz'" by (simp add: unat_gt_0)
      then have "unat base + 2 ^ s < 4294967296" using u 1(2) by linarith
      then have "unat b' = unat base + 2 ^ s" using unat_add32 [of base "push_bit s 1"]
        unfolding b'_def e by blast
      then show ?thesis using 1(1) [OF \<open>sz \<noteq> 0\<close>, of s] u 1(2) c(3)
        unfolding s_def b'_def sz'_def by (simp del: push_bit_of_1)
    qed
    then show ?thesis unfolding step using c by simp
  qed
qed

section \<open>Chains of an address space\<close>

definition WALK_FUEL :: nat where "WALK_FUEL = Suc CONFIG_MAX_FPAGES"

text \<open>The search for the place of a chain: the page after which it goes, with the link out of
  the chain already set when a page follows.\<close>

fun insert_fpage_walk :: "nat \<Rightarrow> nat \<Rightarrow> nat \<Rightarrow> mem_t \<Rightarrow> (nat \<times> mem_t) outcome" where
  "insert_fpage_walk 0 lst fp m = Inl Diverges"
| "insert_fpage_walk (Suc n) lst fp m =
     (case as_next (fpages m fp) of
        None \<Rightarrow> Inr (fp, m)
      | Some q \<Rightarrow>
          if FPAGE_BASE (fpages m lst) < FPAGE_BASE (fpages m q)
          then Inr (fp, upd_fpage lst (as_next_update (\<lambda>_. Some q)) m)
          else insert_fpage_walk n lst q m)"

definition insert_fpage_chain_to_as :: "nat \<Rightarrow> ptr \<Rightarrow> ptr \<Rightarrow> mem_t \<Rightarrow> mem_t outcome" where
  "insert_fpage_chain_to_as a first lst m =
     (case as_first (ases m a) of
        None \<Rightarrow> Inr (upd_as a (as_first_update (\<lambda>_. first)) m)
      | Some fp \<Rightarrow>
          bindF (deref lst) (\<lambda>l.
          if fp_base (fpages m l) < fp_base (fpages m fp)
          then Inr (upd_as a (as_first_update (\<lambda>_. first))
                     (upd_fpage l (as_next_update (\<lambda>_. as_first (ases m a))) m))
          else bindF (insert_fpage_walk WALK_FUEL l fp m) (\<lambda>(fp', m1).
                 Inr (upd_fpage fp' (as_next_update (\<lambda>_. first)) m1))))"

definition insert_fpage_to_as :: "nat \<Rightarrow> nat \<Rightarrow> mem_t \<Rightarrow> mem_t outcome" where
  "insert_fpage_to_as a fp m = insert_fpage_chain_to_as a (Some fp) (Some fp) m"

text \<open>
  \<^verbatim>\<open>remove_fpage_from_list\<close> for either kind of link: \<open>nx\<close> are the links, \<open>e\<close> is the value that
  the local variable \<^verbatim>\<open>end\<close> happens to hold.
\<close>

fun remove_fpage_walk :: "nat \<Rightarrow> (nat \<Rightarrow> ptr) \<Rightarrow> nat \<Rightarrow> bool \<Rightarrow> ptr \<Rightarrow> nat outcome" where
  "remove_fpage_walk 0 nx fp e fpprev = Inl Diverges"
| "remove_fpage_walk (Suc n) nx fp e fpprev =
     (if e then deref fpprev
      else bindF (deref fpprev) (\<lambda>q.
             if nx q = Some fp then Inr q
             else remove_fpage_walk n nx fp (nx q = None) (nx q)))"

definition remove_fpage_from_list ::
  "(nat \<Rightarrow> ptr) \<Rightarrow> ptr \<Rightarrow> nat \<Rightarrow> bool \<Rightarrow> (ptr \<times> (nat \<Rightarrow> ptr)) outcome" where
  "remove_fpage_from_list nx first fp e =
     (if first = Some fp then Inr (nx fp, nx)
      else bindF (remove_fpage_walk WALK_FUEL nx fp e first) (\<lambda>q. Inr (first, nx(q := nx fp))))"

definition pop_uninit :: "mem_t \<Rightarrow> bool \<times> mem_t" where
  "pop_uninit m = (case uninit m of [] \<Rightarrow> (False, m) | b # bs \<Rightarrow> (b, m\<lparr>uninit := bs\<rparr>))"

definition as_nexts :: "mem_t \<Rightarrow> nat \<Rightarrow> ptr" where
  "as_nexts m i = as_next (fpages m i)"

definition mpu_nexts :: "mem_t \<Rightarrow> nat \<Rightarrow> ptr" where
  "mpu_nexts m i = mpu_next (fpages m i)"

definition set_as_nexts :: "(nat \<Rightarrow> ptr) \<Rightarrow> mem_t \<Rightarrow> mem_t" where
  "set_as_nexts nx m = m\<lparr>fpages := (\<lambda>i. (fpages m i)\<lparr>as_next := nx i\<rparr>)\<rparr>"

definition set_mpu_nexts :: "(nat \<Rightarrow> ptr) \<Rightarrow> mem_t \<Rightarrow> mem_t" where
  "set_mpu_nexts nx m = m\<lparr>fpages := (\<lambda>i. (fpages m i)\<lparr>mpu_next := nx i\<rparr>)\<rparr>"

definition remove_fpage_from_as :: "nat \<Rightarrow> nat \<Rightarrow> mem_t \<Rightarrow> mem_t outcome" where
  "remove_fpage_from_as a fp m =
     (let (e1, m) = pop_uninit m in
      bindF (remove_fpage_from_list (as_nexts m) (as_first (ases m a)) fp e1) (\<lambda>(f, nx).
      let m = upd_as a (as_first_update (\<lambda>_. f)) (set_as_nexts nx m);
          (e2, m) = pop_uninit m in
      bindF (remove_fpage_from_list (mpu_nexts m) (mpu_first (ases m a)) fp e2) (\<lambda>(f, nx).
      Inr (upd_as a (mpu_first_update (\<lambda>_. f)) (set_mpu_nexts nx m)))))"

definition split_fpage ::
  "mempool_t list \<Rightarrow> ptr \<Rightarrow> ptr \<Rightarrow> memptr \<Rightarrow> int \<Rightarrow> mem_t \<Rightarrow> (ptr \<times> mem_t) outcome" where
  "split_fpage mm asp fpage split rl m =
     bindF (deref fpage) (\<lambda>fp.
     let base = fp_base (fpages m fp);
         lim = base + push_bit (unat (fp_shift (fpages m fp))) 1;
         mpid = uint (fp_mpid (fpages m fp)) in
     bindF (mempool_align mm mpid split) (\<lambda>split.
     case asp of
       None \<Rightarrow> Inr (None, m)
     | Some a \<Rightarrow>
         if split = base \<or> split = lim then Inr (Some fp, m)
         else if map_next (fpages m fp) \<noteq> Some fp then Inr (None, m)
         else
           bindF (create_fpage_chain mm base (split - base) mpid None None m) (\<lambda>(lfirst, llast, m).
           bindF (create_fpage_chain mm split (lim - split) mpid None None m) (\<lambda>(rfirst, rlast, m).
           bindF (remove_fpage_from_as a fp m) (\<lambda>m.
           bindF (ktable_free_slot (fpage_table m) fp) (\<lambda>kt.
           bindF (insert_fpage_chain_to_as a lfirst llast (m\<lparr>fpage_table := kt\<rparr>)) (\<lambda>m.
           bindF (insert_fpage_chain_to_as a rfirst rlast m) (\<lambda>m.
           Inr (if rl = 0 then llast else rfirst, m)))))))))"

section \<open>Filling an address space\<close>

text \<open>The variable \<open>fp\<close> of \<open>assign_fpages_ext\<close> is the address of a link: the head of the address
  space or the link of a page.\<close>

datatype fplink = AtFirst nat | AtNext nat

primrec read_link :: "mem_t \<Rightarrow> fplink \<Rightarrow> ptr" where
  "read_link m (AtFirst a) = as_first (ases m a)"
| "read_link m (AtNext i) = as_next (fpages m i)"

primrec write_link :: "fplink \<Rightarrow> ptr \<Rightarrow> mem_t \<Rightarrow> mem_t" where
  "write_link (AtFirst a) p m = upd_as a (as_first_update (\<lambda>_. p)) m"
| "write_link (AtNext i) p m = upd_fpage i (as_next_update (\<lambda>_. p)) m"

definition create_aligned_chain ::
  "mempool_t list \<Rightarrow> int \<Rightarrow> memptr \<Rightarrow> u32 \<Rightarrow> ptr \<Rightarrow> ptr \<Rightarrow> mem_t \<Rightarrow> (ptr \<times> ptr \<times> mem_t) outcome" where
  "create_aligned_chain mm mpid base sz pfirst plast m =
     bindF (mempool_align mm mpid base) (\<lambda>b.
     bindF (mempool_align mm mpid sz) (\<lambda>s.
     create_fpage_chain mm b s mpid pfirst plast m))"

fun assign_fpages_loop ::
  "nat \<Rightarrow> mempool_t list \<Rightarrow> int \<Rightarrow> memptr \<Rightarrow> fplink \<Rightarrow> memptr \<Rightarrow> ptr \<Rightarrow> ptr \<Rightarrow> mem_t
    \<Rightarrow> (fplink \<times> memptr \<times> ptr \<times> ptr \<times> mem_t) outcome" where
  "assign_fpages_loop 0 mm mpid lim fp base pfirst plast m = Inl Diverges"
| "assign_fpages_loop (Suc n) mm mpid lim fp base pfirst plast m =
     (case read_link m fp of
        None \<Rightarrow> Inr (fp, base, pfirst, plast, m)
      | Some q \<Rightarrow>
          if \<not> base < lim then Inr (fp, base, pfirst, plast, m)
          else if base < FPAGE_BASE (fpages m q)
          then let sz = (if lim < FPAGE_BASE (fpages m q) then lim else FPAGE_BASE (fpages m q)) - base in
               bindF (create_aligned_chain mm mpid base sz None None m) (\<lambda>(first, lst, m).
               bindF (deref lst) (\<lambda>l.
               let m = write_link fp first (upd_fpage l (as_next_update (\<lambda>_. Some q)) m) in
               assign_fpages_loop n mm mpid lim (AtNext q) (FPAGE_END (fpages m q))
                 (if pfirst = None then first else pfirst) lst m))
          else if base < FPAGE_END (fpages m q)
          then assign_fpages_loop n mm mpid lim (AtNext q) (FPAGE_END (fpages m q))
                 (if pfirst = None then Some q else pfirst) (Some q) m
          else assign_fpages_loop n mm mpid lim (AtNext q) base pfirst plast m)"

definition assign_fpages_ext ::
  "mempool_t list \<Rightarrow> int \<Rightarrow> ptr \<Rightarrow> memptr \<Rightarrow> u32 \<Rightarrow> ptr \<Rightarrow> ptr \<Rightarrow> mem_t
    \<Rightarrow> (int \<times> ptr \<times> ptr \<times> mem_t) outcome" where
  "assign_fpages_ext mm mpid asp base sz pfirst plast m =
     (if sz \<le> 0 then Inr (- 1, pfirst, plast, m)
      else let mpid = (if mpid = - 1 then mempool_search mm base sz else mpid) in
      if mpid = - 1 then Inr (- 1, pfirst, plast, m)
      else let lim = base + sz in
      case asp of
        Some a \<Rightarrow>
          bindF (assign_fpages_loop WALK_FUEL mm mpid lim (AtFirst a) base pfirst plast m)
            (\<lambda>(fp, base, pfirst, plast, m).
             if base < lim
             then bindF (create_aligned_chain mm mpid base (lim - base) None None m)
                    (\<lambda>(first, lst, m).
                     Inr (0, if pfirst = None then first else pfirst, lst, write_link fp first m))
             else Inr (0, pfirst, plast, m))
      | None \<Rightarrow>
          bindF (create_aligned_chain mm mpid base sz pfirst plast m) (\<lambda>(pfirst, plast, m).
          Inr (0, pfirst, plast, m)))"

definition assign_fpages :: "mempool_t list \<Rightarrow> ptr \<Rightarrow> memptr \<Rightarrow> u32 \<Rightarrow> mem_t \<Rightarrow> (int \<times> mem_t) outcome" where
  "assign_fpages mm asp base sz m =
     bindF (assign_fpages_ext mm (- 1) asp base sz None None m) (\<lambda>(r, _, _, m). Inr (r, m))"

section \<open>Mapping and unmapping\<close>

definition map_fpage :: "nat \<Rightarrow> ptr \<Rightarrow> map_action_t \<Rightarrow> mem_t \<Rightarrow> (int \<times> mem_t) outcome" where
  "map_fpage dst fpage action m =
     bindF (ktable_alloc_slot (fpage_table m)) (\<lambda>(s, kt).
     bindF (deref s) (\<lambda>fpmap.
     let m = upd_fpage fpmap (\<lambda>f. f\<lparr>as_next := None, mpu_next := None\<rparr>) (m\<lparr>fpage_table := kt\<rparr>) in
     bindF (deref fpage) (\<lambda>fp.
     let src = fpages m fp;
         m = upd_fpage fpmap (\<lambda>f. f\<lparr>fp_base := fp_base src, fp_mpid := fp_mpid src,
               fp_flags := fp_flags src, fp_shift := fp_shift src, fp_rwx := fp_rwx src\<rparr>) m;
         m = (if action = MAP
              then upd_fpage fp (\<lambda>f. f\<lparr>fp_flags := fp_flags f OR FPAGE_MAPPED\<rparr>) m else m);
         m = upd_fpage fpmap (fp_flags_update (\<lambda>_. FPAGE_CLONE)) m;
         m = upd_fpage fpmap (map_next_update (\<lambda>_. map_next (fpages m fp))) m;
         m = upd_fpage fp (map_next_update (\<lambda>_. Some fpmap)) m in
     bindF (insert_fpage_to_as dst fpmap m) (\<lambda>m. Inr (0, m)))))"

text \<open>The walk round the mapping ring to the page before \<open>fp\<close>.\<close>

fun map_ring_prev :: "nat \<Rightarrow> mem_t \<Rightarrow> nat \<Rightarrow> nat \<Rightarrow> nat outcome" where
  "map_ring_prev 0 m fp fpprev = Inl Diverges"
| "map_ring_prev (Suc n) m fp fpprev =
     (if map_next (fpages m fpprev) = Some fp then Inr fpprev
      else bindF (deref (map_next (fpages m fpprev))) (map_ring_prev n m fp))"

definition unmap_fpage :: "nat \<Rightarrow> nat \<Rightarrow> mem_t \<Rightarrow> (int \<times> mem_t) outcome" where
  "unmap_fpage a fp m =
     (if fp_flags (fpages m fp) AND FPAGE_CLONE = 0 then Inr (- 1, m)
      else bindF (map_ring_prev WALK_FUEL m fp fp) (\<lambda>fpprev.
        let m = upd_fpage fpprev (\<lambda>f. f\<lparr>fp_flags := fp_flags f AND NOT FPAGE_MAPPED\<rparr>) m;
            m = upd_fpage fpprev (map_next_update (\<lambda>_. map_next (fpages m fp))) m in
        bindF (remove_fpage_from_as a fp m) (\<lambda>m.
        bindF (ktable_free_slot (fpage_table m) fp) (\<lambda>kt.
        Inr (0, m\<lparr>fpage_table := kt\<rparr>)))))"

end
