(* ===== verification/F9_Fpage_Spec.thy ===== *)
theory F9_Fpage_Spec
  imports F9_Fpage
begin

text \<open>
  What the operations on flexible pages do to the chains: creation of the chain over a region,
  insertion of a chain into an address space, removal of a page, and the splitting of a page.
\<close>

section \<open>Creation of a chain\<close>

definition page_tile :: "fpage_t \<Rightarrow> memptr \<times> nat" where
  "page_tile f = (fp_base f, unat (fp_shift f))"

text \<open>A page as \<open>create_fpage\<close> leaves it in slot \<open>i\<close>, apart from its position and its link.\<close>

definition fresh_page :: "mempool_t \<Rightarrow> int \<Rightarrow> nat \<Rightarrow> fpage_t \<Rightarrow> bool" where
  "fresh_page mp mpid i f \<longleftrightarrow>
     map_next f = Some i \<and> mpu_next f = None \<and> fp_mpid f = word_of_int mpid \<and>
     fp_rwx f = ucast (MP_USER_PERM (mp_flags mp)) \<and>
     fp_flags f = (if mp_flags mp AND MP_MAP_ALWAYS \<noteq> 0 then FPAGE_ALWAYS else 0)"

text \<open>From \<open>m\<close> to \<open>m'\<close> the free slots \<open>xs\<close> were taken for fresh pages at the tiles \<open>ts\<close>.\<close>

definition made_pages ::
  "mempool_t \<Rightarrow> int \<Rightarrow> nat list \<Rightarrow> (memptr \<times> nat) list \<Rightarrow> mem_t \<Rightarrow> mem_t \<Rightarrow> bool" where
  "made_pages mp mpid xs ts m m' \<longleftrightarrow>
     ktable_ok (fpage_table m') \<and> ktable_cap (fpage_table m') = ktable_cap (fpage_table m) \<and>
     ktable_used (fpage_table m') = ktable_used (fpage_table m) \<union> set xs \<and>
     set xs \<inter> ktable_used (fpage_table m) = {} \<and> distinct xs \<and>
     map (\<lambda>i. page_tile (fpages m' i)) xs = ts \<and>
     (\<forall>i\<in>set xs. fresh_page mp mpid i (fpages m' i)) \<and>
     as_table m' = as_table m \<and> ases m' = ases m \<and> mmio m' = mmio m \<and> uninit m' = uninit m"

lemma mempool_deref_getbyid:
  "mpid \<noteq> - 1 \<Longrightarrow> mempool_deref mm (mempool_getbyid mpid) = memmap_at mm mpid"
  by (simp add: mempool_deref_def mempool_getbyid_def)

lemma create_fpage_spec:
  assumes "memmap_at mm mpid = Inr mp" "mpid \<noteq> - 1" "ktable_ok (fpage_table m)" "s < 32"
    "card (ktable_used (fpage_table m)) < ktable_cap (fpage_table m)"
  obtains i m' where "create_fpage mm base (of_nat s) mpid m = Inr (i, m')"
    "made_pages mp mpid [i] [(base, s)] m m'" "as_next (fpages m' i) = None"
    "\<And>j. j \<noteq> i \<Longrightarrow> fpages m' j = fpages m j"
    "card (ktable_used (fpage_table m')) = Suc (card (ktable_used (fpage_table m)))"
proof -
  from assms obtain i kt where k: "ktable_alloc_slot (fpage_table m) = Inr (Some i, kt)"
    "i \<notin> ktable_used (fpage_table m)" "ktable_used kt = insert i (ktable_used (fpage_table m))"
    "ktable_ok kt" "ktable_cap kt = ktable_cap (fpage_table m)"
    "card (ktable_used kt) = Suc (card (ktable_used (fpage_table m)))"
    using kt.alloc_room by metis
  have "unat (of_nat s :: u32) = s" using assms(4) by (simp add: unat_of_nat32)
  then have "unat (ucast (of_nat s :: u32) :: u16) = s"
    using assms(4) by (simp add: unsigned_ucast_eq take_bit_nat_eq_self)
  then show ?thesis using that k assms(1,2)
    by (auto simp: create_fpage_def mempool_deref_getbyid made_pages_def upd_fpage_def
        fresh_page_def page_tile_def)
qed

text \<open>Making pages in two stages, with a link of an older page set in between.\<close>

lemma made_pages_Cons:
  assumes "made_pages mp mpid [i] [t] m m1" "made_pages mp mpid xs ts m1' m'"
    "m1' = m1\<lparr>fpages := F\<rparr>" "fpages m' i = (fpages m1 i)\<lparr>as_next := q\<rparr>"
  shows "made_pages mp mpid (i # xs) (t # ts) m m'"
  using assms by (auto simp: made_pages_def fresh_page_def page_tile_def)

lemma create_fpage_chain_loop_spec:
  assumes mp: "memmap_at mm mpid = Inr mp" "mpid \<noteq> - 1"
  shows "ktable_ok (fpage_table m) \<Longrightarrow> p \<in> ktable_used (fpage_table m) \<Longrightarrow>
    card (ktable_used (fpage_table m)) + length (fpage_tiling base sz) \<le> ktable_cap (fpage_table m) \<Longrightarrow>
    \<exists>xs m'. create_fpage_chain_loop mm mpid (Some p) base sz (Some f) (Some p) m =
              Inr (Some f, Some (last (p # xs)), m') \<and>
            made_pages mp mpid xs (fpage_tiling base sz) m m' \<and>
            lseg (as_nexts m') (hd_opt xs) xs None \<and>
            fpages m' p = (fpages m p)\<lparr>as_next := if xs = [] then as_next (fpages m p) else hd_opt xs\<rparr> \<and>
            (\<forall>i. i \<notin> set xs \<longrightarrow> i \<noteq> p \<longrightarrow> fpages m' i = fpages m i)"
proof (induction base sz arbitrary: p m rule: fpage_tiling.induct)
  case (1 base sz)
  show ?case
  proof (cases "sz = 0")
    case True
    then show ?thesis using 1(2)
      by (intro exI [of _ "[]"] exI [of _ m])
         (simp add: create_fpage_chain_loop.simps fpage_tiling.simps made_pages_def)
  next
    case False
    define s where "s = chain_shift base sz"
    define b' sz' where "b' = base + push_bit s 1" and "sz' = sz - push_bit s 1"
    have t: "fpage_tiling base sz = (base, s) # fpage_tiling b' sz'"
      using False by (subst fpage_tiling.simps) (simp only: s_def b'_def sz'_def Let_def if_False)
    have "s < 32" using chain_shift_ok(1) [OF False] by (simp add: s_def)
    moreover have "card (ktable_used (fpage_table m)) < ktable_cap (fpage_table m)"
      using 1(4) t by simp
    ultimately obtain i m1 where c: "create_fpage mm base (of_nat s) mpid m = Inr (i, m1)"
      "made_pages mp mpid [i] [(base, s)] m m1" "as_next (fpages m1 i) = None"
      "\<And>j. j \<noteq> i \<Longrightarrow> fpages m1 j = fpages m j"
      "card (ktable_used (fpage_table m1)) = Suc (card (ktable_used (fpage_table m)))"
      using create_fpage_spec [OF mp 1(2)] by blast
    define m2 where "m2 = upd_fpage p (as_next_update (\<lambda>_. Some i)) m1"
    have pi: "p \<noteq> i" using c(2) 1(3) by (auto simp: made_pages_def)
    have m2: "fpage_table m2 = fpage_table m1" by (simp add: m2_def upd_fpage_def)
    have "ktable_ok (fpage_table m2)" "i \<in> ktable_used (fpage_table m2)"
      "card (ktable_used (fpage_table m2)) + length (fpage_tiling b' sz') \<le> ktable_cap (fpage_table m2)"
      using c(2,5) 1(4) by (auto simp: m2 t made_pages_def)
    with 1(1) [OF False s_def] obtain xs m' where x:
      "create_fpage_chain_loop mm mpid (Some i) b' sz' (Some f) (Some i) m2 =
         Inr (Some f, Some (last (i # xs)), m')"
      "made_pages mp mpid xs (fpage_tiling b' sz') m2 m'"
      "lseg (as_nexts m') (hd_opt xs) xs None"
      "fpages m' i = (fpages m2 i)\<lparr>as_next := if xs = [] then as_next (fpages m2 i) else hd_opt xs\<rparr>"
      "\<And>j. j \<notin> set xs \<Longrightarrow> j \<noteq> i \<Longrightarrow> fpages m' j = fpages m2 j"
      unfolding b'_def sz'_def by blast
    have px: "p \<notin> set xs" using x(2) c(2) 1(3) by (auto simp: made_pages_def m2)
    have i2: "fpages m2 i = fpages m1 i" using pi by (simp add: m2_def upd_fpage_def)
    have "made_pages mp mpid (i # xs) (fpage_tiling base sz) m m'"
      unfolding t using c(2) x(2) _ x(4) [unfolded i2]
      by (rule made_pages_Cons) (simp add: m2_def upd_fpage_def)
    moreover have "lseg (as_nexts m') (Some i) (i # xs) None"
      using x(3,4) c(3) i2 by (cases xs) (auto simp: as_nexts_def)
    moreover have "create_fpage_chain_loop mm mpid (Some p) base sz (Some f) (Some p) m =
         Inr (Some f, Some (last (i # xs)), m')"
      using False c(1) x(1) by (subst create_fpage_chain_loop.simps)
        (simp add: s_def [symmetric] b'_def [symmetric] sz'_def [symmetric] m2_def [symmetric] Let_def
          del: push_bit_of_1)
    moreover have "fpages m' p = (fpages m p)\<lparr>as_next := Some i\<rparr>"
      using x(5) [OF px pi] c(4) [OF pi] by (simp add: m2_def upd_fpage_def)
    moreover have "fpages m' j = fpages m j" if "j \<notin> set (i # xs)" "j \<noteq> p" for j
      using that x(5) [of j] c(4) [of j] by (simp add: m2_def upd_fpage_def)
    ultimately show ?thesis by (intro exI [of _ "i # xs"] exI [of _ m']) simp
  qed
qed

lemma create_fpage_chain_spec:
  assumes mp: "memmap_at mm mpid = Inr mp" "mpid \<noteq> - 1" and "ktable_ok (fpage_table m)" "sz \<noteq> 0"
    "card (ktable_used (fpage_table m)) + length (fpage_tiling base sz) \<le> ktable_cap (fpage_table m)"
  obtains xs m' where
    "create_fpage_chain mm base sz mpid None None m = Inr (Some (hd xs), Some (last xs), m')"
    "xs \<noteq> []" "made_pages mp mpid xs (fpage_tiling base sz) m m'"
    "lseg (as_nexts m') (hd_opt xs) xs None" "\<And>i. i \<notin> set xs \<Longrightarrow> fpages m' i = fpages m i"
proof -
  define s where "s = chain_shift base sz"
  define b' sz' where "b' = base + push_bit s 1" and "sz' = sz - push_bit s 1"
  have t: "fpage_tiling base sz = (base, s) # fpage_tiling b' sz'"
    using assms(4) by (subst fpage_tiling.simps) (simp only: s_def b'_def sz'_def Let_def if_False)
  have "s < 32" using chain_shift_ok(1) [OF assms(4)] by (simp add: s_def)
  moreover have "card (ktable_used (fpage_table m)) < ktable_cap (fpage_table m)" using assms(5) t by simp
  ultimately obtain i m1 where c: "create_fpage mm base (of_nat s) mpid m = Inr (i, m1)"
    "made_pages mp mpid [i] [(base, s)] m m1" "as_next (fpages m1 i) = None"
    "\<And>j. j \<noteq> i \<Longrightarrow> fpages m1 j = fpages m j"
    "card (ktable_used (fpage_table m1)) = Suc (card (ktable_used (fpage_table m)))"
    using create_fpage_spec [OF mp assms(3)] by blast
  have "ktable_ok (fpage_table m1)" "i \<in> ktable_used (fpage_table m1)"
    "card (ktable_used (fpage_table m1)) + length (fpage_tiling b' sz') \<le> ktable_cap (fpage_table m1)"
    using c(2,5) assms(5) by (auto simp: t made_pages_def)
  from create_fpage_chain_loop_spec [OF mp this, of i] obtain xs m' where x:
    "create_fpage_chain_loop mm mpid (Some i) b' sz' (Some i) (Some i) m1 =
       Inr (Some i, Some (last (i # xs)), m')"
    "made_pages mp mpid xs (fpage_tiling b' sz') m1 m'" "lseg (as_nexts m') (hd_opt xs) xs None"
    "fpages m' i = (fpages m1 i)\<lparr>as_next := if xs = [] then as_next (fpages m1 i) else hd_opt xs\<rparr>"
    "\<And>j. j \<notin> set xs \<Longrightarrow> j \<noteq> i \<Longrightarrow> fpages m' j = fpages m1 j" by blast
  have "create_fpage_chain mm base sz mpid None None m = Inr (Some i, Some (last (i # xs)), m')"
    unfolding create_fpage_chain_def using assms(4) c(1) x(1) by (subst create_fpage_chain_loop.simps)
      (simp add: s_def [symmetric] b'_def [symmetric] sz'_def [symmetric] Let_def del: push_bit_of_1)
  moreover have "made_pages mp mpid (i # xs) (fpage_tiling base sz) m m'"
    unfolding t using c(2) x(2) _ x(4) by (rule made_pages_Cons [where F = "fpages m1"]) simp
  moreover have "lseg (as_nexts m') (Some i) (i # xs) None"
    using x(3,4) c(3) by (cases xs) (auto simp: as_nexts_def)
  moreover have "fpages m' j = fpages m j" if "j \<notin> set (i # xs)" for j
    using that x(5) [of j] c(4) [of j] by simp
  ultimately show ?thesis using that [of "i # xs" m'] by simp
qed

section \<open>Positions of pages\<close>

definition page_lo :: "mem_t \<Rightarrow> nat \<Rightarrow> nat" where
  "page_lo m i = unat (fp_base (fpages m i))"

definition page_hi :: "mem_t \<Rightarrow> nat \<Rightarrow> nat" where
  "page_hi m i = page_lo m i + 2 ^ unat (fp_shift (fpages m i))"

lemma page_lo_less_hi: "page_lo m i < page_hi m i"
  by (simp add: page_hi_def)

lemma base_less_iff: "fp_base (fpages m i) < fp_base (fpages m j) \<longleftrightarrow> page_lo m i < page_lo m j"
  by (simp add: page_lo_def word_less_nat_alt)

text \<open>Pages in ascending order without overlap.\<close>

definition ascending :: "mem_t \<Rightarrow> nat list \<Rightarrow> bool" where
  "ascending m xs \<longleftrightarrow> sorted_wrt (\<lambda>i j. page_hi m i \<le> page_lo m j) xs"

lemma ascending_append:
  "ascending m (xs @ ys) \<longleftrightarrow>
     ascending m xs \<and> ascending m ys \<and> (\<forall>x\<in>set xs. \<forall>y\<in>set ys. page_hi m x \<le> page_lo m y)"
  by (simp add: ascending_def sorted_wrt_append)

lemma ascending_Cons:
  "ascending m (x # xs) \<longleftrightarrow> (\<forall>y\<in>set xs. page_hi m x \<le> page_lo m y) \<and> ascending m xs"
  by (simp add: ascending_def)

lemma ascending_Nil [simp]: "ascending m []"
  by (simp add: ascending_def)

lemma ascending_cong:
  "(\<And>i. i \<in> set xs \<Longrightarrow> page_tile (fpages m' i) = page_tile (fpages m i)) \<Longrightarrow>
   ascending m' xs = ascending m xs"
proof (induction xs)
  case (Cons x xs)
  have "page_lo m' i = page_lo m i" "page_hi m' i = page_hi m i" if "i \<in> set (x # xs)" for i
    using Cons.prems [OF that] by (auto simp: page_tile_def page_lo_def page_hi_def)
  with Cons show ?case by (simp add: ascending_Cons)
qed simp

lemma tiled_pages:
  "tiled a (map (\<lambda>i. page_tile (fpages m i)) xs) b \<Longrightarrow>
     ascending m xs \<and> (\<forall>x\<in>set xs. a \<le> page_lo m x \<and> page_hi m x \<le> b)"
proof (induction xs arbitrary: a)
  case (Cons x xs)
  then have "a = page_lo m x" "tiled (page_hi m x) (map (\<lambda>i. page_tile (fpages m i)) xs) b"
    by (auto simp: page_tile_def page_lo_def page_hi_def)
  with Cons.IH tiled_mono [OF this(2)] page_lo_less_hi [of m x] show ?case
    by (fastforce simp: ascending_Cons)
qed simp

section \<open>Links of a chain\<close>

lemma as_nexts_set [simp]: "as_nexts (set_as_nexts nx m) = nx"
  by (auto simp: as_nexts_def set_as_nexts_def)

lemma upd_fpage_link: "upd_fpage i (as_next_update (\<lambda>_. v)) m = set_as_nexts ((as_nexts m)(i := v)) m"
proof -
  have "(fpages m)(i := (fpages m i)\<lparr>as_next := v\<rparr>) =
      (\<lambda>j. (fpages m j)\<lparr>as_next := ((as_nexts m)(i := v)) j\<rparr>)"
    by (rule ext) (simp add: as_nexts_def)
  then show ?thesis by (simp add: upd_fpage_def set_as_nexts_def)
qed

lemma set_as_nexts_twice [simp]: "set_as_nexts nx (set_as_nexts nx' m) = set_as_nexts nx m"
  by (simp add: set_as_nexts_def)

lemma set_as_nexts_same [simp]: "set_as_nexts (as_nexts m) m = m"
  by (simp add: set_as_nexts_def as_nexts_def)

lemma set_as_nexts_frame [simp]:
  "ases (set_as_nexts nx m) = ases m" "fpage_table (set_as_nexts nx m) = fpage_table m"
  "as_table (set_as_nexts nx m) = as_table m" "mmio (set_as_nexts nx m) = mmio m"
  "uninit (set_as_nexts nx m) = uninit m" "page_tile (fpages (set_as_nexts nx m) i) = page_tile (fpages m i)"
  "fp_base (fpages (set_as_nexts nx m) i) = fp_base (fpages m i)"
  "mpu_nexts (set_as_nexts nx m) = mpu_nexts m"
  by (auto simp: set_as_nexts_def page_tile_def mpu_nexts_def)

lemma upd_as_frame [simp]:
  "fpages (upd_as a f m) = fpages m" "fpage_table (upd_as a f m) = fpage_table m"
  "as_table (upd_as a f m) = as_table m" "mmio (upd_as a f m) = mmio m" "uninit (upd_as a f m) = uninit m"
  "ases (upd_as a f m) a = f (ases m a)" "b \<noteq> a \<Longrightarrow> ases (upd_as a f m) b = ases m b"
  "as_nexts (upd_as a f m) = as_nexts m" "mpu_nexts (upd_as a f m) = mpu_nexts m"
  by (auto simp: upd_as_def as_nexts_def mpu_nexts_def)

lemma upd_as_same: "f (ases m a) = ases m a \<Longrightarrow> upd_as a f m = m"
  by (simp add: upd_as_def)

section \<open>Insertion of a chain\<close>

lemma insert_fpage_walk_spec:
  assumes "lseg (as_nexts m) (Some fp) (us @ vs) None" "us \<noteq> []" "length us \<le> n"
    "\<forall>u\<in>set us. page_lo m u \<le> page_lo m l" "\<forall>v\<in>set vs. page_lo m l < page_lo m v"
  shows "insert_fpage_walk n l fp m =
    Inr (last us, if vs = [] then m else set_as_nexts ((as_nexts m)(l := hd_opt vs)) m)"
  using assms
proof (induction us arbitrary: n fp)
  case (Cons u us)
  then obtain k where k: "n = Suc k" by (cases n) auto
  from Cons.prems have fp: "fp = u" and ch: "lseg (as_nexts m) (as_nexts m u) (us @ vs) None" by auto
  show ?case
  proof (cases us)
    case Nil
    have "as_next (fpages m u) = hd_opt vs" using ch Nil lseg_hd by (fastforce simp: as_nexts_def)
    then show ?thesis using Cons.prems(5) k fp Nil
      by (cases vs) (auto simp: FPAGE_BASE_def base_less_iff upd_fpage_link)
  next
    case (Cons w ws)
    then have "as_next (fpages m u) = Some w" using ch by (simp add: as_nexts_def)
    moreover have "\<not> page_lo m l < page_lo m w" using Cons Cons.prems(4) by auto
    moreover have "insert_fpage_walk k l w m =
        Inr (last us, if vs = [] then m else set_as_nexts ((as_nexts m)(l := hd_opt vs)) m)"
      using Cons Cons.prems Cons.IH [of w k] ch k by simp
    ultimately show ?thesis using k fp Cons by (simp add: FPAGE_BASE_def base_less_iff)
  qed
qed simp

text \<open>
  A chain that fits between the pages \<open>us\<close> and \<open>vs\<close> of an address space is linked between them;
  nothing but links changes.
\<close>

lemma insert_fpage_chain_spec:
  assumes chain: "lseg (as_nexts m) (as_first (ases m a)) (us @ vs) None" "length us \<le> WALK_FUEL"
    and ys: "lseg (as_nexts m) (hd_opt ys) ys None" "ys \<noteq> []" "set ys \<inter> set (us @ vs) = {}"
    and lt: "\<forall>u\<in>set us. page_lo m u \<le> page_lo m (last ys)" "\<forall>v\<in>set vs. page_lo m (last ys) < page_lo m v"
  obtains nx where "insert_fpage_chain_to_as a (Some (hd ys)) (Some (last ys)) m =
      Inr (upd_as a (as_first_update (\<lambda>_. hd_opt (us @ ys @ vs))) (set_as_nexts nx m))"
    "lseg nx (hd_opt (us @ ys @ vs)) (us @ ys @ vs) None"
    "\<And>i. i \<notin> set (us @ ys) \<Longrightarrow> nx i = as_nexts m i"
proof -
  let ?nx = "as_nexts m"
  let ?v = "if vs = [] then ?nx else ?nx(last ys := hd_opt vs)"
  have dys: "distinct ys" using ys(1) by (rule lseg_None_distinct)
  have dus: "distinct (us @ vs)" using chain(1) by (rule lseg_None_distinct)
  have f: "as_first (ases m a) = hd_opt (us @ vs)" using chain(1) by (rule lseg_hd)
  have "last ys \<notin> set vs" using last_in_set [OF ys(2)] ys(3) by auto
  moreover have "lseg ?nx (hd_opt vs) vs None" using chain(1) lseg_hd by (fastforce simp: lseg_append)
  ultimately have vs: "lseg ?v (hd_opt vs) vs None" by simp
  have yv: "lseg ?v (hd_opt ys) ys (hd_opt vs)"
    using ys(1,2) dys lseg_redirect [OF ys(1,2) dys] by auto
  show ?thesis
  proof (cases "us = []")
    case True
    show ?thesis
    proof (rule that [of ?v])
      show "insert_fpage_chain_to_as a (Some (hd ys)) (Some (last ys)) m =
          Inr (upd_as a (as_first_update (\<lambda>_. hd_opt (us @ ys @ vs))) (set_as_nexts ?v m))"
        using True ys(2) f lt(2) by (cases vs)
          (auto simp: insert_fpage_chain_to_as_def hd_opt_hd base_less_iff upd_fpage_link)
      show "lseg ?v (hd_opt (us @ ys @ vs)) (us @ ys @ vs) None"
        using True yv vs ys(2) by (auto simp: lseg_append)
    qed (use ys(2) in auto)
  next
    case False
    then obtain fp where fp: "as_first (ases m a) = Some fp" using f hd_opt_hd by fastforce
    have w: "insert_fpage_walk WALK_FUEL (last ys) fp m = Inr (last us, set_as_nexts ?v m)"
      using insert_fpage_walk_spec [of m fp us vs WALK_FUEL "last ys"] chain fp False lt by auto
    have nlt: "\<not> fp_base (fpages m (last ys)) < fp_base (fpages m fp)"
      using lt(1) fp f False base_less_iff by (cases us) auto
    let ?n = "?v(last us := Some (hd ys))"
    have u0: "lseg ?nx (hd_opt us) us (hd_opt vs)"
      using chain(1) False f by (auto simp: lseg_append dest: lseg_hd)
    moreover have "last ys \<notin> set us" using last_in_set [OF ys(2)] ys(3) by auto
    ultimately have "lseg ?v (hd_opt us) us (hd_opt vs)" by auto
    then have us: "lseg ?n (hd_opt us) us (Some (hd ys))"
      using lseg_redirect False dus by fastforce
    have lu: "last us \<notin> set ys" "last us \<notin> set vs" using last_in_set [OF False] ys(3) dus by auto
    show ?thesis
    proof (rule that [of ?n])
      show "insert_fpage_chain_to_as a (Some (hd ys)) (Some (last ys)) m =
          Inr (upd_as a (as_first_update (\<lambda>_. hd_opt (us @ ys @ vs))) (set_as_nexts ?n m))"
        using False fp f w nlt
        by (simp add: insert_fpage_chain_to_as_def upd_fpage_link upd_as_same)
      have "lseg ?n (Some (hd ys)) ys (hd_opt vs)" "lseg ?n (hd_opt vs) vs None"
        using yv vs lu ys(2) by (auto simp: hd_opt_hd)
      with us have "lseg ?n (hd_opt us) (us @ ys @ vs) None" unfolding lseg_append by blast
      then show "lseg ?n (hd_opt (us @ ys @ vs)) (us @ ys @ vs) None" using False by simp
    qed (use ys(2) False in auto)
  qed
qed

section \<open>Removal of a page\<close>

lemma remove_fpage_walk_spec:
  assumes "lseg nx p (us @ fp # vs) None" "us \<noteq> []" "length us \<le> n" "fp \<notin> set us"
  shows "remove_fpage_walk n nx fp False p = Inr (last us)"
  using assms
proof (induction us arbitrary: n p)
  case (Cons u us)
  then obtain k where k: "n = Suc k" by (cases n) auto
  show ?case
  proof (cases us)
    case Nil
    then show ?thesis using Cons.prems k by simp
  next
    case (Cons w ws)
    then have "remove_fpage_walk k nx fp False (nx u) = Inr (last us)"
      using Cons.prems Cons.IH [of "nx u" k] k by simp
    then show ?thesis using Cons Cons.prems k by auto
  qed
qed simp

lemma remove_fpage_from_list_spec:
  assumes "lseg nx p (us @ fp # vs) None" "length us \<le> WALK_FUEL"
  obtains nx' where "remove_fpage_from_list nx p fp False = Inr (hd_opt (us @ vs), nx')"
    "lseg nx' (hd_opt (us @ vs)) (us @ vs) None" "\<And>i. i \<notin> set us \<Longrightarrow> nx' i = nx i"
proof -
  have d: "distinct (us @ fp # vs)" using assms(1) by (rule lseg_None_distinct)
  have v: "lseg nx (nx fp) vs None" "nx fp = hd_opt vs" using assms(1) by (auto simp: lseg_append dest: lseg_hd)
  show ?thesis
  proof (cases "us = []")
    case True
    then show ?thesis using that [of nx] v assms by (simp add: remove_fpage_from_list_def)
  next
    case False
    have p: "p = hd_opt us" using lseg_hd [OF assms(1)] False by simp
    have w: "remove_fpage_walk WALK_FUEL nx fp False p = Inr (last us)"
      using assms d by (intro remove_fpage_walk_spec [OF assms(1) False]) auto
    have "p \<noteq> Some fp" using p False d by (auto simp: hd_opt_hd)
    then have r: "remove_fpage_from_list nx p fp False = Inr (hd_opt (us @ vs), nx(last us := nx fp))"
      using w p False by (simp add: remove_fpage_from_list_def)
    have "lseg (nx(last us := nx fp)) p us (nx fp)"
      using assms(1) False d by (intro lseg_redirect [where q = "Some fp"]) (auto simp: lseg_append)
    moreover have "last us \<notin> set vs" using last_in_set [OF False] d by auto
    ultimately have "lseg (nx(last us := nx fp)) (hd_opt (us @ vs)) (us @ vs) None"
      using v p False by (auto simp: lseg_append)
    then show ?thesis using last_in_set [OF False] by (intro that [OF r]) auto
  qed
qed

text \<open>Only links, and the two heads of address space \<open>a\<close>, differ between \<open>m\<close> and \<open>m'\<close>.\<close>

definition page_core :: "fpage_t \<Rightarrow> fpage_t" where
  "page_core f = f\<lparr>as_next := None, mpu_next := None\<rparr>"

definition relinked :: "nat \<Rightarrow> mem_t \<Rightarrow> mem_t \<Rightarrow> bool" where
  "relinked a m m' \<longleftrightarrow>
     (\<forall>i. page_core (fpages m' i) = page_core (fpages m i)) \<and>
     fpage_table m' = fpage_table m \<and> as_table m' = as_table m \<and> mmio m' = mmio m \<and>
     set (uninit m') \<subseteq> set (uninit m) \<and> (\<forall>b. b \<noteq> a \<longrightarrow> ases m' b = ases m b)"

lemma relinked_trans [trans]: "relinked a m m' \<Longrightarrow> relinked a m' m'' \<Longrightarrow> relinked a m m''"
  by (auto simp: relinked_def)

lemma page_core_eqD:
  assumes "page_core f = page_core g"
  shows "page_tile f = page_tile g" "map_next f = map_next g" "fp_mpid f = fp_mpid g"
    "fp_flags f = fp_flags g" "fp_rwx f = fp_rwx g"
proof -
  from assms have "fp_base (page_core f) = fp_base (page_core g)"
    "fp_shift (page_core f) = fp_shift (page_core g)" "map_next (page_core f) = map_next (page_core g)"
    "fp_mpid (page_core f) = fp_mpid (page_core g)" "fp_flags (page_core f) = fp_flags (page_core g)"
    "fp_rwx (page_core f) = fp_rwx (page_core g)" by simp_all
  then show "page_tile f = page_tile g" "map_next f = map_next g" "fp_mpid f = fp_mpid g"
    "fp_flags f = fp_flags g" "fp_rwx f = fp_rwx g" by (simp_all add: page_core_def page_tile_def)
qed

lemma relinked_tile: "relinked a m m' \<Longrightarrow> page_tile (fpages m' i) = page_tile (fpages m i)"
  by (rule page_core_eqD(1)) (simp add: relinked_def)

lemma page_pos_cong:
  "page_tile (fpages m' i) = page_tile (fpages m i) \<Longrightarrow> page_lo m' i = page_lo m i \<and> page_hi m' i = page_hi m i"
  by (simp add: page_tile_def page_lo_def page_hi_def)

lemma relinked_pos: "relinked a m m' \<Longrightarrow> page_lo m' i = page_lo m i \<and> page_hi m' i = page_hi m i"
  by (rule page_pos_cong) (rule relinked_tile)

lemma relinked_ascending: "relinked a m m' \<Longrightarrow> ascending m' xs = ascending m xs"
  by (rule ascending_cong) (rule relinked_tile)

lemma relinked_set_as_nexts: "relinked a m (upd_as a f (set_as_nexts nx m))"
  by (simp add: relinked_def page_core_def set_as_nexts_def upd_as_def)

lemma relinked_set_mpu_nexts: "relinked a m (upd_as a f (set_mpu_nexts nx m))"
  by (simp add: relinked_def page_core_def set_mpu_nexts_def upd_as_def)

lemma relinked_pop_uninit: "pop_uninit m = (e, m') \<Longrightarrow> relinked a m m'"
  by (auto simp: pop_uninit_def relinked_def split: list.splits)

lemma pop_uninit_frame: "pop_uninit m = (e, m') \<Longrightarrow>
    ases m' = ases m \<and> fpages m' = fpages m \<and> as_nexts m' = as_nexts m \<and> mpu_nexts m' = mpu_nexts m"
  by (auto simp: pop_uninit_def as_nexts_def mpu_nexts_def fun_eq_iff split: list.splits)

lemma pop_uninit_False: "pop_uninit m = (e, m') \<Longrightarrow> True \<notin> set (uninit m) \<Longrightarrow> \<not> e \<and> True \<notin> set (uninit m')"
  by (auto simp: pop_uninit_def split: list.splits)

lemma mpu_nexts_frame [simp]:
  "mpu_nexts (set_mpu_nexts nx m) = nx" "as_nexts (set_mpu_nexts nx m) = as_nexts m"
  "ases (set_mpu_nexts nx m) = ases m"
  by (auto simp: set_mpu_nexts_def mpu_nexts_def as_nexts_def fun_eq_iff)

lemma remove_fpage_from_as_spec:
  assumes "lseg (as_nexts m) (as_first (ases m a)) (us @ fp # vs) None" "length us \<le> WALK_FUEL"
    "lseg (mpu_nexts m) (mpu_first (ases m a)) (us2 @ fp # vs2) None" "length us2 \<le> WALK_FUEL"
    "True \<notin> set (uninit m)"
  obtains m' where "remove_fpage_from_as a fp m = Inr m'" "relinked a m m'"
    "lseg (as_nexts m') (as_first (ases m' a)) (us @ vs) None"
    "lseg (mpu_nexts m') (mpu_first (ases m' a)) (us2 @ vs2) None"
    "\<And>i. i \<notin> set us \<Longrightarrow> as_nexts m' i = as_nexts m i"
proof -
  obtain e1 m1 where p1: "pop_uninit m = (e1, m1)" by fastforce
  note f1 = pop_uninit_frame [OF p1] and u1 = pop_uninit_False [OF p1 assms(5)]
  from remove_fpage_from_list_spec [OF assms(1,2)] obtain nx where
    r1: "remove_fpage_from_list (as_nexts m) (as_first (ases m a)) fp False = Inr (hd_opt (us @ vs), nx)"
    "lseg nx (hd_opt (us @ vs)) (us @ vs) None" "\<And>i. i \<notin> set us \<Longrightarrow> nx i = as_nexts m i" by blast
  define m2 where "m2 = upd_as a (as_first_update (\<lambda>_. hd_opt (us @ vs))) (set_as_nexts nx m1)"
  obtain e2 m3 where p2: "pop_uninit m2 = (e2, m3)" by fastforce
  note f2 = pop_uninit_frame [OF p2]
  have u2: "\<not> e2" using pop_uninit_False [OF p2] u1 by (simp add: m2_def)
  have "lseg (mpu_nexts m3) (mpu_first (ases m3 a)) (us2 @ fp # vs2) None"
    using f1 f2 assms(3) by (simp add: m2_def)
  from remove_fpage_from_list_spec [OF this assms(4)] obtain nx2 where
    r2: "remove_fpage_from_list (mpu_nexts m3) (mpu_first (ases m3 a)) fp False =
      Inr (hd_opt (us2 @ vs2), nx2)" "lseg nx2 (hd_opt (us2 @ vs2)) (us2 @ vs2) None" by blast
  define m4 where "m4 = upd_as a (mpu_first_update (\<lambda>_. hd_opt (us2 @ vs2))) (set_mpu_nexts nx2 m3)"
  have "remove_fpage_from_as a fp m = Inr m4"
    using u1 u2 r1(1) r2(1) f1 by (simp add: remove_fpage_from_as_def p1 m2_def [symmetric] p2 m4_def
        del: hd_opt_simps)
  moreover have "relinked a m m1" "relinked a m1 m2" "relinked a m2 m3" "relinked a m3 m4"
    using relinked_pop_uninit [OF p1] relinked_pop_uninit [OF p2]
    by (auto simp: m2_def m4_def relinked_set_as_nexts relinked_set_mpu_nexts)
  then have "relinked a m m4" by (blast intro: relinked_trans)
  moreover have "as_nexts m4 = nx" "as_first (ases m4 a) = hd_opt (us @ vs)" "mpu_nexts m4 = nx2"
    "mpu_first (ases m4 a) = hd_opt (us2 @ vs2)"
    using f2 by (auto simp: m4_def m2_def simp del: hd_opt_simps)
  ultimately show ?thesis using r1(2,3) r2(2) by (intro that [of m4]) (simp_all only:)
qed

section \<open>Splitting a page\<close>

definition as_chain :: "mem_t \<Rightarrow> nat \<Rightarrow> nat list \<Rightarrow> bool" where
  "as_chain m a xs \<longleftrightarrow>
     lseg (as_nexts m) (as_first (ases m a)) xs None \<and> ascending m xs \<and>
     set xs \<subseteq> ktable_used (fpage_table m)"

definition mpu_chain :: "mem_t \<Rightarrow> nat \<Rightarrow> nat list \<Rightarrow> bool" where
  "mpu_chain m a xs \<longleftrightarrow>
     lseg (mpu_nexts m) (mpu_first (ases m a)) xs None \<and> set xs \<subseteq> ktable_used (fpage_table m)"

definition fpages_ok :: "mem_t \<Rightarrow> bool" where
  "fpages_ok m \<longleftrightarrow> ktable_ok (fpage_table m) \<and> ktable_cap (fpage_table m) = CONFIG_MAX_FPAGES"

lemma fpages_ok_length:
  assumes "fpages_ok m" "distinct xs" "set xs \<subseteq> ktable_used (fpage_table m)"
  shows "length xs < WALK_FUEL"
proof -
  have "set xs \<subseteq> {..<CONFIG_MAX_FPAGES}"
    using assms kt.used_bound [of "fpage_table m"] by (auto simp: fpages_ok_def)
  then have "length xs \<le> CONFIG_MAX_FPAGES" using assms(2) by (rule distinct_bounded [rotated])
  then show ?thesis by (simp add: WALK_FUEL_def)
qed

lemma made_pages_card:
  assumes "made_pages mp mpid xs ts m m'" "ktable_ok (fpage_table m)"
  shows "card (ktable_used (fpage_table m')) = card (ktable_used (fpage_table m)) + length xs"
    "length xs = length ts"
  using assms kt.finite_used [OF assms(2)]
  by (auto simp: made_pages_def card_Un_disjoint distinct_card Int_commute)

lemma made_pages_ok: "made_pages mp mpid xs ts m m' \<Longrightarrow> fpages_ok m \<Longrightarrow> fpages_ok m'"
  by (simp add: made_pages_def fpages_ok_def)

lemma mempool_alignD:
  assumes "mempool_align mm mpid addr = Inr r"
  obtains mp where "memmap_at mm mpid = Inr mp" "mpid \<noteq> - 1"
  using assms by (auto simp: mempool_align_def memmap_at_def split: if_splits)

text \<open>The two chains that replace a page, before they are linked.\<close>

lemma create_two_chains:
  assumes mp: "memmap_at mm mpid = Inr mp" "mpid \<noteq> - 1" and ok: "fpages_ok m" and nz: "s1 \<noteq> 0" "s2 \<noteq> 0"
    and room: "card (ktable_used (fpage_table m)) + length (fpage_tiling b1 s1) + length (fpage_tiling b2 s2)
      \<le> CONFIG_MAX_FPAGES"
  obtains ls rs m1 m2 where
    "create_fpage_chain mm b1 s1 mpid None None m = Inr (Some (hd ls), Some (last ls), m1)"
    "create_fpage_chain mm b2 s2 mpid None None m1 = Inr (Some (hd rs), Some (last rs), m2)"
    "ls \<noteq> []" "rs \<noteq> []" "made_pages mp mpid (ls @ rs) (fpage_tiling b1 s1 @ fpage_tiling b2 s2) m m2"
    "map (\<lambda>i. page_tile (fpages m2 i)) ls = fpage_tiling b1 s1"
    "map (\<lambda>i. page_tile (fpages m2 i)) rs = fpage_tiling b2 s2"
    "lseg (as_nexts m2) (hd_opt ls) ls None" "lseg (as_nexts m2) (hd_opt rs) rs None"
    "\<And>i. i \<notin> set (ls @ rs) \<Longrightarrow> fpages m2 i = fpages m i"
proof -
  have k: "ktable_ok (fpage_table m)" "ktable_cap (fpage_table m) = CONFIG_MAX_FPAGES"
    using ok by (auto simp: fpages_ok_def)
  have r1: "card (ktable_used (fpage_table m)) + length (fpage_tiling b1 s1) \<le> ktable_cap (fpage_table m)"
    using room k by simp
  obtain ls m1 where l:
    "create_fpage_chain mm b1 s1 mpid None None m = Inr (Some (hd ls), Some (last ls), m1)" "ls \<noteq> []"
    "made_pages mp mpid ls (fpage_tiling b1 s1) m m1" "lseg (as_nexts m1) (hd_opt ls) ls None"
    "\<And>i. i \<notin> set ls \<Longrightarrow> fpages m1 i = fpages m i"
    using create_fpage_chain_spec [OF mp k(1) nz(1) r1] by metis
  have k1: "ktable_ok (fpage_table m1)" "ktable_cap (fpage_table m1) = CONFIG_MAX_FPAGES"
    using made_pages_ok [OF l(3) ok] by (auto simp: fpages_ok_def)
  have r2: "card (ktable_used (fpage_table m1)) + length (fpage_tiling b2 s2) \<le> ktable_cap (fpage_table m1)"
    using made_pages_card [OF l(3) k(1)] room k1 by simp
  obtain rs m2 where r:
    "create_fpage_chain mm b2 s2 mpid None None m1 = Inr (Some (hd rs), Some (last rs), m2)" "rs \<noteq> []"
    "made_pages mp mpid rs (fpage_tiling b2 s2) m1 m2" "lseg (as_nexts m2) (hd_opt rs) rs None"
    "\<And>i. i \<notin> set rs \<Longrightarrow> fpages m2 i = fpages m1 i"
    using create_fpage_chain_spec [OF mp k1(1) nz(2) r2] by metis
  have lr: "set ls \<inter> set rs = {}" using l(3) r(3) by (auto simp: made_pages_def)
  then have same: "fpages m2 i = fpages m1 i" if "i \<in> set ls" for i using that r(5) by blast
  have tl: "map (\<lambda>i. page_tile (fpages m2 i)) ls = fpage_tiling b1 s1"
    using l(3) same by (simp add: made_pages_def cong: map_cong)
  have tr: "map (\<lambda>i. page_tile (fpages m2 i)) rs = fpage_tiling b2 s2"
    using r(3) by (simp add: made_pages_def)
  have "\<forall>i\<in>set ls. fresh_page mp mpid i (fpages m2 i)" using l(3) same by (simp add: made_pages_def)
  then have "made_pages mp mpid (ls @ rs) (fpage_tiling b1 s1 @ fpage_tiling b2 s2) m m2"
    using l(3) r(3) tl tr by (auto simp: made_pages_def)
  moreover have "lseg (as_nexts m2) (hd_opt ls) ls None"
    using l(4) lseg_cong [of ls "as_nexts m1" "as_nexts m2"] same by (simp add: as_nexts_def)
  moreover have "fpages m2 i = fpages m i" if "i \<notin> set (ls @ rs)" for i using that l(5) r(5) by simp
  ultimately show ?thesis using that l(1,2) r(1,2,4) tl tr by blast
qed

lemma free_fpage_spec:
  assumes "fpages_ok m" "fp \<in> ktable_used (fpage_table m)"
  obtains kt where "ktable_free_slot (fpage_table m) fp = Inr kt"
    "ktable_used kt = ktable_used (fpage_table m) - {fp}" "fpages_ok (m\<lparr>fpage_table := kt\<rparr>)"
proof -
  have "ktable_ok (fpage_table m)" "fp < ktable_cap (fpage_table m)"
    using assms kt.used_bound [of "fpage_table m"] by (auto simp: fpages_ok_def)
  from kt.free_slot [OF this] show ?thesis using that assms by (auto simp: fpages_ok_def)
qed

lemma table_frame [simp]:
  "as_nexts (m\<lparr>fpage_table := kt\<rparr>) = as_nexts m" "mpu_nexts (m\<lparr>fpage_table := kt\<rparr>) = mpu_nexts m"
  "page_lo (m\<lparr>fpage_table := kt\<rparr>) = page_lo m" "page_hi (m\<lparr>fpage_table := kt\<rparr>) = page_hi m"
  "ascending (m\<lparr>fpage_table := kt\<rparr>) = ascending m"
  by (auto simp: as_nexts_def mpu_nexts_def page_lo_def page_hi_def ascending_def fun_eq_iff)

text \<open>Inserting a chain keeps everything but links and leaves a chain in ascending order.\<close>

lemma insert_chain_as:
  assumes "fpages_ok m" "as_chain m a (us @ vs)" "lseg (as_nexts m) (hd_opt ys) ys None" "ys \<noteq> []"
    "set ys \<inter> set (us @ vs) = {}" "ascending m (us @ ys @ vs)" "set ys \<subseteq> ktable_used (fpage_table m)"
  obtains m' where "insert_fpage_chain_to_as a (Some (hd ys)) (Some (last ys)) m = Inr m'"
    "as_chain m' a (us @ ys @ vs)" "relinked a m m'" "\<And>i. i \<notin> set (us @ ys) \<Longrightarrow> as_nexts m' i = as_nexts m i"
    "mpu_nexts m' = mpu_nexts m" "mpu_first (ases m' a) = mpu_first (ases m a)"
proof -
  have c: "lseg (as_nexts m) (as_first (ases m a)) (us @ vs) None" using assms(2) by (simp add: as_chain_def)
  have "distinct us" using lseg_None_distinct [OF c] by simp
  then have len: "length us \<le> WALK_FUEL"
    using fpages_ok_length [OF assms(1), THEN less_imp_le] assms(2) by (simp add: as_chain_def)
  have l: "last ys \<in> set ys" using assms(4) by simp
  have o: "\<forall>u\<in>set us. page_hi m u \<le> page_lo m (last ys)" "\<forall>v\<in>set vs. page_hi m (last ys) \<le> page_lo m v"
    using assms(6) l by (auto simp: ascending_append)
  have "\<forall>u\<in>set us. page_lo m u \<le> page_lo m (last ys)" "\<forall>v\<in>set vs. page_lo m (last ys) < page_lo m v"
    using o(1) less_imp_le [OF page_lo_less_hi [of m]] le_trans apply blast
    using o(2) page_lo_less_hi [of m "last ys"] less_le_trans by blast
  from insert_fpage_chain_spec [OF c len assms(3,4,5) this] obtain nx where
    n: "insert_fpage_chain_to_as a (Some (hd ys)) (Some (last ys)) m =
      Inr (upd_as a (as_first_update (\<lambda>_. hd_opt (us @ ys @ vs))) (set_as_nexts nx m))"
    "lseg nx (hd_opt (us @ ys @ vs)) (us @ ys @ vs) None"
    "\<And>i. i \<notin> set (us @ ys) \<Longrightarrow> nx i = as_nexts m i" by blast
  let ?m' = "upd_as a (as_first_update (\<lambda>_. hd_opt (us @ ys @ vs))) (set_as_nexts nx m)"
  have "as_chain ?m' a (us @ ys @ vs)"
    using n(2) assms(2,6,7) relinked_ascending [OF relinked_set_as_nexts [of a m]]
    by (simp add: as_chain_def del: hd_opt_simps)
  then show ?thesis using that n relinked_set_as_nexts by simp
qed

text \<open>Taking a page out of its chains and putting two chains in its place.\<close>

definition replace_page :: "nat \<Rightarrow> nat \<Rightarrow> nat list \<Rightarrow> nat list \<Rightarrow> mem_t \<Rightarrow> mem_t outcome" where
  "replace_page a fp ls rs m =
     bindF (remove_fpage_from_as a fp m) (\<lambda>m.
     bindF (ktable_free_slot (fpage_table m) fp) (\<lambda>kt.
     bindF (insert_fpage_chain_to_as a (Some (hd ls)) (Some (last ls)) (m\<lparr>fpage_table := kt\<rparr>)) (\<lambda>m.
     insert_fpage_chain_to_as a (Some (hd rs)) (Some (last rs)) m)))"

lemma replace_page_spec:
  assumes ok: "fpages_ok m" and ch: "as_chain m a (us @ fp # vs)" and mc: "mpu_chain m a (us2 @ fp # vs2)"
    and un: "True \<notin> set (uninit m)"
    and ls: "lseg (as_nexts m) (hd_opt ls) ls None" "ls \<noteq> []"
    and rs: "lseg (as_nexts m) (hd_opt rs) rs None" "rs \<noteq> []"
    and new: "set (ls @ rs) \<inter> set (us @ fp # vs) = {}" "set ls \<inter> set rs = {}"
      "set (ls @ rs) \<subseteq> ktable_used (fpage_table m)"
    and asc: "ascending m (us @ ls @ rs @ vs)"
  obtains m' where "replace_page a fp ls rs m = Inr m'" "as_chain m' a (us @ ls @ rs @ vs)"
    "mpu_chain m' a (us2 @ vs2)" "fpages_ok m'"
    "ktable_used (fpage_table m') = ktable_used (fpage_table m) - {fp}"
    "\<And>i. page_core (fpages m' i) = page_core (fpages m i)" "\<And>b. b \<noteq> a \<Longrightarrow> ases m' b = ases m b"
proof -
  have c: "lseg (as_nexts m) (as_first (ases m a)) (us @ fp # vs) None"
    "lseg (mpu_nexts m) (mpu_first (ases m a)) (us2 @ fp # vs2) None"
    using ch mc by (auto simp: as_chain_def mpu_chain_def)
  note d = lseg_None_distinct [OF c(1)] lseg_None_distinct [OF c(2)]
  have len: "length us \<le> WALK_FUEL" "length us2 \<le> WALK_FUEL"
    using d ch mc fpages_ok_length [OF ok, THEN less_imp_le] by (auto simp: as_chain_def mpu_chain_def)
  obtain m3 where r: "remove_fpage_from_as a fp m = Inr m3" "relinked a m m3"
    "lseg (as_nexts m3) (as_first (ases m3 a)) (us @ vs) None"
    "lseg (mpu_nexts m3) (mpu_first (ases m3 a)) (us2 @ vs2) None"
    "\<And>i. i \<notin> set us \<Longrightarrow> as_nexts m3 i = as_nexts m i"
    using remove_fpage_from_as_spec [OF c(1) len(1) c(2) len(2) un] by metis
  have t3: "fpage_table m3 = fpage_table m" using r(2) by (simp add: relinked_def)
  have fpu: "fp \<in> ktable_used (fpage_table m3)" using ch t3 by (simp add: as_chain_def)
  have ok3: "fpages_ok m3" using ok t3 by (simp add: fpages_ok_def)
  obtain kt where k: "ktable_free_slot (fpage_table m3) fp = Inr kt"
    "ktable_used kt = ktable_used (fpage_table m3) - {fp}" "fpages_ok (m3\<lparr>fpage_table := kt\<rparr>)"
    using free_fpage_spec [OF ok3 fpu] by metis
  define m4 where "m4 = m3\<lparr>fpage_table := kt\<rparr>"
  have asc4: "ascending m4 xs = ascending m xs" for xs
    using relinked_ascending [OF r(2)] by (simp add: m4_def)
  have sub: "set xs \<subseteq> ktable_used (fpage_table m4)"
    if "set xs \<subseteq> ktable_used (fpage_table m)" "fp \<notin> set xs" for xs
    using that k(2) t3 by (auto simp: m4_def)
  have "ascending m (us @ vs)" "ascending m (us @ ls @ vs)" using asc by (auto simp: ascending_append)
  note a4 = this [folded asc4]
  have "set (us @ vs) \<subseteq> ktable_used (fpage_table m4)" using sub ch d(1) by (simp add: as_chain_def)
  moreover have "lseg (as_nexts m4) (as_first (ases m4 a)) (us @ vs) None" using r(3) by (simp add: m4_def)
  ultimately have ch4: "as_chain m4 a (us @ vs)" using a4(1) by (simp add: as_chain_def)
  have "i \<notin> set us" if "i \<in> set (ls @ rs)" for i using that new(1) by auto
  then have e4: "as_nexts m4 i = as_nexts m i" if "i \<in> set (ls @ rs)" for i
    using that r(5) by (simp add: m4_def)
  have l4: "lseg (as_nexts m4) (hd_opt ls) ls None" "lseg (as_nexts m4) (hd_opt rs) rs None"
    by (rule lseg_transfer [OF ls(1)], use e4 in simp) (rule lseg_transfer [OF rs(1)], use e4 in simp)
  have n4: "set ls \<inter> set (us @ vs) = {}" "ascending m4 (us @ ls @ vs)" "set ls \<subseteq> ktable_used (fpage_table m4)"
    using new sub [of ls] a4 by auto
  obtain m5 where i5: "insert_fpage_chain_to_as a (Some (hd ls)) (Some (last ls)) m4 = Inr m5"
    "as_chain m5 a (us @ ls @ vs)" "relinked a m4 m5"
    "\<And>i. i \<notin> set (us @ ls) \<Longrightarrow> as_nexts m5 i = as_nexts m4 i"
    "mpu_nexts m5 = mpu_nexts m4" "mpu_first (ases m5 a) = mpu_first (ases m4 a)"
    using insert_chain_as [OF k(3) [folded m4_def] ch4 l4(1) ls(2) n4] by metis
  have t5: "fpage_table m5 = kt" using i5(3) by (simp add: relinked_def m4_def)
  have ok5: "fpages_ok m5" using k(3) t5 by (simp add: fpages_ok_def)
  have l5: "lseg (as_nexts m5) (hd_opt rs) rs None"
    by (rule lseg_transfer [OF l4(2)], rule i5(4)) (use new in auto)
  have ch5: "as_chain m5 a ((us @ ls) @ vs)" using i5(2) by simp
  have n5: "set rs \<inter> set ((us @ ls) @ vs) = {}" "ascending m5 ((us @ ls) @ rs @ vs)"
    "set rs \<subseteq> ktable_used (fpage_table m5)"
    using new sub [of rs] asc relinked_ascending [OF i5(3)] t5 asc4 by (auto simp: m4_def)
  obtain m6 where i6: "insert_fpage_chain_to_as a (Some (hd rs)) (Some (last rs)) m5 = Inr m6"
    "as_chain m6 a ((us @ ls) @ rs @ vs)" "relinked a m5 m6"
    "mpu_nexts m6 = mpu_nexts m5" "mpu_first (ases m6 a) = mpu_first (ases m5 a)"
    using insert_chain_as [OF ok5 ch5 l5 rs(2) n5] by metis
  have t6: "fpage_table m6 = kt" using i6(3) t5 by (simp add: relinked_def)
  have "mpu_chain m6 a (us2 @ vs2)"
    using r(4) i5(5,6) i6(4,5) mc d(2) t3 k(2) by (auto simp: mpu_chain_def m4_def t6)
  moreover have "page_core (fpages m6 i) = page_core (fpages m i)" for i
    using r(2) i5(3) i6(3) by (simp add: relinked_def m4_def)
  moreover have "ases m6 b = ases m b" if "b \<noteq> a" for b
    using that r(2) i5(3) i6(3) by (simp add: relinked_def m4_def)
  ultimately show ?thesis
    using that [of m6] r(1) k i5(1) i6(1,2) t3 t6 ok5 t5
    by (simp add: replace_page_def m4_def fpages_ok_def)
qed

lemma unat_page_end:
  assumes "page_lo m fp < unat sp" "unat sp < page_hi m fp" "page_hi m fp \<le> 4294967296"
  shows "unat (sp - fp_base (fpages m fp)) = unat sp - page_lo m fp"
    "unat (fp_base (fpages m fp) + push_bit (unat (fp_shift (fpages m fp))) 1 - sp) = page_hi m fp - unat sp"
    "sp \<noteq> fp_base (fpages m fp)"
    "sp \<noteq> fp_base (fpages m fp) + push_bit (unat (fp_shift (fpages m fp))) 1"
proof -
  let ?b = "fp_base (fpages m fp)" and ?s = "unat (fp_shift (fpages m fp))"
  have b: "unat ?b = page_lo m fp" by (simp add: page_lo_def)
  show "unat (sp - ?b) = unat sp - page_lo m fp" using assms(1) b unat_sub32 [of ?b sp] by simp
  show "sp \<noteq> ?b" using assms(1) b by auto
  have e: "?b + push_bit ?s 1 = (of_nat (page_hi m fp) :: u32)"
    by (simp add: page_hi_def flip: b)
  have "?b + push_bit ?s 1 - sp = of_nat (page_hi m fp) - of_nat (unat sp)" using e by simp
  also have "\<dots> = of_nat (page_hi m fp - unat sp)" using assms(2) by (simp add: of_nat_diff)
  finally have d: "?b + push_bit ?s 1 - sp = of_nat (page_hi m fp - unat sp)" .
  show u: "unat (?b + push_bit ?s 1 - sp) = page_hi m fp - unat sp"
    unfolding d using assms by (intro unat_of_nat32) linarith
  show "sp \<noteq> ?b + push_bit ?s 1"
  proof
    assume "sp = ?b + push_bit ?s 1"
    then have "unat (?b + push_bit ?s 1 - sp) = 0" by (simp only: diff_self unsigned_0)
    then show False using u assms(2) by linarith
  qed
qed

lemma as_chain_transfer:
  assumes "as_chain m a xs" "\<And>i. i \<in> set xs \<Longrightarrow> fpages m' i = fpages m i" "ases m' a = ases m a"
    "ktable_used (fpage_table m) \<subseteq> ktable_used (fpage_table m')"
  shows "as_chain m' a xs"
  using assms lseg_transfer [of "as_nexts m" "as_first (ases m a)" xs None "as_nexts m'"]
    ascending_cong [of xs m' m] by (auto simp: as_chain_def as_nexts_def)

lemma mpu_chain_transfer:
  assumes "mpu_chain m a xs" "\<And>i. i \<in> set xs \<Longrightarrow> fpages m' i = fpages m i" "ases m' a = ases m a"
    "ktable_used (fpage_table m) \<subseteq> ktable_used (fpage_table m')"
  shows "mpu_chain m' a xs"
  using assms lseg_transfer [of "mpu_nexts m" "mpu_first (ases m a)" xs None "mpu_nexts m'"]
  by (auto simp: mpu_chain_def mpu_nexts_def)

lemma split_fpage_spec:
  assumes ok: "fpages_ok m" and ch: "as_chain m a (us @ fp # vs)" and mc: "mpu_chain m a (us2 @ fp # vs2)"
    and un: "True \<notin> set (uninit m)" and unmapped: "map_next (fpages m fp) = Some fp"
    and al: "mempool_align mm (uint (fp_mpid (fpages m fp))) split = Inr sp"
    and sp: "page_lo m fp < unat sp" "unat sp < page_hi m fp" "page_hi m fp \<le> 4294967296"
    and room: "card (ktable_used (fpage_table m)) +
      length (fpage_tiling (fp_base (fpages m fp)) (sp - fp_base (fpages m fp))) +
      length (fpage_tiling sp (FPAGE_END (fpages m fp) - sp)) \<le> CONFIG_MAX_FPAGES"
  obtains ls rs m' where
    "split_fpage mm (Some a) (Some fp) split rl m = Inr (Some (if rl = 0 then last ls else hd rs), m')"
    "ls \<noteq> []" "rs \<noteq> []" "as_chain m' a (us @ ls @ rs @ vs)" "mpu_chain m' a (us2 @ vs2)" "fpages_ok m'"
    "tiled (page_lo m fp) (map (\<lambda>i. page_tile (fpages m' i)) ls) (unat sp)"
    "tiled (unat sp) (map (\<lambda>i. page_tile (fpages m' i)) rs) (page_hi m fp)"
    "ktable_used (fpage_table m') = (ktable_used (fpage_table m) - {fp}) \<union> set ls \<union> set rs"
    "\<And>i. i \<notin> set (ls @ rs) \<Longrightarrow> page_core (fpages m' i) = page_core (fpages m i)"
    "\<And>i. i \<in> set (ls @ rs) \<Longrightarrow> fp_mpid (fpages m' i) = fp_mpid (fpages m fp)"
proof -
  let ?b = "fp_base (fpages m fp)" and ?mpid = "uint (fp_mpid (fpages m fp))"
  define e where "e = ?b + push_bit (unat (fp_shift (fpages m fp))) 1"
  have fe: "FPAGE_END (fpages m fp) = e" by (simp add: FPAGE_END_def FPAGE_BASE_def FPAGE_SIZE_def e_def)
  note u = unat_page_end [OF sp, folded e_def]
  have nz: "sp - ?b \<noteq> 0" "e - sp \<noteq> 0" using u(3,4) by simp_all
  have b: "unat ?b = page_lo m fp" by (simp add: page_lo_def)
  obtain mp where mp: "memmap_at mm ?mpid = Inr mp" "?mpid \<noteq> - 1" using mempool_alignD [OF al] .
  obtain ls rs m1 m2 where c:
    "create_fpage_chain mm ?b (sp - ?b) ?mpid None None m = Inr (Some (hd ls), Some (last ls), m1)"
    "create_fpage_chain mm sp (e - sp) ?mpid None None m1 = Inr (Some (hd rs), Some (last rs), m2)"
    "ls \<noteq> []" "rs \<noteq> []"
    "made_pages mp ?mpid (ls @ rs) (fpage_tiling ?b (sp - ?b) @ fpage_tiling sp (e - sp)) m m2"
    "map (\<lambda>i. page_tile (fpages m2 i)) ls = fpage_tiling ?b (sp - ?b)"
    "map (\<lambda>i. page_tile (fpages m2 i)) rs = fpage_tiling sp (e - sp)"
    "lseg (as_nexts m2) (hd_opt ls) ls None" "lseg (as_nexts m2) (hd_opt rs) rs None"
    "\<And>i. i \<notin> set (ls @ rs) \<Longrightarrow> fpages m2 i = fpages m i"
    using create_two_chains [OF mp ok nz room [unfolded fe]] by metis
  have d: "set (ls @ rs) \<inter> ktable_used (fpage_table m) = {}" "distinct (ls @ rs)" "ases m2 = ases m"
    "uninit m2 = uninit m" "ktable_used (fpage_table m2) = ktable_used (fpage_table m) \<union> set (ls @ rs)"
    using c(5) unfolding made_pages_def by blast+
  have old: "fpages m2 i = fpages m i" if "i \<in> ktable_used (fpage_table m)" for i
    using c(10) d(1) that by blast
  have ch2: "as_chain m2 a (us @ fp # vs)"
    using old ch d(3,5) by (intro as_chain_transfer [OF ch]) (auto simp: as_chain_def)
  have mc2: "mpu_chain m2 a (us2 @ fp # vs2)"
    using old mc d(3,5) by (intro mpu_chain_transfer [OF mc]) (auto simp: mpu_chain_def)
  have tl: "tiled (page_lo m fp) (map (\<lambda>i. page_tile (fpages m2 i)) ls) (unat sp)"
    using fpage_tiling_tiled [of ?b "sp - ?b"] sp u(1) b c(6) unat_lt32 [of sp] by simp
  have tr: "tiled (unat sp) (map (\<lambda>i. page_tile (fpages m2 i)) rs) (page_hi m fp)"
    using fpage_tiling_tiled [of sp "e - sp"] sp u(2) c(7) by simp
  have new: "set (ls @ rs) \<inter> set (us @ fp # vs) = {}" "set ls \<inter> set rs = {}"
    "set (ls @ rs) \<subseteq> ktable_used (fpage_table m2)"
    using d ch by (auto simp: as_chain_def)
  have "page_lo m2 fp = page_lo m fp" "page_hi m2 fp = page_hi m fp"
    using old [of fp] ch by (auto simp: as_chain_def page_lo_def page_hi_def)
  then have asc: "ascending m2 (us @ ls @ rs @ vs)"
    using ch2 tiled_pages [OF tl] tiled_pages [OF tr] sp
    by (auto simp: as_chain_def ascending_append ascending_Cons) (meson le_trans less_imp_le)+
  obtain m' where r: "replace_page a fp ls rs m2 = Inr m'" "as_chain m' a (us @ ls @ rs @ vs)"
    "mpu_chain m' a (us2 @ vs2)" "fpages_ok m'"
    "ktable_used (fpage_table m') = ktable_used (fpage_table m2) - {fp}"
    "\<And>i. page_core (fpages m' i) = page_core (fpages m2 i)" "\<And>b. b \<noteq> a \<Longrightarrow> ases m' b = ases m2 b"
    using replace_page_spec [OF made_pages_ok [OF c(5) ok] ch2 mc2 un [folded d(4)] c(8,3,9,4) new asc] by metis
  have pc: "page_tile (fpages m' i) = page_tile (fpages m2 i)" "fp_mpid (fpages m' i) = fp_mpid (fpages m2 i)" for i
    using page_core_eqD [OF r(6)] by auto
  have "fp \<notin> set (ls @ rs)" using new(1) by auto
  then have used: "ktable_used (fpage_table m') = (ktable_used (fpage_table m) - {fp}) \<union> set ls \<union> set rs"
    using r(5) d(5) by auto
  have "fp_mpid (fpages m' i) = fp_mpid (fpages m fp)" if "i \<in> set (ls @ rs)" for i
    using that c(5) pc(2) [of i] by (simp add: made_pages_def fresh_page_def)
  moreover obtain m3 kt m5 where s: "remove_fpage_from_as a fp m2 = Inr m3"
    "ktable_free_slot (fpage_table m3) fp = Inr kt"
    "insert_fpage_chain_to_as a (Some (hd ls)) (Some (last ls)) (m3\<lparr>fpage_table := kt\<rparr>) = Inr m5"
    "insert_fpage_chain_to_as a (Some (hd rs)) (Some (last rs)) m5 = Inr m'"
    using r(1) by (auto simp: replace_page_def)
  have "split_fpage mm (Some a) (Some fp) split rl m = Inr (Some (if rl = 0 then last ls else hd rs), m')"
    unfolding split_fpage_def Let_def deref_simps bindF_simps e_def [symmetric] al
    using u(3,4) unmapped c(1,2) s by simp
  moreover have "page_core (fpages m' i) = page_core (fpages m i)" if "i \<notin> set (ls @ rs)" for i
    using r(6) c(10) [OF that] by simp
  ultimately show ?thesis using r c(3,4) tl tr used pc(1) by (intro that [of ls rs m']) simp_all
qed

section \<open>Properties of chains of pages\<close>

text \<open>An empty memory state: no page and no address space is allocated.\<close>

definition null_fpage :: fpage_t where
  "null_fpage = \<lparr>as_next = None, map_next = None, mpu_next = None, fp_base = 0, fp_mpid = 0,
     fp_flags = 0, fp_shift = 0, fp_rwx = 0, fp_used = 0\<rparr>"

definition null_as :: as_t where
  "null_as = \<lparr>as_spaceid = 0, as_first = None, mpu_first = None, mpu_stack_first = None, as_shared = 0\<rparr>"

definition demo_mem :: mem_t where
  "demo_mem = \<lparr>fpage_table = DECLARE_KTABLE ''fpage_table'' 0x20001000 24 CONFIG_MAX_FPAGES,
     fpages = (\<lambda>_. null_fpage), as_table = DECLARE_KTABLE ''as_table'' 0x20000500 20 CONFIG_MAX_ADRESS_SPACES,
     ases = (\<lambda>_. null_as), mmio = [], uninit = []\<rparr>"

lemma demo_mem_ok: "fpages_ok demo_mem" "ktable_used (fpage_table demo_mem) = {}"
  by (simp_all add: demo_mem_def fpages_ok_def CONFIG_MAX_FPAGES_def)

text \<open>
  C4: laying a chain of pages over a region always ends. The pages of the chain follow each other
  without gap or overlap from the first address of the region to its last, each at a multiple
  of its own power-of-two size, which is what the memory protection unit requires; each takes a
  fresh slot with the permissions of its pool and no other page changes. It fails only when
  the table lacks the slots, in the assertion of \<open>create_fpage\<close>.
\<close>

theorem create_fpage_chain_tiles:
  assumes "memmap_at mm mpid = Inr mp" "mpid \<noteq> - 1" "ktable_ok (fpage_table m)" "sz \<noteq> 0"
    "unat base + unat sz \<le> 4294967296"
    "card (ktable_used (fpage_table m)) + length (fpage_tiling base sz) \<le> ktable_cap (fpage_table m)"
  shows "\<exists>xs m'. create_fpage_chain mm base sz mpid None None m = Inr (Some (hd xs), Some (last xs), m') \<and>
     lseg (as_nexts m') (Some (hd xs)) xs None \<and>
     tiled (unat base) (map (\<lambda>i. page_tile (fpages m' i)) xs) (unat base + unat sz) \<and>
     made_pages mp mpid xs (fpage_tiling base sz) m m' \<and> (\<forall>i. i \<notin> set xs \<longrightarrow> fpages m' i = fpages m i)"
proof -
  obtain xs m' where x:
    "create_fpage_chain mm base sz mpid None None m = Inr (Some (hd xs), Some (last xs), m')"
    "xs \<noteq> []" "made_pages mp mpid xs (fpage_tiling base sz) m m'"
    "lseg (as_nexts m') (hd_opt xs) xs None" "\<And>i. i \<notin> set xs \<Longrightarrow> fpages m' i = fpages m i"
    using create_fpage_chain_spec [OF assms(1-4,6)] by metis
  moreover have "map (\<lambda>i. page_tile (fpages m' i)) xs = fpage_tiling base sz"
    using x(3) by (simp add: made_pages_def)
  ultimately show ?thesis using fpage_tiling_tiled [OF assms(5)] by (auto simp: hd_opt_hd)
qed

theorem create_fpage_chain_tiles_witness:
  "\<exists>xs m'. create_fpage_chain (memmap demo_link) 0x20003100 0x1300 7 None None demo_mem =
       Inr (Some (hd xs), Some (last xs), m') \<and>
     tiled 0x20003100 (map (\<lambda>i. page_tile (fpages m' i)) xs) 0x20004400 \<and> length xs = 5"
proof -
  have t: "fpage_tiling 0x20003100 0x1300 =
      [(0x20003100, 8), (0x20003200, 9), (0x20003400, 10), (0x20003800, 11), (0x20004000, 10)]" by code_simp
  have m: "memmap_at (memmap demo_link) 7 = Inr (memmap demo_link ! 7)" by code_simp
  obtain xs m' where x: "create_fpage_chain (memmap demo_link) 0x20003100 0x1300 7 None None demo_mem =
       Inr (Some (hd xs), Some (last xs), m')"
     "tiled 0x20003100 (map (\<lambda>i. page_tile (fpages m' i)) xs) 0x20004400"
     "made_pages (memmap demo_link ! 7) 7 xs (fpage_tiling 0x20003100 0x1300) demo_mem m'"
    using create_fpage_chain_tiles [OF m, of demo_mem "0x1300" "0x20003100"] demo_mem_ok
    by (auto simp: fpages_ok_def t CONFIG_MAX_FPAGES_def)
  moreover have "length xs = 5" using x(3) made_pages_card(2) [OF x(3)] demo_mem_ok by (simp add: fpages_ok_def t)
  ultimately show ?thesis by blast
qed


text \<open>A page of 4 KiB at the start of the free memory, in the first slot and the first address
  space.\<close>

definition demo_page_mem :: mem_t where
  "demo_page_mem = demo_mem\<lparr>
     fpage_table := (fpage_table demo_mem)\<lparr>bitmap := [1, 0, 0, 0, 0, 0, 0, 0]\<rparr>,
     fpages := (\<lambda>_. null_fpage)(0 := null_fpage\<lparr>map_next := Some 0, fp_base := 0x20003000, fp_mpid := 7,
       fp_shift := 12, fp_rwx := 3\<rparr>),
     ases := (\<lambda>_. null_as)(0 := null_as\<lparr>as_first := Some 0, mpu_first := Some 0\<rparr>)\<rparr>"

lemma demo_page_mem_used: "ktable_used (fpage_table demo_page_mem) = {0}"
proof -
  have "bm_has [1, 0, 0, 0, 0, 0, 0, 0] i \<longleftrightarrow> i = 0" if "i < 256" for i
    using that by (auto simp: bm_has_def nth_Cons' bit_1_iff div_eq_0_iff)
  then show ?thesis
    by (auto simp: ktable_used_def demo_page_mem_def demo_mem_def DECLARE_KTABLE_def CONFIG_MAX_FPAGES_def)
qed

lemma demo_page_mem_ok:
  "fpages_ok demo_page_mem" "as_chain demo_page_mem 0 [0]" "mpu_chain demo_page_mem 0 [0]"
  "page_lo demo_page_mem 0 = 0x20003000" "page_hi demo_page_mem 0 = 0x20004000"
proof -
  show "fpages_ok demo_page_mem"
    using demo_mem_ok(1) by (simp add: fpages_ok_def demo_page_mem_def demo_mem_def DECLARE_KTABLE_def
        CONFIG_MAX_FPAGES_def ktable_ok_def ktable_cap_def bm_room_def)
  show "as_chain demo_page_mem 0 [0]" "mpu_chain demo_page_mem 0 [0]"
    using demo_page_mem_used by (simp_all add: as_chain_def mpu_chain_def as_nexts_def mpu_nexts_def
        ascending_def demo_page_mem_def null_fpage_def)
  show "page_lo demo_page_mem 0 = 0x20003000" "page_hi demo_page_mem 0 = 0x20004000"
    by (simp_all add: page_lo_def page_hi_def demo_page_mem_def)
qed


end
