(* ===== verification/F9_Fpage_Assign.thy ===== *)
theory F9_Fpage_Assign
  imports F9_Fpage_Spec
begin

text \<open>
  Filling an address space (\<open>assign_fpages_ext\<close> of \<^verbatim>\<open>kernel/fpage.c\<close>): the parts of a region
  that no page of the address space covers receive new pages, in order, and the pages that
  were there stay. The only way to fail is the assertion in \<open>create_fpage\<close> when the table of
  pages is full.
\<close>

section \<open>Running out of pages\<close>

lemma create_fpage_full:
  assumes "ktable_ok (fpage_table m)" "ktable_cap (fpage_table m) \<le> card (ktable_used (fpage_table m))"
  shows "create_fpage mm base sh mpid m = Inl (Panic ''assert'')"
  using assms kt.full_iff_card kt.alloc_full by (simp add: create_fpage_def)

lemma create_fpage_chain_loop_full:
  assumes mp: "memmap_at mm mpid = Inr mp" "mpid \<noteq> - 1"
  shows "ktable_ok (fpage_table m) \<Longrightarrow> (pfirst \<noteq> None \<Longrightarrow> fpage \<noteq> None) \<Longrightarrow>
    ktable_cap (fpage_table m) < card (ktable_used (fpage_table m)) + length (fpage_tiling base sz) \<Longrightarrow>
    create_fpage_chain_loop mm mpid fpage base sz pfirst plast m = Inl (Panic ''assert'') \<or>
    card (ktable_used (fpage_table m)) > ktable_cap (fpage_table m)"
proof (induction base sz arbitrary: fpage pfirst plast m rule: fpage_tiling.induct)
  case (1 base sz)
  show ?case
  proof (cases "sz = 0")
    case True
    then show ?thesis using 1(4) by (simp add: fpage_tiling.simps)
  next
    case False
    define s where "s = chain_shift base sz"
    define b' sz' where "b' = base + push_bit s 1" and "sz' = sz - push_bit s 1"
    have t: "fpage_tiling base sz = (base, s) # fpage_tiling b' sz'"
      using False by (subst fpage_tiling.simps) (simp only: s_def b'_def sz'_def Let_def if_False)
    have s: "s < 32" using chain_shift_ok(1) [OF False] by (simp add: s_def)
    note unfold = create_fpage_chain_loop.simps [of mm mpid fpage base sz pfirst plast m,
        unfolded Let_def, folded s_def, folded b'_def sz'_def]
    show ?thesis
    proof (cases "card (ktable_used (fpage_table m)) < ktable_cap (fpage_table m)")
      case True
      obtain i m1 where c: "create_fpage mm base (of_nat s) mpid m = Inr (i, m1)"
        "made_pages mp mpid [i] [(base, s)] m m1"
        "card (ktable_used (fpage_table m1)) = Suc (card (ktable_used (fpage_table m)))"
        using create_fpage_spec [OF mp 1(2) s True] by metis
      have k: "ktable_ok (fpage_table m1)" "ktable_cap (fpage_table m1) = ktable_cap (fpage_table m)"
        using c(2) by (auto simp: made_pages_def)
      have IH: "create_fpage_chain_loop mm mpid (Some i) b' sz' pf pl m' = Inl (Panic ''assert'')"
        if "fpage_table m' = fpage_table m1" for pf pl m'
        using 1(1) [OF False s_def, of m' pf "Some i" pl, folded b'_def sz'_def] k c(3) 1(4) True that by (simp add: t)
      show ?thesis using c(1) IH False 1(3) unfold by (auto simp: upd_fpage_def split: if_splits)
    next
      case False
      then show ?thesis using create_fpage_full [OF 1(2)] unfold \<open>sz \<noteq> 0\<close> by auto
    qed
  qed
qed

text \<open>Every call over a region that is not empty either lays the tiling of the region or stops
  in the assertion, the latter exactly when the table lacks the slots.\<close>

lemma create_fpage_chain_full:
  assumes "memmap_at mm mpid = Inr mp" "mpid \<noteq> - 1" "ktable_ok (fpage_table m)"
    "ktable_cap (fpage_table m) < card (ktable_used (fpage_table m)) + length (fpage_tiling base sz)"
  shows "create_fpage_chain mm base sz mpid None None m = Inl (Panic ''assert'')"
proof -
  have "card (ktable_used (fpage_table m)) \<le> ktable_cap (fpage_table m)"
    using card_mono [OF _ kt.used_bound [OF assms(3)]] by simp
  then show ?thesis unfolding create_fpage_chain_def
    using create_fpage_chain_loop_full [OF assms(1,2,3) _ assms(4), of None None None] by simp
qed

lemma create_fpage_chain_cases:
  assumes "memmap_at mm mpid = Inr mp" "mpid \<noteq> - 1" "ktable_ok (fpage_table m)" "sz \<noteq> 0"
  obtains (full) "create_fpage_chain mm base sz mpid None None m = Inl (Panic ''assert'')"
  | (made) xs m' where
    "create_fpage_chain mm base sz mpid None None m = Inr (Some (hd xs), Some (last xs), m')"
    "xs \<noteq> []" "made_pages mp mpid xs (fpage_tiling base sz) m m'"
    "lseg (as_nexts m') (hd_opt xs) xs None" "\<And>i. i \<notin> set xs \<Longrightarrow> fpages m' i = fpages m i"
proof (cases "card (ktable_used (fpage_table m)) + length (fpage_tiling base sz) \<le> ktable_cap (fpage_table m)")
  case True
  then show ?thesis using create_fpage_chain_spec [OF assms True] made by metis
next
  case False
  then show ?thesis using create_fpage_chain_full [OF assms(1-3)] full by (meson not_le)
qed

section \<open>Links as positions in a chain\<close>

definition link_of :: "nat \<Rightarrow> nat list \<Rightarrow> fplink" where
  "link_of a us = (if us = [] then AtFirst a else AtNext (last us))"

lemma read_link_of:
  assumes "lseg (as_nexts m) (as_first (ases m a)) (us @ vs) None"
  shows "read_link m (link_of a us) = hd_opt vs"
proof (cases "us = []")
  case True
  then show ?thesis using assms lseg_hd [OF assms] by (simp add: link_of_def)
next
  case False
  from assms obtain r where "lseg (as_nexts m) (as_first (ases m a)) us r" "lseg (as_nexts m) r vs None"
    by (auto simp: lseg_append)
  then show ?thesis using False lseg_end_next lseg_hd by (fastforce simp: link_of_def as_nexts_def)
qed

lemma read_link_as_chain: "as_chain m a (us @ vs) \<Longrightarrow> read_link m (link_of a us) = hd_opt vs"
  by (rule read_link_of) (simp add: as_chain_def)

text \<open>Writing through the link puts a chain between the pages before and after it.\<close>

lemma link_insert:
  assumes ch: "as_chain m a (us @ vs)" and ys: "lseg (as_nexts m) (hd_opt ys) ys None" "ys \<noteq> []"
    and new: "set ys \<inter> set (us @ vs) = {}" "set ys \<subseteq> ktable_used (fpage_table m)"
    and asc: "ascending m (us @ ys @ vs)"
  defines "m' \<equiv> write_link (link_of a us) (Some (hd ys)) (upd_fpage (last ys) (as_next_update (\<lambda>_. hd_opt vs)) m)"
  shows "as_chain m' a (us @ ys @ vs)" "relinked a m m'"
proof -
  let ?nx = "(as_nexts m)(last ys := hd_opt vs)"
  have c: "lseg (as_nexts m) (as_first (ases m a)) (us @ vs) None" using ch by (simp add: as_chain_def)
  have d: "distinct (us @ vs)" "distinct ys" using lseg_None_distinct c ys(1) by blast+
  have ly: "last ys \<notin> set (us @ vs)" using new(1) last_in_set [OF ys(2)] by auto
  obtain r where "lseg (as_nexts m) (as_first (ases m a)) us r" "lseg (as_nexts m) r vs None"
    using c by (auto simp: lseg_append)
  then have uv: "lseg ?nx (as_first (ases m a)) us (hd_opt vs)" "lseg ?nx (hd_opt vs) vs None"
    using ly lseg_hd by auto
  have y: "lseg ?nx (Some (hd ys)) ys (hd_opt vs)" using lseg_redirect [OF ys d(2)] ys(2) by (simp add: hd_opt_hd)
  show rel: "relinked a m m'"
    by (auto simp: m'_def link_of_def relinked_def page_core_def upd_fpage_def upd_as_def)
  have "lseg (as_nexts m') (as_first (ases m' a)) (us @ ys @ vs) None"
  proof (cases "us = []")
    case True
    then have "as_nexts m' = ?nx" "as_first (ases m' a) = Some (hd ys)"
      by (auto simp: m'_def link_of_def upd_fpage_link)
    moreover have "lseg ?nx (Some (hd ys)) (ys @ vs) None" using y uv(2) unfolding lseg_append by blast
    ultimately show ?thesis using True by simp
  next
    case False
    have lu: "last us \<notin> set ys" "last us \<notin> set vs" using last_in_set [OF False] new(1) d by auto
    have n: "as_nexts m' = ?nx(last us := Some (hd ys))" "as_first (ases m' a) = as_first (ases m a)"
      using False by (auto simp: m'_def link_of_def upd_fpage_link)
    have "lseg (as_nexts m') (as_first (ases m a)) us (Some (hd ys))"
      unfolding n(1) using uv(1) False d(1) by (intro lseg_redirect) auto
    moreover have "lseg (as_nexts m') (Some (hd ys)) ys (hd_opt vs)" "lseg (as_nexts m') (hd_opt vs) vs None"
      unfolding n(1) using y uv(2) lu by simp_all
    ultimately show ?thesis unfolding n(2) lseg_append by blast
  qed
  then show "as_chain m' a (us @ ys @ vs)"
    using asc relinked_ascending [OF rel] ch new(2) rel by (auto simp: as_chain_def relinked_def)
qed

section \<open>Covered addresses\<close>

definition cover :: "mem_t \<Rightarrow> nat list \<Rightarrow> nat set" where
  "cover m xs = (\<Union>i\<in>set xs. {page_lo m i..<page_hi m i})"

lemma cover_append [simp]: "cover m (xs @ ys) = cover m xs \<union> cover m ys"
  by (auto simp: cover_def)

lemma cover_cong:
  "(\<And>i. i \<in> set xs \<Longrightarrow> page_tile (fpages m' i) = page_tile (fpages m i)) \<Longrightarrow> cover m' xs = cover m xs"
  by (simp add: cover_def page_tile_def page_lo_def page_hi_def)

lemma cover_tiled: "tiled a (map (\<lambda>i. page_tile (fpages m i)) xs) b \<Longrightarrow> cover m xs = {a..<b}"
  using tiled_covers [of a "map (\<lambda>i. page_tile (fpages m i)) xs" b]
  by (simp add: cover_def page_tile_def page_lo_def page_hi_def)

text \<open>From \<open>m\<close> to \<open>m'\<close> pages may have been added, none was lost or moved, and only links and
  address space \<open>a\<close> changed otherwise.\<close>

definition grown :: "nat \<Rightarrow> mem_t \<Rightarrow> mem_t \<Rightarrow> bool" where
  "grown a m m' \<longleftrightarrow>
     ktable_used (fpage_table m) \<subseteq> ktable_used (fpage_table m') \<and>
     (\<forall>i\<in>ktable_used (fpage_table m). page_core (fpages m' i) = page_core (fpages m i)) \<and>
     (\<forall>b. b \<noteq> a \<longrightarrow> ases m' b = ases m b) \<and>
     as_table m' = as_table m \<and> mmio m' = mmio m \<and> set (uninit m') \<subseteq> set (uninit m)"

lemma grown_refl [simp]: "grown a m m"
  by (simp add: grown_def)

lemma grown_trans: "grown a m m' \<Longrightarrow> grown a m' m'' \<Longrightarrow> grown a m m''"
  by (auto simp: grown_def)

lemma made_pages_grown:
  "made_pages mp mpid xs ts m m' \<Longrightarrow> (\<And>i. i \<notin> set xs \<Longrightarrow> fpages m' i = fpages m i) \<Longrightarrow> grown a m m'"
  unfolding made_pages_def grown_def by (metis disjoint_iff sup_ge1 order_refl)

lemma relinked_grown: "relinked a m m' \<Longrightarrow> grown a m m'"
  by (simp add: relinked_def grown_def)

lemma grown_tile: "grown a m m' \<Longrightarrow> i \<in> ktable_used (fpage_table m) \<Longrightarrow> page_tile (fpages m' i) = page_tile (fpages m i)"
  by (rule page_core_eqD(1)) (simp add: grown_def)

section \<open>The loop over the pages of the address space\<close>

text \<open>Pages at multiples of the granularity of 256 bytes, below the end of the address range.\<close>

definition granular :: "mem_t \<Rightarrow> nat list \<Rightarrow> bool" where
  "granular m xs \<longleftrightarrow>
     (\<forall>i\<in>set xs. 256 dvd page_lo m i \<and> 256 dvd page_hi m i \<and> page_hi m i < 4294967296)"

lemma unat_FPAGE_END: "page_hi m q < 4294967296 \<Longrightarrow> unat (FPAGE_END (fpages m q)) = page_hi m q"
proof -
  assume "page_hi m q < 4294967296"
  moreover have "FPAGE_END (fpages m q) = of_nat (page_hi m q)"
    by (simp add: FPAGE_END_def FPAGE_BASE_def FPAGE_SIZE_def page_hi_def page_lo_def)
  ultimately show ?thesis by (simp only: unat_of_nat32)
qed

lemma unat_FPAGE_BASE: "unat (FPAGE_BASE (fpages m q)) = page_lo m q"
  by (simp add: FPAGE_BASE_def page_lo_def)

text \<open>Laying pages over a gap at a link.\<close>

lemma fill_gap:
  assumes mp: "memmap_at mm mpid = Inr mp" "mpid \<noteq> - 1" "mp_flags mp AND MP_FPAGE_MASK \<noteq> 0"
    and ok: "fpages_ok m" and ch: "as_chain m a (us @ vs)"
    and al: "256 dvd unat base" "256 dvd unat sz" "sz \<noteq> 0" "unat base + unat sz \<le> 4294967296"
    and lo: "\<forall>u\<in>set us. page_hi m u \<le> unat base" and hi: "\<forall>v\<in>set vs. unat base + unat sz \<le> page_lo m v"
  obtains (full) "create_aligned_chain mm mpid base sz None None m = Inl (Panic ''assert'')"
  | (made) ys m1 m2 where
      "create_aligned_chain mm mpid base sz None None m = Inr (Some (hd ys), Some (last ys), m1)"
      "m2 = write_link (link_of a us) (Some (hd ys)) (upd_fpage (last ys) (as_next_update (\<lambda>_. hd_opt vs)) m1)"
      "ys \<noteq> []" "as_chain m2 a (us @ ys @ vs)" "fpages_ok m2" "grown a m m2"
      "as_next (fpages m1 (last ys)) = None" "cover m2 ys = {unat base..<unat base + unat sz}"
      "\<forall>y\<in>set ys. unat base \<le> page_lo m2 y \<and> page_hi m2 y \<le> unat base + unat sz"
      "\<forall>i\<in>set ys. fresh_page mp mpid i (fpages m2 i)"
proof -
  have c: "create_aligned_chain mm mpid base sz None None m = create_fpage_chain mm base sz mpid None None m"
    using mempool_align_fix [OF mp(1,3)] al by (simp add: create_aligned_chain_def)
  have k: "ktable_ok (fpage_table m)" using ok by (simp add: fpages_ok_def)
  show ?thesis
  proof (cases rule: create_fpage_chain_cases [OF mp(1,2) k al(3), of base, case_names f m])
    case f
    then show ?thesis using c full by simp
  next
    case (m ys m1)
    define m2 where "m2 = write_link (link_of a us) (Some (hd ys))
      (upd_fpage (last ys) (as_next_update (\<lambda>_. hd_opt vs)) m1)"
    have t: "tiled (unat base) (map (\<lambda>i. page_tile (fpages m1 i)) ys) (unat base + unat sz)"
      using fpage_tiling_tiled [OF al(4)] m(3) by (simp add: made_pages_def)
    have mk: "set ys \<inter> ktable_used (fpage_table m) = {}" "ases m1 = ases m"
      "ktable_used (fpage_table m1) = ktable_used (fpage_table m) \<union> set ys"
      using m(3) by (auto simp: made_pages_def)
    have old: "fpages m1 i = fpages m i" if "i \<in> ktable_used (fpage_table m)" for i
      using m(5) mk(1) that by blast
    have ch1: "as_chain m1 a (us @ vs)"
      using ch old mk by (intro as_chain_transfer [OF ch]) (auto simp: as_chain_def)
    have pos: "page_lo m1 i = page_lo m i \<and> page_hi m1 i = page_hi m i" if "i \<in> set (us @ vs)" for i
      using that old ch by (intro page_pos_cong) (auto simp: as_chain_def)
    have asc: "ascending m1 (us @ ys @ vs)"
      using tiled_pages [OF t] ch1 lo hi pos
      by (auto simp: as_chain_def ascending_append) (meson le_trans)+
    have new: "set ys \<inter> set (us @ vs) = {}" "set ys \<subseteq> ktable_used (fpage_table m1)"
      using mk ch by (auto simp: as_chain_def)
    note li = link_insert [OF ch1 m(4,2) new asc, folded m2_def]
    have tile: "page_tile (fpages m2 i) = page_tile (fpages m1 i)" for i using relinked_tile [OF li(2)] .
    have "cover m2 ys = {unat base..<unat base + unat sz}"
      using cover_tiled [OF t] cover_cong [of ys m2 m1] tile by simp
    moreover have "\<forall>y\<in>set ys. unat base \<le> page_lo m2 y \<and> page_hi m2 y \<le> unat base + unat sz"
      using tiled_pages [OF t] relinked_pos [OF li(2)] by simp
    moreover have "grown a m m2"
      using made_pages_grown [OF m(3,5)] relinked_grown [OF li(2)] grown_trans by blast
    moreover have "fpages_ok m2"
      using made_pages_ok [OF m(3) ok] li(2) by (simp add: fpages_ok_def relinked_def)
    moreover have "as_next (fpages m1 (last ys)) = None"
      using lseg_end_next [OF m(4,2)] by (simp add: as_nexts_def)
    moreover have "\<forall>i\<in>set ys. fresh_page mp mpid i (fpages m2 i)"
    proof
      fix i assume "i \<in> set ys"
      then have "fresh_page mp mpid i (fpages m1 i)" using m(3) by (simp add: made_pages_def)
      moreover have "mpu_next (fpages m2 i) = mpu_next (fpages m1 i)"
        by (simp add: m2_def link_of_def upd_fpage_def upd_as_def)
      moreover have "page_core (fpages m2 i) = page_core (fpages m1 i)" using li(2) by (simp add: relinked_def)
      note page_core_eqD [OF this]
      ultimately show "fresh_page mp mpid i (fpages m2 i)" by (simp add: fresh_page_def)
    qed
    ultimately show ?thesis using made [OF _ m2_def m(2) li(1)] c m(1) by simp
  qed
qed

text \<open>What the loop has achieved when it leaves at the link behind the pages \<open>us'\<close>.\<close>

definition assigned ::
  "nat \<Rightarrow> memptr \<Rightarrow> memptr \<Rightarrow> nat list \<Rightarrow> mem_t \<Rightarrow> nat list \<Rightarrow> nat list \<Rightarrow> memptr \<Rightarrow> mem_t \<Rightarrow> bool" where
  "assigned a lim base xs m us' vs' base' m' \<longleftrightarrow>
     fpages_ok m' \<and> as_chain m' a (us' @ vs') \<and> (vs' = [] \<or> lim \<le> base') \<and>
     (\<forall>u\<in>set us'. page_hi m' u \<le> unat base') \<and> base \<le> base' \<and> 256 dvd unat base' \<and>
     cover m' (us' @ vs') = cover m xs \<union> {unat base..<min (unat base') (unat lim)} \<and>
     grown a m m' \<and> set xs \<subseteq> set (us' @ vs')"

lemma assigned_step:
  assumes "assigned a lim b1 xs1 m1 us' vs' base' m'" "grown a m m1" "base \<le> b1" "set xs \<subseteq> set xs1"
    "cover m1 xs1 = cover m xs \<union> {unat base..<min (unat b1) (unat lim)}"
  shows "assigned a lim base xs m us' vs' base' m'"
proof -
  have "unat base \<le> unat b1" "unat b1 \<le> unat base'"
    using assms(1,3) by (auto simp: assigned_def word_le_nat_alt)
  then have "{unat base..<min (unat b1) (unat lim)} \<union> {unat b1..<min (unat base') (unat lim)} =
      {unat base..<min (unat base') (unat lim)}" by auto
  then show ?thesis using assms grown_trans unfolding assigned_def by (auto intro: grown_trans)
qed

text \<open>One turn of the loop at a page behind a gap.\<close>

lemma assign_fpages_loop_gap:
  assumes mp: "memmap_at mm mpid = Inr mp" "mpid \<noteq> - 1" "mp_flags mp AND MP_FPAGE_MASK \<noteq> 0"
    and lim: "256 dvd unat lim" and ok: "fpages_ok m" and ch: "as_chain m a (us @ q # vs)"
    and gr: "granular m (q # vs)" and lo: "\<forall>u\<in>set us. page_hi m u \<le> unat base" and al: "256 dvd unat base"
    and gap: "base < lim" "unat base < page_lo m q"
  obtains (full) "assign_fpages_loop (Suc k) mm mpid lim (link_of a us) base pf pl m = Inl (Panic ''assert'')"
  | (step) ys m2 pf' pl' where
      "assign_fpages_loop (Suc k) mm mpid lim (link_of a us) base pf pl m =
       assign_fpages_loop k mm mpid lim (AtNext q) (FPAGE_END (fpages m2 q)) pf' pl' m2"
      "as_chain m2 a ((us @ ys @ [q]) @ vs)" "fpages_ok m2" "grown a m m2" "granular m2 vs"
      "unat (FPAGE_END (fpages m2 q)) = page_hi m q"
      "\<forall>u\<in>set (us @ ys @ [q]). page_hi m2 u \<le> page_hi m q"
      "cover m2 ((us @ ys @ [q]) @ vs) = cover m (us @ q # vs) \<union> {unat base..<min (page_hi m q) (unat lim)}"
proof -
  define sz where "sz = (if lim < FPAGE_BASE (fpages m q) then lim else FPAGE_BASE (fpages m q)) - base"
  define top where "top = min (unat lim) (page_lo m q)"
  have q: "256 dvd page_lo m q" "page_hi m q < 4294967296" "granular m vs" using gr by (auto simp: granular_def)
  have qo: "\<forall>v\<in>set vs. page_hi m q \<le> page_lo m v"
    using ch by (auto simp: as_chain_def ascending_append ascending_Cons)
  have less: "x < FPAGE_BASE (fpages m q) \<longleftrightarrow> unat x < page_lo m q" for x
    using unat_FPAGE_BASE by (simp add: word_less_nat_alt)
  have bl: "unat base < unat lim" using gap(1) by (simp add: word_less_nat_alt)
  have usz: "unat base + unat sz = top" unfolding sz_def top_def less
    using gap bl by (auto simp: unat_sub32 unat_FPAGE_BASE)
  then have sz: "sz \<noteq> 0" using bl gap(2) by (auto simp: top_def)
  have "256 dvd top" using lim q(1) by (simp add: top_def min_def)
  then have sz2: "256 dvd unat sz" using usz al by (metis dvd_add_right_iff)
  have t32: "unat base + unat sz \<le> 4294967296" using unat_lt32 [of lim] unfolding usz by (simp add: top_def)
  have hi: "\<forall>v\<in>set (q # vs). unat base + unat sz \<le> page_lo m v"
    using qo page_lo_less_hi [of m q] unfolding usz top_def by fastforce
  have ins: "assign_fpages_loop (Suc k) mm mpid lim (link_of a us) base pf pl m =
      bindF (create_aligned_chain mm mpid base sz None None m) (\<lambda>(first, lst, m).
        bindF (deref lst) (\<lambda>l. let m = write_link (link_of a us) first (upd_fpage l (as_next_update (\<lambda>_. Some q)) m) in
          assign_fpages_loop k mm mpid lim (AtNext q) (FPAGE_END (fpages m q))
            (if pf = None then first else pf) lst m))"
    using gap read_link_as_chain [OF ch] less by (simp add: sz_def)
  show ?thesis
  proof (cases rule: fill_gap [OF mp ok ch al sz2 sz t32 lo hi, case_names f m])
    case f
    then show ?thesis using ins full by simp
  next
    case (m ys m1 m2)
    have used: "set (us @ q # vs) \<subseteq> ktable_used (fpage_table m)" using ch by (simp add: as_chain_def)
    have tile: "page_tile (fpages m2 i) = page_tile (fpages m i)" if "i \<in> set (us @ q # vs)" for i
      using that used grown_tile [OF m(6)] by auto
    have pos: "page_lo m2 i = page_lo m i \<and> page_hi m2 i = page_hi m i" if "i \<in> set (us @ q # vs)" for i
      using tile [OF that] by (rule page_pos_cong)
    have E2: "unat (FPAGE_END (fpages m2 q)) = page_hi m q" using unat_FPAGE_END [of m2 q] pos [of q] q(2) by simp
    have bnd: "page_hi m2 u \<le> page_hi m q" if u: "u \<in> set (us @ ys @ [q])" for u
    proof -
      consider "u \<in> set us" | "u \<in> set ys" | "u = q" using u by auto
      then show ?thesis using m(9) lo pos gap usz page_lo_less_hi [of m q] unfolding top_def by cases fastforce+
    qed
    have "cover m2 (us @ q # vs) = cover m (us @ q # vs)" using tile by (rule cover_cong)
    then have "cover m2 ((us @ ys @ [q]) @ vs) = cover m (us @ q # vs) \<union> {unat base..<top}"
      using m(8) usz by (auto simp: cover_def)
    also have "\<dots> = cover m (us @ q # vs) \<union> {unat base..<min (page_hi m q) (unat lim)}"
      using gap page_lo_less_hi [of m q] by (auto simp: cover_def top_def)
    finally have cov: "cover m2 ((us @ ys @ [q]) @ vs) =
        cover m (us @ q # vs) \<union> {unat base..<min (page_hi m q) (unat lim)}" .
    have g2: "granular m2 vs" using q(3) pos by (simp add: granular_def)
    have ch2: "as_chain m2 a ((us @ ys @ [q]) @ vs)" using m(4) by simp
    have eq: "assign_fpages_loop (Suc k) mm mpid lim (link_of a us) base pf pl m =
        assign_fpages_loop k mm mpid lim (AtNext q) (FPAGE_END (fpages m2 q))
          (if pf = None then Some (hd ys) else pf) (Some (last ys)) m2"
      unfolding ins m(1) m(2) by (simp only: bindF_simps deref_simps prod.case Let_def hd_opt_simps)
    show ?thesis using bnd by (intro step [OF eq ch2 m(5,6) g2 E2 _ cov]) blast
  qed
qed

lemma assign_fpages_loop_spec:
  assumes mp: "memmap_at mm mpid = Inr mp" "mpid \<noteq> - 1" "mp_flags mp AND MP_FPAGE_MASK \<noteq> 0"
    and lim: "256 dvd unat lim"
  shows "fpages_ok m \<Longrightarrow> as_chain m a (us @ vs) \<Longrightarrow> granular m vs \<Longrightarrow>
    \<forall>u\<in>set us. page_hi m u \<le> unat base \<Longrightarrow> 256 dvd unat base \<Longrightarrow> length vs < n \<Longrightarrow>
    assign_fpages_loop n mm mpid lim (link_of a us) base pf pl m = Inl (Panic ''assert'') \<or>
    (\<exists>us' vs' base' pf' pl' m'.
       assign_fpages_loop n mm mpid lim (link_of a us) base pf pl m =
         Inr (link_of a us', base', pf', pl', m') \<and>
       assigned a lim base (us @ vs) m us' vs' base' m')"
proof (induction vs arbitrary: us base pf pl m n)
  case Nil
  have "read_link m (link_of a us) = None" using read_link_as_chain [OF Nil(2)] by simp
  moreover obtain k where "n = Suc k" using Nil(6) by (cases n) auto
  ultimately show ?case using Nil
    by (intro disjI2 exI [of _ us] exI [of _ "[]"] exI [of _ base]) (auto simp: assigned_def)
next
  case (Cons q vs)
  then obtain k where n: "n = Suc k" by (cases n) auto
  have rl: "read_link m (link_of a us) = Some q" using read_link_as_chain [OF Cons(3)] by simp
  have q: "256 dvd page_lo m q" "256 dvd page_hi m q" "page_hi m q < 4294967296" "granular m vs"
    using Cons(4) by (auto simp: granular_def)
  have qo: "\<forall>v\<in>set vs. page_hi m q \<le> page_lo m v" using Cons(3) by (auto simp: as_chain_def ascending_append ascending_Cons)
  have lq: "link_of a (us @ [q]) = AtNext q" by (simp add: link_of_def)
  have E: "unat (FPAGE_END (fpages m q)) = page_hi m q" using q(3) by (rule unat_FPAGE_END)
  have less: "x < FPAGE_BASE (fpages m q) \<longleftrightarrow> unat x < page_lo m q"
    "x < FPAGE_END (fpages m q) \<longleftrightarrow> unat x < page_hi m q" for x
    using E unat_FPAGE_BASE by (simp_all add: word_less_nat_alt)
  consider (over) "\<not> base < lim" | (gap) "base < lim" "unat base < page_lo m q"
    | (inside) "base < lim" "page_lo m q \<le> unat base" "unat base < page_hi m q"
    | (past) "base < lim" "page_lo m q \<le> unat base" "page_hi m q \<le> unat base" by linarith
  then show ?case
  proof cases
    case over
    then have "assigned a lim base (us @ q # vs) m us (q # vs) base m"
      using Cons.prems by (auto simp: assigned_def word_less_nat_alt word_le_nat_alt)
    then show ?thesis using over n rl by auto
  next
    case past
    have IH: "assign_fpages_loop k mm mpid lim (AtNext q) base pf pl m = Inl (Panic ''assert'') \<or>
      (\<exists>us' vs' base' pf' pl' m'. assign_fpages_loop k mm mpid lim (AtNext q) base pf pl m =
         Inr (link_of a us', base', pf', pl', m') \<and> assigned a lim base (us @ q # vs) m us' vs' base' m')"
      using Cons.IH [of m "us @ [q]" base k pf pl] Cons.prems past q(4) n by (simp add: lq)
    have "\<not> base < FPAGE_BASE (fpages m q)" "\<not> base < FPAGE_END (fpages m q)"
      unfolding less using past by auto
    then have "assign_fpages_loop n mm mpid lim (link_of a us) base pf pl m =
        assign_fpages_loop k mm mpid lim (AtNext q) base pf pl m" using past(1) rl n by simp
    with IH show ?thesis by simp
  next
    case inside
    let ?pf = "if pf = None then Some q else pf" and ?b = "FPAGE_END (fpages m q)"
    have "\<forall>u\<in>set (us @ [q]). page_hi m u \<le> unat ?b" using Cons.prems(4) inside E by auto
    then have IH: "assign_fpages_loop k mm mpid lim (AtNext q) ?b ?pf (Some q) m = Inl (Panic ''assert'') \<or>
      (\<exists>us' vs' base' pf' pl' m'. assign_fpages_loop k mm mpid lim (AtNext q) ?b ?pf (Some q) m =
         Inr (link_of a us', base', pf', pl', m') \<and> assigned a lim ?b (us @ q # vs) m us' vs' base' m')"
      using Cons.IH [of m "us @ [q]" ?b k ?pf "Some q"] Cons.prems q(2,4) E n by (simp add: lq)
    have "base \<le> ?b" using inside E by (simp add: word_le_nat_alt)
    moreover have "{unat base..<min (unat ?b) (unat lim)} \<subseteq> cover m [q]" using inside E by (auto simp: cover_def)
    then have "cover m (us @ q # vs) = cover m (us @ q # vs) \<union> {unat base..<min (unat ?b) (unat lim)}"
      by (auto simp: cover_def)
    ultimately have st: "assigned a lim base (us @ q # vs) m us' vs' base' m'"
      if "assigned a lim ?b (us @ q # vs) m us' vs' base' m'" for us' vs' base' m'
      using assigned_step [OF that] by simp
    have "\<not> base < FPAGE_BASE (fpages m q)" "base < FPAGE_END (fpages m q)"
      unfolding less using inside by auto
    then have eq: "assign_fpages_loop n mm mpid lim (link_of a us) base pf pl m =
        assign_fpages_loop k mm mpid lim (AtNext q) ?b ?pf (Some q) m" using inside(1) rl n by simp
    show ?thesis unfolding eq using IH st by blast
  next
    case gap
    show ?thesis
    proof (cases rule: assign_fpages_loop_gap [OF mp lim Cons.prems(1-5) gap, of k pf pl, case_names f s])
      case f
      then show ?thesis using n by simp
    next
      case (s ys m2 pf' pl')
      let ?b = "FPAGE_END (fpages m2 q)"
      have "base \<le> ?b" using s(6) gap page_lo_less_hi [of m q] by (simp add: word_le_nat_alt)
      then have st: "assigned a lim base (us @ q # vs) m us' vs' base' m'"
        if "assigned a lim ?b ((us @ ys @ [q]) @ vs) m2 us' vs' base' m'" for us' vs' base' m'
        using s(6,8) by (intro assigned_step [OF that s(4)]) auto
      have "link_of a (us @ ys @ [q]) = AtNext q" by (simp add: link_of_def)
      then have IH: "assign_fpages_loop k mm mpid lim (AtNext q) ?b pf' pl' m2 = Inl (Panic ''assert'') \<or>
        (\<exists>us' vs' base' pf'' pl'' m'. assign_fpages_loop k mm mpid lim (AtNext q) ?b pf' pl' m2 =
           Inr (link_of a us', base', pf'', pl'', m') \<and>
           assigned a lim ?b ((us @ ys @ [q]) @ vs) m2 us' vs' base' m')"
        using Cons.IH [OF s(3,2,5), of ?b k pf' pl'] s(6,7) q(2) Cons.prems(6) n by simp
      show ?thesis unfolding n s(1) using IH st by blast
    qed
  qed
qed

section \<open>Assigning a region\<close>

lemma assign_fpages_ext_spec:
  assumes mp: "memmap_at mm mpid = Inr mp" "mpid \<noteq> - 1" "mp_flags mp AND MP_FPAGE_MASK \<noteq> 0"
    and ok: "fpages_ok m" and ch: "as_chain m a xs" and gr: "granular m xs"
    and al: "256 dvd unat base" "256 dvd unat sz" "sz \<noteq> 0" "unat base + unat sz < 4294967296"
  obtains (full) "assign_fpages_ext mm mpid (Some a) base sz pf pl m = Inl (Panic ''assert'')"
  | (filled) pf' pl' ys m' where
      "assign_fpages_ext mm mpid (Some a) base sz pf pl m = Inr (0, pf', pl', m')"
      "fpages_ok m'" "as_chain m' a ys" "grown a m m'" "set xs \<subseteq> set ys"
      "cover m' ys = cover m xs \<union> {unat base..<unat base + unat sz}"
proof -
  define lim where "lim = base + sz"
  have ul: "unat lim = unat base + unat sz" unfolding lim_def using al(4) by (rule unat_add32)
  have lim: "256 dvd unat lim" using al ul by simp
  have len: "length xs < WALK_FUEL"
    using fpages_ok_length [OF ok] ch lseg_None_distinct by (auto simp: as_chain_def)
  let ?loop = "assign_fpages_loop WALK_FUEL mm mpid lim (link_of a []) base pf pl m"
  have unf: "assign_fpages_ext mm mpid (Some a) base sz pf pl m =
      bindF ?loop (\<lambda>(fp, base, pfirst, plast, m).
             if base < lim
             then bindF (create_aligned_chain mm mpid base (lim - base) None None m)
                    (\<lambda>(first, lst, m).
                     Inr (0, if pfirst = None then first else pfirst, lst, write_link fp first m))
             else Inr (0, pfirst, plast, m))"
    using al(3) mp(2) by (simp add: assign_fpages_ext_def lim_def [symmetric] link_of_def Let_def
        word_le_nat_alt unat_eq_zero)
  consider "?loop = Inl (Panic ''assert'')"
    | us' vs' base' pf' pl' m' where "?loop = Inr (link_of a us', base', pf', pl', m')"
      "assigned a lim base xs m us' vs' base' m'"
    using assign_fpages_loop_spec [OF mp lim ok, of a "[]" xs base WALK_FUEL pf pl] ch gr al len by auto
  then show ?thesis
  proof cases
    case 1
    then show ?thesis using unf full by simp
  next
    case (2 us' vs' base' pf' pl' m')
    note g = 2(2) [unfolded assigned_def]
    have bb: "unat base \<le> unat base'" using g by (simp add: word_le_nat_alt)
    show ?thesis
    proof (cases "base' < lim")
      case False
      then have "min (unat base') (unat lim) = unat lim" by (simp add: word_less_nat_alt)
      then show ?thesis using filled [of pf' pl' m' "us' @ vs'"] unf 2(1) g False ul by simp
    next
      case True
      have vs: "vs' = []" using g True by auto
      define sz' where "sz' = lim - base'"
      have b': "unat base' + unat sz' = unat lim"
        using True by (simp add: sz'_def unat_sub32 word_less_nat_alt)
      have sz': "sz' \<noteq> 0" "256 dvd unat sz'" "unat base' + unat sz' \<le> 4294967296"
        using True g lim b' unat_lt32 [of lim] by (auto simp: sz'_def) (metis dvd_add_right_iff b' sz'_def)
      have ch': "as_chain m' a (us' @ [])" "fpages_ok m'" "\<forall>u\<in>set us'. page_hi m' u \<le> unat base'"
        "256 dvd unat base'" using g vs by auto
      show ?thesis
      proof (cases rule: fill_gap [OF mp ch'(2,1,4) sz'(2,1,3) ch'(3), case_names v f m])
        case v
        then show ?case by simp
      next
        case f
        then show ?thesis using unf 2(1) True full by (simp add: sz'_def)
      next
        case (m ys m1 m2)
        have "upd_fpage (last ys) (as_next_update (\<lambda>_. None)) m1 = m1"
          using m(7) fun_upd_idem [of "as_nexts m1" "last ys" None] by (simp add: upd_fpage_link as_nexts_def)
        then have m2: "m2 = write_link (link_of a us') (Some (hd ys)) m1" using m(2) by simp
        have "set us' \<subseteq> ktable_used (fpage_table m')" using ch'(1) by (simp add: as_chain_def)
        then have "cover m2 us' = cover m' us'" using grown_tile [OF m(6)] by (intro cover_cong) auto
        then have "cover m2 (us' @ ys) = cover m xs \<union> {unat base..<unat base + unat sz}"
          using g vs m(8) b' bb True ul by (auto simp: word_less_nat_alt)
        moreover have "assign_fpages_ext mm mpid (Some a) base sz pf pl m =
            Inr (0, if pf' = None then Some (hd ys) else pf', Some (last ys), m2)"
          using unf 2(1) True m(1) m2 by (simp add: sz'_def)
        moreover have "grown a m m2" using g m(6) grown_trans by blast
        moreover have "set xs \<subseteq> set (us' @ ys)" using g vs by auto
        ultimately show ?thesis using filled m(4,5) by fastforce
      qed
    qed
  qed
qed



text \<open>
  when a request starts in a gap and ends inside a page that is already there, the page is
  covered but not recorded as the last page of the request: the caller receives the last page
  of the gap. (Pages at 0x20003000 to 0x20004000; the request runs from 0x20002F00 over the whole page.)
\<close>

lemma assign_fpages_ext_short_last:
  "case assign_fpages_ext [DECLARE_MEMPOOL ''RAM'' 0x20002000 0x20008000 (MP_UR OR MP_SRAM) MPT_AVAILABLE]
          0 (Some 0) 0x20002F00 0x1100 None None demo_page_mem of
     Inl _ \<Rightarrow> False
   | Inr (r, pfirst, plast, m') \<Rightarrow>
       r = 0 \<and> pfirst = Some 1 \<and> plast = Some 1 \<and>
       page_tile (fpages m' 1) = (0x20002F00, 8) \<and> as_next (fpages m' 1) = Some 0 \<and>
       page_tile (fpages m' 0) = (0x20003000, 12)"
  by code_simp

end
