(* ===== verification/F9_Fpage_Map.thy ===== *)
theory F9_Fpage_Map
  imports F9_Fpage_Spec
begin

text \<open>
  Mapping pages between address spaces (\<open>map_fpage\<close>, \<open>unmap_fpage\<close> of \<^verbatim>\<open>kernel/fpage.c\<close>). A page
  and its clones in other address spaces form a ring through \<open>map_next\<close>; mapping puts the
  new clone behind the page, unmapping takes it out again. The removal of a page from its
  address space dereferences NULL when one of the two chains does not contain the page.
\<close>

section \<open>Removal of a page that is not linked\<close>

lemma remove_fpage_walk_absent:
  assumes "lseg nx p xs None" "fp \<notin> set xs" "length xs < n"
  shows "remove_fpage_walk n nx fp False p = Inl NullDeref"
  using assms
proof (induction xs arbitrary: p n)
  case Nil
  then obtain k where "n = Suc k" by (cases n) auto
  then show ?case using Nil by simp
next
  case (Cons x xs)
  then obtain k where k: "n = Suc k" "length xs < k" by (cases n) auto
  have h: "nx x = hd_opt xs" using Cons.prems(1) lseg_hd by auto
  show ?case
  proof (cases xs)
    case Nil
    then obtain j where "k = Suc j" using k by (cases k) auto
    then show ?thesis using Cons.prems(1) Nil h k by simp
  next
    case (Cons y ys)
    have "remove_fpage_walk k nx fp False (nx x) = Inl NullDeref"
      using Cons.IH [of "nx x" k] Cons.prems k by simp
    then show ?thesis using Cons.prems Cons h k by auto
  qed
qed

lemma remove_fpage_from_list_absent:
  assumes "lseg nx p xs None" "fp \<notin> set xs" "length xs < WALK_FUEL"
  shows "remove_fpage_from_list nx p fp False = Inl NullDeref"
proof -
  have "p \<noteq> Some fp" using assms(1,2) by (cases xs) auto
  then show ?thesis using remove_fpage_walk_absent [OF assms] by (simp add: remove_fpage_from_list_def)
qed

text \<open>A page that is in the chain of its address space but not in that of the protection unit.\<close>

lemma remove_fpage_from_as_absent:
  assumes "fpages_ok m" "as_chain m a (us @ fp # vs)" "mpu_chain m a ys" "fp \<notin> set ys"
    "True \<notin> set (uninit m)"
  shows "remove_fpage_from_as a fp m = Inl NullDeref"
proof -
  obtain e1 m1 where p1: "pop_uninit m = (e1, m1)" by fastforce
  note f1 = pop_uninit_frame [OF p1] and u1 = pop_uninit_False [OF p1 assms(5)]
  have c: "lseg (as_nexts m) (as_first (ases m a)) (us @ fp # vs) None"
    "lseg (mpu_nexts m) (mpu_first (ases m a)) ys None"
    using assms(2,3) by (auto simp: as_chain_def mpu_chain_def)
  note d = lseg_None_distinct [OF c(1)] lseg_None_distinct [OF c(2)]
  have len: "length us \<le> WALK_FUEL" "length ys < WALK_FUEL"
    using d assms(2,3) fpages_ok_length [OF assms(1)] less_imp_le by (auto simp: as_chain_def mpu_chain_def)
  from remove_fpage_from_list_spec [OF c(1) len(1)] obtain nx where
    r1: "remove_fpage_from_list (as_nexts m) (as_first (ases m a)) fp False = Inr (hd_opt (us @ vs), nx)" by blast
  define m2 where "m2 = upd_as a (as_first_update (\<lambda>_. hd_opt (us @ vs))) (set_as_nexts nx m1)"
  obtain e2 m3 where p2: "pop_uninit m2 = (e2, m3)" by fastforce
  note f2 = pop_uninit_frame [OF p2]
  have "\<not> e2" using pop_uninit_False [OF p2] u1 by (simp add: m2_def)
  moreover have "lseg (mpu_nexts m3) (mpu_first (ases m3 a)) ys None" using f1 f2 c(2) by (simp add: m2_def)
  ultimately show ?thesis
    using u1 r1 f1 remove_fpage_from_list_absent [OF _ assms(4) len(2)]
    by (simp add: remove_fpage_from_as_def p1 m2_def [symmetric] p2 del: hd_opt_simps)
qed

text \<open>
  with any other value in the uninitialised variable of the removal, the pages between the
  head of the chain and the removed page are lost from the chain.
\<close>

lemma remove_uninit_loses_pages:
  assumes "lseg nx (Some x) (x # us @ fp # vs) None"
  shows "\<exists>nx'. remove_fpage_from_list nx (Some x) fp True = Inr (Some x, nx') \<and>
    lseg nx' (Some x) (x # vs) None"
proof -
  have "distinct (x # us @ fp # vs)" using assms by (rule lseg_None_distinct)
  then have "x \<noteq> fp" "x \<notin> set vs" by auto
  then show ?thesis using assms
    by (auto simp: remove_fpage_from_list_def WALK_FUEL_def lseg_append)
qed

lemma remove_uninit_loses_pages_example:
  "\<exists>nx'. remove_fpage_from_list (\<lambda>i. if i < 3 then Some (Suc i) else None) (Some 0) 2 True = Inr (Some 0, nx') \<and>
    lseg nx' (Some 0) [0, 3] None"
  using remove_uninit_loses_pages [of "\<lambda>i. if i < 3 then Some (Suc i) else None" 0 "[1]" 2 "[3]"]
  by simp

section \<open>Mapping\<close>

definition map_nexts :: "mem_t \<Rightarrow> nat \<Rightarrow> ptr" where
  "map_nexts m i = map_next (fpages m i)"

text \<open>The ring of mappings of a page: \<open>fp\<close> and then \<open>zs\<close>, back to \<open>fp\<close>.\<close>

definition map_ring :: "mem_t \<Rightarrow> nat \<Rightarrow> nat list \<Rightarrow> bool" where
  "map_ring m fp zs \<longleftrightarrow> lseg (map_nexts m) (Some fp) (fp # zs) (Some fp) \<and> distinct (fp # zs)"

text \<open>A clone of page \<open>f\<close>, before it is linked.\<close>

definition clone_of :: "fpage_t \<Rightarrow> fpage_t \<Rightarrow> bool" where
  "clone_of f g \<longleftrightarrow> page_tile g = page_tile f \<and> fp_mpid g = fp_mpid f \<and> fp_rwx g = fp_rwx f \<and>
     fp_flags g = FPAGE_CLONE \<and> map_next g = map_next f"

lemma map_fpage_prepare:
  assumes "fpages_ok m" "fp \<in> ktable_used (fpage_table m)"
    "card (ktable_used (fpage_table m)) < CONFIG_MAX_FPAGES"
  obtains i kt g m5 where "map_fpage dst (Some fp) action m =
      bindF (insert_fpage_chain_to_as dst (Some i) (Some i) m5) (\<lambda>m. Inr (0, m))"
    "m5 = m\<lparr>fpage_table := kt, fpages := (fpages m)(i := g, fp := (if action = MAP
       then (fpages m fp)\<lparr>fp_flags := fp_flags (fpages m fp) OR FPAGE_MAPPED, map_next := Some i\<rparr>
       else (fpages m fp)\<lparr>map_next := Some i\<rparr>))\<rparr>"
    "i \<noteq> fp" "i \<notin> ktable_used (fpage_table m)" "ktable_used kt = insert i (ktable_used (fpage_table m))"
    "fpages_ok m5" "clone_of (fpages m fp) g" "as_next g = None" "mpu_next g = None"
proof -
  have k: "ktable_ok (fpage_table m)" "card (ktable_used (fpage_table m)) < ktable_cap (fpage_table m)"
    using assms by (auto simp: fpages_ok_def)
  obtain i kt where a: "ktable_alloc_slot (fpage_table m) = Inr (Some i, kt)"
    "i \<notin> ktable_used (fpage_table m)" "ktable_used kt = insert i (ktable_used (fpage_table m))"
    "ktable_ok kt" "ktable_cap kt = ktable_cap (fpage_table m)" using kt.alloc_room [OF k] by metis
  have ne: "i \<noteq> fp" using a(2) assms(2) by auto
  define g where "g = (fpages m i)\<lparr>as_next := None, mpu_next := None, fp_base := fp_base (fpages m fp),
     fp_mpid := fp_mpid (fpages m fp), fp_shift := fp_shift (fpages m fp),
     fp_rwx := fp_rwx (fpages m fp), fp_flags := FPAGE_CLONE, map_next := map_next (fpages m fp)\<rparr>"
  define f where "f = (if action = MAP then (fpages m fp)\<lparr>fp_flags := fp_flags (fpages m fp) OR FPAGE_MAPPED,
     map_next := Some i\<rparr> else (fpages m fp)\<lparr>map_next := Some i\<rparr>)"
  have "map_fpage dst (Some fp) action m =
      bindF (insert_fpage_chain_to_as dst (Some i) (Some i)
        (m\<lparr>fpage_table := kt, fpages := (fpages m)(i := g, fp := f)\<rparr>)) (\<lambda>m. Inr (0, m))"
    using ne unfolding map_fpage_def a bindF_simps deref_simps prod.case Let_def insert_fpage_to_as_def
    by (simp add: upd_fpage_def g_def f_def fun_upd_twist)
  moreover have "fpages_ok (m\<lparr>fpage_table := kt, fpages := (fpages m)(i := g, fp := f)\<rparr>)"
    using a assms(1) by (simp add: fpages_ok_def)
  ultimately show ?thesis using that [of i _ g kt] ne a unfolding f_def
    by (simp add: g_def clone_of_def page_tile_def)
qed

lemma map_fpage_spec:
  assumes ok: "fpages_ok m" and fp: "fp \<in> ktable_used (fpage_table m)"
    and room: "card (ktable_used (fpage_table m)) < CONFIG_MAX_FPAGES"
    and ch: "as_chain m dst (us @ vs)"
    and lo: "\<forall>u\<in>set us. page_hi m u \<le> page_lo m fp" and hi: "\<forall>v\<in>set vs. page_hi m fp \<le> page_lo m v"
  obtains i m' where "map_fpage dst (Some fp) action m = Inr (0, m')" "i \<notin> ktable_used (fpage_table m)"
    "ktable_used (fpage_table m') = insert i (ktable_used (fpage_table m))" "fpages_ok m'"
    "as_chain m' dst (us @ i # vs)" "clone_of (fpages m fp) (fpages m' i)"
    "map_next (fpages m' fp) = Some i" "page_tile (fpages m' fp) = page_tile (fpages m fp)"
    "fp_flags (fpages m' fp) = (if action = MAP then fp_flags (fpages m fp) OR FPAGE_MAPPED
                                else fp_flags (fpages m fp))"
    "\<And>j. j \<noteq> i \<Longrightarrow> j \<noteq> fp \<Longrightarrow> page_core (fpages m' j) = page_core (fpages m j)"
    "mpu_nexts m' i = None" "\<And>j. j \<noteq> i \<Longrightarrow> mpu_nexts m' j = mpu_nexts m j"
    "mpu_first (ases m' dst) = mpu_first (ases m dst)"
proof -
  obtain i kt g m5 where p: "map_fpage dst (Some fp) action m =
      bindF (insert_fpage_chain_to_as dst (Some i) (Some i) m5) (\<lambda>m. Inr (0, m))"
    "m5 = m\<lparr>fpage_table := kt, fpages := (fpages m)(i := g, fp := (if action = MAP
       then (fpages m fp)\<lparr>fp_flags := fp_flags (fpages m fp) OR FPAGE_MAPPED, map_next := Some i\<rparr>
       else (fpages m fp)\<lparr>map_next := Some i\<rparr>))\<rparr>"
    "i \<noteq> fp" "i \<notin> ktable_used (fpage_table m)" "ktable_used kt = insert i (ktable_used (fpage_table m))"
    "fpages_ok m5" "clone_of (fpages m fp) g" "as_next g = None" "mpu_next g = None"
    using map_fpage_prepare [OF ok fp room] by metis
  have nin: "fp \<notin> set (us @ vs)" "i \<notin> set (us @ vs)"
    using lo hi ch p(4) page_lo_less_hi [of m fp] by (auto simp: as_chain_def)
  have old: "fpages m5 j = fpages m j" if "j \<noteq> i" "j \<noteq> fp" for j using that p(2) by simp
  have fi: "fpages m5 i = g" using p(2,3) by simp
  have ch5: "as_chain m5 dst (us @ vs)"
    using nin old p(2,5) by (intro as_chain_transfer [OF ch]) auto
  have pos: "page_lo m5 j = page_lo m j \<and> page_hi m5 j = page_hi m j" if "j \<in> set (us @ vs)" for j
    using old [of j] that nin by (intro page_pos_cong) (metis (no_types))
  have "page_tile (fpages m5 i) = page_tile (fpages m fp)" using p(7) fi by (simp add: clone_of_def)
  then have "page_lo m5 i = page_lo m fp" "page_hi m5 i = page_hi m fp"
    by (simp_all add: page_tile_def page_lo_def page_hi_def)
  then have asc: "ascending m5 (us @ [i] @ vs)"
    using ch5 lo hi pos by (auto simp: as_chain_def ascending_append ascending_Cons)
  have n: "lseg (as_nexts m5) (hd_opt [i]) [i] None" "[i] \<noteq> []" "set [i] \<inter> set (us @ vs) = {}"
    "set [i] \<subseteq> ktable_used (fpage_table m5)"
    using fi p(2,5,8) nin(2) by (auto simp: as_nexts_def)
  obtain m' where
    r: "insert_fpage_chain_to_as dst (Some i) (Some i) m5 = Inr m'" "as_chain m' dst (us @ i # vs)"
    "relinked dst m5 m'" "mpu_nexts m' = mpu_nexts m5" "mpu_first (ases m' dst) = mpu_first (ases m5 dst)"
    by (rule insert_chain_as [OF p(6) ch5 n(1-3) asc n(4)]) simp
  have t: "fpage_table m' = kt" using r(3) p(2) by (simp add: relinked_def)
  have core: "page_core (fpages m' j) = page_core (fpages m5 j)" for j using r(3) by (simp add: relinked_def)
  note c = page_core_eqD [OF core]
  show ?thesis
  proof (rule that [of m' i])
    show "map_fpage dst (Some fp) action m = Inr (0, m')" using p(1) r(1) by simp
    show "fpages_ok m'" using p(2,6) t by (simp add: fpages_ok_def)
    show "clone_of (fpages m fp) (fpages m' i)" using p(7) fi c [of i] by (simp add: clone_of_def)
    show "map_next (fpages m' fp) = Some i" "page_tile (fpages m' fp) = page_tile (fpages m fp)"
      "fp_flags (fpages m' fp) = (if action = MAP then fp_flags (fpages m fp) OR FPAGE_MAPPED
                                else fp_flags (fpages m fp))"
      using c [of fp] p(2) by (simp_all add: page_tile_def)
    show "mpu_nexts m' j = mpu_nexts m j" if "j \<noteq> i" for j
      using that r(4) p(2) by (simp add: mpu_nexts_def)
    show "mpu_nexts m' i = None" using r(4) fi p(9) by (simp add: mpu_nexts_def)
  qed (use p r t core old in \<open>auto simp: p(2)\<close>)
qed

lemma insert_fpage_walk_uninit: "insert_fpage_walk n l fp m = Inr (r, m') \<Longrightarrow> uninit m' = uninit m"
  by (induction n l fp m rule: insert_fpage_walk.induct) (auto simp: upd_fpage_def split: option.splits if_splits)

lemma map_fpage_uninit: "map_fpage dst fp action m = Inr (r, m') \<Longrightarrow> uninit m' = uninit m"
  by (auto simp: map_fpage_def insert_fpage_to_as_def insert_fpage_chain_to_as_def Let_def upd_fpage_def upd_as_def
      dest!: insert_fpage_walk_uninit split: option.splits if_splits)

text \<open>
  C13: mapping a page into an address space adds one page there, at its place in ascending order,
  with the position, pool and permissions of the source and marked as a clone; the clone is
  put into the ring of mappings behind the source, the source is marked as mapped when the
  action is MAP, and nothing else changes but links.
\<close>

theorem map_fpage_clones:
  assumes "fpages_ok m" "fp \<in> ktable_used (fpage_table m)"
    "card (ktable_used (fpage_table m)) < CONFIG_MAX_FPAGES" "as_chain m dst (us @ vs)"
    "\<forall>u\<in>set us. page_hi m u \<le> page_lo m fp" "\<forall>v\<in>set vs. page_hi m fp \<le> page_lo m v"
    "map_ring m fp zs" "set zs \<subseteq> ktable_used (fpage_table m)"
  shows "\<exists>i m'. map_fpage dst (Some fp) action m = Inr (0, m') \<and> i \<notin> ktable_used (fpage_table m) \<and>
    ktable_used (fpage_table m') = insert i (ktable_used (fpage_table m)) \<and> fpages_ok m' \<and>
    as_chain m' dst (us @ i # vs) \<and> clone_of (fpages m fp) (fpages m' i) \<and> map_ring m' fp (i # zs) \<and>
    fp_flags (fpages m' fp) = (if action = MAP then fp_flags (fpages m fp) OR FPAGE_MAPPED
                               else fp_flags (fpages m fp)) \<and>
    (\<forall>j. j \<noteq> i \<longrightarrow> j \<noteq> fp \<longrightarrow> page_core (fpages m' j) = page_core (fpages m j))"
proof -
  obtain i m' where r: "map_fpage dst (Some fp) action m = Inr (0, m')" "i \<notin> ktable_used (fpage_table m)"
    "ktable_used (fpage_table m') = insert i (ktable_used (fpage_table m))" "fpages_ok m'"
    "as_chain m' dst (us @ i # vs)" "clone_of (fpages m fp) (fpages m' i)"
    "map_next (fpages m' fp) = Some i"
    "fp_flags (fpages m' fp) = (if action = MAP then fp_flags (fpages m fp) OR FPAGE_MAPPED
                                else fp_flags (fpages m fp))"
    "\<And>j. j \<noteq> i \<Longrightarrow> j \<noteq> fp \<Longrightarrow> page_core (fpages m' j) = page_core (fpages m j)"
    using map_fpage_spec [OF assms(1-6)] by metis
  have d: "distinct (fp # zs)" "lseg (map_nexts m) (map_nexts m fp) zs (Some fp)"
    using assms(7) by (auto simp: map_ring_def)
  have "map_nexts m' j = map_nexts m j" if "j \<in> set zs" for j
  proof -
    have "j \<noteq> i" "j \<noteq> fp" using that d(1) assms(8) r(2) by auto
    then show ?thesis using page_core_eqD(2) [OF r(9)] by (simp add: map_nexts_def)
  qed
  then have "lseg (map_nexts m') (map_nexts m fp) zs (Some fp)" by (rule lseg_transfer [OF d(2)])
  then have "map_ring m' fp (i # zs)"
    using d(1) r(2,6,7) assms(2,8) by (auto simp: map_ring_def map_nexts_def clone_of_def)
  then show ?thesis using r by blast
qed

theorem map_fpage_clones_witness:
  "\<exists>i m'. map_fpage 1 (Some 0) MAP demo_page_mem = Inr (0, m') \<and> as_chain m' 1 [i] \<and> map_ring m' 0 [i] \<and>
     page_tile (fpages m' i) = (0x20003000, 12)"
proof -
  have "map_ring demo_page_mem 0 []" by (simp add: map_ring_def map_nexts_def demo_page_mem_def)
  moreover have "as_chain demo_page_mem 1 ([] @ [])" by (simp add: as_chain_def ascending_def demo_page_mem_def null_as_def)
  moreover have "page_tile (fpages demo_page_mem 0) = (0x20003000, 12)" by (simp add: page_tile_def demo_page_mem_def)
  ultimately show ?thesis
    using map_fpage_clones [of demo_page_mem 0 1 "[]" "[]" "[]" MAP] demo_page_mem_ok demo_page_mem_used
    by (auto simp: CONFIG_MAX_FPAGES_def clone_of_def)
qed

section \<open>Unmapping\<close>

lemma map_ring_prev_spec:
  assumes "lseg (map_nexts m) (Some x) (x # xs) (Some fp)" "fp \<notin> set xs" "length xs < n"
  shows "map_ring_prev n m fp x = Inr (last (x # xs))"
  using assms
proof (induction xs arbitrary: x n)
  case Nil
  then show ?case by (cases n) (auto simp: map_nexts_def)
next
  case (Cons y ys)
  then obtain k where k: "n = Suc k" by (cases n) auto
  have "map_ring_prev k m fp y = Inr (last (y # ys))" using Cons.IH [of y k] Cons.prems k by simp
  then show ?case using Cons.prems k by (auto simp: map_nexts_def)
qed


text \<open>The state after the demonstration page was mapped into the second address space and the
  clone was loaded into the protection unit.\<close>

definition demo_clone_mem :: mem_t where
  "demo_clone_mem = demo_mem\<lparr>
     fpage_table := (fpage_table demo_mem)\<lparr>bitmap := [3, 0, 0, 0, 0, 0, 0, 0]\<rparr>,
     fpages := (\<lambda>_. null_fpage)(
       0 := null_fpage\<lparr>map_next := Some 1, fp_base := 0x20003000, fp_mpid := 7, fp_shift := 12,
              fp_rwx := 3, fp_flags := FPAGE_MAPPED\<rparr>,
       1 := null_fpage\<lparr>map_next := Some 0, fp_base := 0x20003000, fp_mpid := 7, fp_shift := 12,
              fp_rwx := 3, fp_flags := FPAGE_CLONE\<rparr>),
     ases := (\<lambda>_. null_as)(0 := null_as\<lparr>as_first := Some 0, mpu_first := Some 0\<rparr>,
                            1 := null_as\<lparr>as_first := Some 1, mpu_first := Some 1\<rparr>)\<rparr>"

lemma demo_clone_mem_used: "ktable_used (fpage_table demo_clone_mem) = {0, 1}"
proof -
  have b: "bit (3 :: u32) n \<longleftrightarrow> n = 0 \<or> n = 1" for n
    by (cases n) (auto simp: bit_numeral_rec bit_1_iff split: nat.splits)
  have "bm_has [3, 0, 0, 0, 0, 0, 0, 0] i \<longleftrightarrow> i = 0 \<or> i = 1" if "i < 256" for i
    using that b [of i] by (cases "i < 32") (auto simp: bm_has_def nth_Cons' div_eq_0_iff)
  then show ?thesis
    by (auto simp: ktable_used_def demo_clone_mem_def demo_mem_def DECLARE_KTABLE_def CONFIG_MAX_FPAGES_def)
qed




end
