(* ===== verification/F9_Mpu.thy ===== *)
theory F9_Mpu
  imports F9_Fpage
begin

text \<open>
  The driver of the memory protection unit (\<^verbatim>\<open>platform/stm32f4/mpu.c\<close>). The unit is hardware:
  a store to one of its registers is recorded in the log \<open>mmio\<close> of the memory state, and what
  a load returns is the parameter \<open>dev\<close>, a function of the stores so far and the address.
  \<open>mpu_device\<close> states the documented behaviour the driver relies on.
\<close>

section \<open>Registers\<close>

definition MPU_BASE_ADDR :: u32 where "MPU_BASE_ADDR = 0xE000ED9C"
definition MPU_ATTR_ADDR :: u32 where "MPU_ATTR_ADDR = 0xE000EDA0"
definition MPU_CTRL_ADDR :: u32 where "MPU_CTRL_ADDR = 0xE000ED94"
definition MPU_RNR_ADDR :: u32 where "MPU_RNR_ADDR = 0xE000ED98"
definition MPU_FAULT_STATUS_ADDR :: u32 where "MPU_FAULT_STATUS_ADDR = 0xE000ED28"
definition MPU_FAULT_ADDRESS_ADDR :: u32 where "MPU_FAULT_ADDRESS_ADDR = 0xE000ED34"
definition MPU_REGION_MASK :: u32 where "MPU_REGION_MASK = 0xFFFFFFE0"
definition MPU_PRIVDEFENA :: u32 where "MPU_PRIVDEFENA = 4"
definition MPU_MEM_FAULT :: u32 where "MPU_MEM_FAULT = 0x80"
definition MPU_MSTKERR :: u32 where "MPU_MSTKERR = 0x10"
definition MPU_MUSTKERR :: u32 where "MPU_MUSTKERR = 0x08"
definition MPU_IACCVIOL :: u32 where "MPU_IACCVIOL = 0x01"

lemmas mpu_addr_defs = MPU_BASE_ADDR_def MPU_ATTR_ADDR_def MPU_CTRL_ADDR_def MPU_RNR_ADDR_def
  MPU_FAULT_STATUS_ADDR_def MPU_FAULT_ADDRESS_ADDR_def

type_synonym device = "(u32 \<times> u32) list \<Rightarrow> u32 \<Rightarrow> u32"

definition store :: "u32 \<Rightarrow> u32 \<Rightarrow> mem_t \<Rightarrow> mem_t" where
  "store addr v m = m\<lparr>mmio := (addr, v) # mmio m\<rparr>"

definition load :: "device \<Rightarrow> u32 \<Rightarrow> mem_t \<Rightarrow> u32" where
  "load dev addr m = dev (mmio m) addr"

datatype mpu_state_t = MPU_DISABLED | MPU_ENABLED

primrec mpu_state_code :: "mpu_state_t \<Rightarrow> u32" where
  "mpu_state_code MPU_DISABLED = 0"
| "mpu_state_code MPU_ENABLED = 1"

section \<open>The driver\<close>

definition mpu_setup_region :: "mempool_t list \<Rightarrow> nat \<Rightarrow> ptr \<Rightarrow> mem_t \<Rightarrow> mem_t outcome" where
  "mpu_setup_region mm n fp m =
     (case fp of
        Some i \<Rightarrow>
          let f = fpages m i;
              m = store MPU_BASE_ADDR ((FPAGE_BASE f AND MPU_REGION_MASK) OR 0x10 OR (of_nat n AND 0xF)) m in
          bindF (mempool_deref mm (mempool_getbyid (uint (fp_mpid f)))) (\<lambda>mp.
          Inr (store MPU_ATTR_ADDR
                ((if mp_flags mp AND MP_UX \<noteq> 0 then 0 else push_bit 28 1) OR push_bit 24 0x3 OR
                 push_bit 1 (ucast (fp_shift f) - 1) OR 1) m))
      | None \<Rightarrow>
          Inr (store MPU_ATTR_ADDR 0 (store MPU_BASE_ADDR (0x10 OR (of_nat n AND 0xF)) m)))"

definition mpu_enable :: "mpu_state_t \<Rightarrow> mem_t \<Rightarrow> mem_t" where
  "mpu_enable i m = store MPU_CTRL_ADDR (mpu_state_code i OR MPU_PRIVDEFENA) m"

text \<open>The loop over the regions \<open>8 - n\<close> to 7.\<close>

fun addr_in_mpu_loop :: "nat \<Rightarrow> device \<Rightarrow> u32 \<Rightarrow> mem_t \<Rightarrow> bool \<times> mem_t" where
  "addr_in_mpu_loop 0 dev addr m = (False, m)"
| "addr_in_mpu_loop (Suc n) dev addr m =
     (let m = store MPU_RNR_ADDR (of_nat (7 - n)) m;
          attr = load dev MPU_ATTR_ADDR m;
          base = load dev MPU_BASE_ADDR m AND MPU_REGION_MASK;
          sz = push_bit (unat ((drop_bit 1 attr AND 0x1F) + 1)) 1 in
      if attr AND 0x1 \<noteq> 0 \<and> addr \<ge> base \<and> addr < base + sz then (True, m)
      else addr_in_mpu_loop n dev addr m)"

definition addr_in_mpu :: "device \<Rightarrow> u32 \<Rightarrow> mem_t \<Rightarrow> bool \<times> mem_t" where
  "addr_in_mpu dev addr m = addr_in_mpu_loop 8 dev addr m"

text \<open>The number of stack pages, which are the first regions.\<close>

fun mpu_stack_count :: "nat \<Rightarrow> mem_t \<Rightarrow> ptr \<Rightarrow> nat outcome" where
  "mpu_stack_count 0 m sfp = Inl Diverges"
| "mpu_stack_count (Suc n) m sfp =
     (case sfp of
        None \<Rightarrow> Inr 0
      | Some s \<Rightarrow> bindF (mpu_stack_count n m (mpu_next (fpages m s))) (\<lambda>k. Inr (Suc k)))"

text \<open>The loop that reloads the regions \<open>i\<close> to 7 from the chain behind \<open>fp\<close>; \<open>n = 8 - i\<close>.\<close>

fun mpu_reload :: "nat \<Rightarrow> mempool_t list \<Rightarrow> nat \<Rightarrow> nat \<Rightarrow> mem_t \<Rightarrow> mem_t outcome" where
  "mpu_reload 0 mm i fp m = Inr m"
| "mpu_reload (Suc n) mm i fp m =
     (case mpu_next (fpages m fp) of
        None \<Rightarrow> Inr m
      | Some q \<Rightarrow> bindF (mpu_setup_region mm i (Some q) m) (\<lambda>m. mpu_reload n mm (Suc i) q m))"

fun mpu_select_walk :: "nat \<Rightarrow> mempool_t list \<Rightarrow> nat \<Rightarrow> u32 \<Rightarrow> ptr \<Rightarrow> mem_t \<Rightarrow> (int \<times> mem_t) outcome" where
  "mpu_select_walk 0 mm a addr fp m = Inl Diverges"
| "mpu_select_walk (Suc n) mm a addr fp m =
     (case fp of
        None \<Rightarrow> Inr (1, m)
      | Some f \<Rightarrow>
          if addr_in_fpage addr (fpages m f) False
          then let sfp = mpu_stack_first (ases m a);
                   m = upd_fpage f (mpu_next_update (\<lambda>_. mpu_first (ases m a))) m;
                   m = upd_as a (mpu_first_update (\<lambda>_. Some f)) m in
               bindF (mpu_stack_count WALK_FUEL m sfp) (\<lambda>i.
               bindF (mpu_setup_region mm i (Some f) m) (\<lambda>m.
               bindF (mpu_reload (8 - Suc i) mm (Suc i) f m) (\<lambda>m.
               Inr (0, m))))
          else mpu_select_walk n mm a addr (as_next (fpages m f)) m)"

definition mpu_select_lru :: "mempool_t list \<Rightarrow> device \<Rightarrow> ptr \<Rightarrow> u32 \<Rightarrow> mem_t \<Rightarrow> (int \<times> mem_t) outcome" where
  "mpu_select_lru mm dev asp addr m =
     (case asp of
        None \<Rightarrow> Inr (1, m)
      | Some a \<Rightarrow>
          let (hit, m) = addr_in_mpu dev addr m in
          if hit then Inr (1, m)
          else mpu_select_walk WALK_FUEL mm a addr (as_first (ases m a)) m)"

text \<open>What \<open>mpu_dump\<close> prints of each enabled region, and the region numbers it selects.\<close>

fun mpu_dump_loop :: "nat \<Rightarrow> device \<Rightarrow> mem_t \<Rightarrow> (u32 \<times> u32 \<times> u32) list \<times> mem_t" where
  "mpu_dump_loop 0 dev m = ([], m)"
| "mpu_dump_loop (Suc n) dev m =
     (let m = store MPU_RNR_ADDR (of_nat (7 - n)) m;
          attr = load dev MPU_ATTR_ADDR m;
          base = load dev MPU_BASE_ADDR m;
          (out, m') = mpu_dump_loop n dev m in
      (if attr AND 0x1 \<noteq> 0
       then (base AND MPU_REGION_MASK, drop_bit 1 (attr AND 0x3E) + 1, drop_bit 16 attr) # out
       else out, m'))"

definition mpu_dump :: "device \<Rightarrow> mem_t \<Rightarrow> (u32 \<times> u32 \<times> u32) list \<times> mem_t" where
  "mpu_dump dev m = mpu_dump_loop 8 dev m"

text \<open>
  The handler of memory faults: \<open>asp\<close> is the address space of the current thread, \<open>psp\<close> the
  process stack pointer and \<open>pc\<close> the program counter the hardware stacked there.
\<close>

definition memmanage_handler ::
  "mempool_t list \<Rightarrow> device \<Rightarrow> ptr \<Rightarrow> u32 \<Rightarrow> u32 \<Rightarrow> mem_t \<Rightarrow> mem_t outcome" where
  "memmanage_handler mm dev asp psp pc m =
     (let mmsr = load dev MPU_FAULT_STATUS_ADDR m;
          mmar = load dev MPU_FAULT_ADDRESS_ADDR m;
          ok = (\<lambda>m. Inr (store MPU_FAULT_STATUS_ADDR mmsr m));
          attempt = (\<lambda>c addr m k. if c then bindF (mpu_select_lru mm dev asp addr m)
                                          (\<lambda>(r, m). if r = 0 then ok m else k m) else k m) in
      if mmsr AND MPU_MSTKERR \<noteq> 0 then Inl (Panic ''Corrupted Stack'')
      else attempt (mmsr AND MPU_MEM_FAULT \<noteq> 0) mmar m (\<lambda>m.
           attempt (mmsr AND MPU_MUSTKERR \<noteq> 0) (psp + 31) m (\<lambda>m.
           attempt (mmsr AND MPU_IACCVIOL \<noteq> 0) pc m (\<lambda>m.
           attempt (mmsr AND MPU_IACCVIOL \<noteq> 0) (pc + 2) m (\<lambda>m.
           Inl (Panic ''Memory fault''))))))"

end
