(* ===== verification/F9_Memory.thy ===== *)
theory F9_Memory
  imports F9_Mpu
begin

text \<open>
  Address spaces (\<^verbatim>\<open>kernel/memory.c\<close>): initialisation, creation and destruction of address
  spaces, the mapping of areas, and the loading of the protection unit for the thread that is
  about to run.
\<close>

section \<open>Initialisation\<close>

definition SHCSR_ADDR :: u32 where "SHCSR_ADDR = 0xE000ED24"

record kip_memory_info_t =
  memory_desc_ptr :: u16
  mem_desc_n :: u16

text \<open>
  \<open>memory_init\<close> with the addresses of the kernel interface page and of its extra area: the new
  memory state, the memory information of the interface page and the descriptors written to
  the extra area.
\<close>

definition memory_init ::
  "mempool_t list \<Rightarrow> device \<Rightarrow> u32 \<Rightarrow> u32 \<Rightarrow> mem_t \<Rightarrow>
     (mem_t \<times> kip_memory_info_t \<times> kip_mem_desc_t list) outcome" where
  "memory_init mm dev kip kip_extra m =
     bindF (fpages_init m) (\<lambda>m.
     bindF (ktable_init (as_table m)) (\<lambda>kt.
     let m = m\<lparr>as_table := kt\<rparr>;
         mem_desc = memory_init_descs mm 0 in
     Inr (store SHCSR_ADDR (load dev SHCSR_ADDR m OR push_bit 16 1) m,
          \<lparr>memory_desc_ptr = ucast (kip_extra - kip), mem_desc_n = of_nat (length mem_desc)\<rparr>,
          mem_desc)))"

section \<open>Loading the protection unit\<close>

text \<open>The search for the pages that hold the stack: the pages found, at most \<open>n\<close>.\<close>

fun stack_pages :: "nat \<Rightarrow> nat \<Rightarrow> mem_t \<Rightarrow> ptr \<Rightarrow> memptr \<Rightarrow> memptr \<Rightarrow> nat list outcome" where
  "stack_pages 0 n m fp start lim = Inl Diverges"
| "stack_pages (Suc k) n m fp start lim =
     (case fp of
        None \<Rightarrow> Inr []
      | Some f \<Rightarrow>
          if \<not> (0 < n \<and> start < lim) then Inr []
          else if addr_in_fpage start (fpages m f) False
          then bindF (stack_pages k (n - 1) m (as_next (fpages m f)) (FPAGE_END (fpages m f)) lim)
                 (\<lambda>fs. Inr (f # fs))
          else stack_pages k n m (as_next (fpages m f)) start lim)"

text \<open>
  The three chains of the first load: pages that hold the program counter, pages that are
  always mapped, and the others. \<open>mf\<close> and \<open>ml\<close> are the arrays \<^verbatim>\<open>mpu_first\<close> and \<^verbatim>\<open>mpu_fp\<close>.
\<close>

definition page_priv :: "memptr \<Rightarrow> fpage_t \<Rightarrow> nat" where
  "page_priv pc f =
     (if addr_in_fpage pc f False then 0 else if fp_flags f AND FPAGE_ALWAYS \<noteq> 0 then 1 else 2)"

fun priv_chains ::
  "nat \<Rightarrow> memptr \<Rightarrow> ptr \<Rightarrow> ptr list \<Rightarrow> ptr list \<Rightarrow> mem_t \<Rightarrow> (ptr list \<times> ptr list \<times> mem_t) outcome" where
  "priv_chains 0 pc fp mf ml m = Inl Diverges"
| "priv_chains (Suc k) pc fp mf ml m =
     (case fp of
        None \<Rightarrow> Inr (mf, ml, m)
      | Some f \<Rightarrow>
          let p = page_priv pc (fpages m f) in
          if mf ! p = None
          then priv_chains k pc (as_next (fpages m f)) (mf[p := Some f]) (ml[p := Some f]) m
          else bindF (deref (ml ! p)) (\<lambda>l.
               let m = upd_fpage l (mpu_next_update (\<lambda>_. Some f)) m in
               priv_chains k pc (as_next (fpages m f)) mf (ml[p := Some f]) m))"

text \<open>Joining chain \<open>p\<close> with chain \<open>Suc p\<close>.\<close>

definition join_chains :: "nat \<Rightarrow> ptr list \<Rightarrow> ptr list \<Rightarrow> mem_t \<Rightarrow> (ptr list \<times> mem_t) outcome" where
  "join_chains p mf ml m =
     (if mf ! p \<noteq> None
      then bindF (deref (ml ! p)) (\<lambda>l. Inr (mf, upd_fpage l (mpu_next_update (\<lambda>_. mf ! Suc p)) m))
      else Inr (mf[p := mf ! Suc p], m))"

definition build_mpu_chain :: "nat \<Rightarrow> memptr \<Rightarrow> mem_t \<Rightarrow> mem_t outcome" where
  "build_mpu_chain a pc m =
     (if mpu_first (ases m a) \<noteq> None then Inr m
      else bindF (priv_chains WALK_FUEL pc (as_first (ases m a)) [None, None, None] [None, None, None] m)
             (\<lambda>(mf, ml, m).
           bindF (join_chains 1 mf ml m) (\<lambda>(mf, m).
           bindF (join_chains 0 mf ml m) (\<lambda>(mf, m).
           Inr (upd_as a (mpu_first_update (\<lambda>_. mf ! 0)) m)))))"

text \<open>The pages of the chain that are no stack pages, at most \<open>n\<close>.\<close>

fun fifo_pages :: "nat \<Rightarrow> nat \<Rightarrow> mem_t \<Rightarrow> nat list \<Rightarrow> ptr \<Rightarrow> nat list outcome" where
  "fifo_pages 0 n m stk fp = Inl Diverges"
| "fifo_pages (Suc k) n m stk fp =
     (case fp of
        None \<Rightarrow> Inr []
      | Some f \<Rightarrow>
          if n = 0 then Inr []
          else if f \<in> set stk then fifo_pages k n m stk (mpu_next (fpages m f))
          else bindF (fifo_pages k (n - 1) m stk (mpu_next (fpages m f))) (\<lambda>fs. Inr (f # fs)))"

text \<open>The loops that load the regions from \<open>j\<close> on; the last page of the stack is unlinked, the
  last page of the others keeps its link.\<close>

fun load_regions :: "mempool_t list \<Rightarrow> bool \<Rightarrow> nat \<Rightarrow> nat list \<Rightarrow> mem_t \<Rightarrow> mem_t outcome" where
  "load_regions mm unlink j [] m = Inr m"
| "load_regions mm unlink j [f] m =
     bindF (mpu_setup_region mm j (Some f) m) (\<lambda>m.
     Inr (if unlink then upd_fpage f (mpu_next_update (\<lambda>_. None)) m else m))"
| "load_regions mm unlink j (f # g # fs) m =
     bindF (mpu_setup_region mm j (Some f) m) (\<lambda>m.
     load_regions mm unlink (Suc j) (g # fs) (upd_fpage f (mpu_next_update (\<lambda>_. Some g)) m))"

fun clean_regions :: "mempool_t list \<Rightarrow> nat \<Rightarrow> nat \<Rightarrow> mem_t \<Rightarrow> mem_t outcome" where
  "clean_regions mm j 0 m = Inr m"
| "clean_regions mm j (Suc n) m =
     bindF (mpu_setup_region mm j None m) (\<lambda>m. clean_regions mm (Suc j) n m)"

definition as_setup_mpu ::
  "mempool_t list \<Rightarrow> nat \<Rightarrow> memptr \<Rightarrow> memptr \<Rightarrow> memptr \<Rightarrow> u32 \<Rightarrow> mem_t \<Rightarrow> mem_t outcome" where
  "as_setup_mpu mm a sp pc stack_base stack_size m =
     bindF (stack_pages WALK_FUEL 8 m (as_first (ases m a)) stack_base (stack_base + stack_size)) (\<lambda>stk.
     let m = upd_as a (mpu_stack_first_update (\<lambda>_. hd_opt stk)) m;
         mpu_first_i = length stk in
     bindF (build_mpu_chain a pc m) (\<lambda>m.
     bindF (fifo_pages WALK_FUEL (8 - mpu_first_i) m stk (mpu_first (ases m a))) (\<lambda>fifo.
     let mpu = map Some (stk @ fifo) @ replicate (8 - length (stk @ fifo)) None in
     bindF (array_get mpu mpu_first_i) (\<lambda>p.
     let m = upd_as a (mpu_first_update (\<lambda>_. p)) m in
     bindF (load_regions mm True 0 stk m) (\<lambda>m.
     bindF (load_regions mm False mpu_first_i fifo m) (\<lambda>m.
     clean_regions mm (length (stk @ fifo)) (8 - length (stk @ fifo)) m))))))"

section \<open>Address spaces\<close>

fun map_pools :: "mempool_t list \<Rightarrow> mempool_tag set \<Rightarrow> nat \<Rightarrow> mempool_t list \<Rightarrow> mem_t \<Rightarrow> mem_t outcome" where
  "map_pools mm tags a [] m = Inr m"
| "map_pools mm tags a (mp # mps) m =
     (if mp_tag mp \<in> tags
      then bindF (assign_fpages mm (Some a) (mp_start mp) (mp_end mp - mp_start mp) m)
             (\<lambda>(_, m). map_pools mm tags a mps m)
      else map_pools mm tags a mps m)"

definition as_map_user :: "mempool_t list \<Rightarrow> nat \<Rightarrow> mem_t \<Rightarrow> mem_t outcome" where
  "as_map_user mm a m = map_pools mm {MPT_USER_DATA, MPT_USER_TEXT, MPT_DEVICES} a mm m"

definition as_map_ktext :: "mempool_t list \<Rightarrow> nat \<Rightarrow> mem_t \<Rightarrow> mem_t outcome" where
  "as_map_ktext mm a m = map_pools mm {MPT_KERNEL_TEXT} a mm m"

definition as_create :: "u32 \<Rightarrow> mem_t \<Rightarrow> (nat \<times> mem_t) outcome" where
  "as_create spaceid m =
     bindF (ktable_alloc_slot (as_table m)) (\<lambda>(s, kt).
     bindF (deref s) (\<lambda>a.
     Inr (a, upd_as a (\<lambda>x. x\<lparr>as_spaceid := spaceid, as_first := None, as_shared := 0\<rparr>)
               (m\<lparr>as_table := kt\<rparr>))))"

fun as_destroy_loop :: "nat \<Rightarrow> nat \<Rightarrow> ptr \<Rightarrow> mem_t \<Rightarrow> mem_t outcome" where
  "as_destroy_loop 0 a fp m = Inl Diverges"
| "as_destroy_loop (Suc n) a fp m =
     (case fp of
        None \<Rightarrow> Inr m
      | Some f \<Rightarrow>
          bindF (if fp_flags (fpages m f) AND FPAGE_CLONE \<noteq> 0
                 then bindF (unmap_fpage a f m) (\<lambda>(_, m). Inr m)
                 else destroy_fpage f m) (\<lambda>m.
          as_destroy_loop n a (as_next (fpages m f)) m))"

definition as_destroy :: "nat \<Rightarrow> mem_t \<Rightarrow> mem_t outcome" where
  "as_destroy a m =
     (if as_shared (ases m a) > 0
      then Inr (upd_as a (as_shared_update (\<lambda>s. s - 1)) m)
      else bindF (as_destroy_loop WALK_FUEL a (as_first (ases m a)) m) (\<lambda>m.
           bindF (ktable_free_slot (as_table m) a) (\<lambda>kt.
           Inr (m\<lparr>as_table := kt\<rparr>))))"

section \<open>Mapping an area\<close>

text \<open>The search for the pages that hold the two ends of the area; \<open>Inr None\<close> is the early
  return of an error.\<close>

fun find_ends ::
  "nat \<Rightarrow> mem_t \<Rightarrow> memptr \<Rightarrow> memptr \<Rightarrow> memptr \<Rightarrow> ptr \<Rightarrow> ptr \<Rightarrow> (ptr \<times> ptr) option outcome" where
  "find_ends 0 m base lim probe first fp = Inl Diverges"
| "find_ends (Suc n) m base lim probe first fp =
     (case fp of
        None \<Rightarrow> Inr (Some (first, None))
      | Some f \<Rightarrow>
          let first = (if first = None \<and> addr_in_fpage base (fpages m f) False then Some f else first) in
          if addr_in_fpage lim (fpages m f) True then Inr (Some (first, Some f))
          else if first \<noteq> None
          then if \<not> addr_in_fpage probe (fpages m f) True then Inr None
               else find_ends n m base lim (probe + FPAGE_SIZE (fpages m f)) first (as_next (fpages m f))
          else find_ends n m base lim probe first (as_next (fpages m f)))"

fun find_last :: "nat \<Rightarrow> mem_t \<Rightarrow> memptr \<Rightarrow> ptr \<Rightarrow> ptr \<Rightarrow> ptr outcome" where
  "find_last 0 m lim lst fp = Inl Diverges"
| "find_last (Suc n) m lim lst fp =
     (case fp of
        None \<Rightarrow> Inr lst
      | Some f \<Rightarrow> if addr_in_fpage lim (fpages m f) True then Inr (Some f)
                  else find_last n m lim lst (as_next (fpages m f)))"

fun map_chain :: "nat \<Rightarrow> nat \<Rightarrow> ptr \<Rightarrow> ptr \<Rightarrow> map_action_t \<Rightarrow> mem_t \<Rightarrow> mem_t outcome" where
  "map_chain 0 dst fp lst action m = Inl Diverges"
| "map_chain (Suc n) dst fp lst action m =
     bindF (map_fpage dst fp action m) (\<lambda>(_, m).
     if fp = lst then Inr m
     else bindF (deref fp) (\<lambda>f. map_chain n dst (as_next (fpages m f)) lst action m))"

definition map_area ::
  "mempool_t list \<Rightarrow> nat \<Rightarrow> nat \<Rightarrow> memptr \<Rightarrow> u32 \<Rightarrow> map_action_t \<Rightarrow> bool \<Rightarrow> mem_t \<Rightarrow> (int \<times> mem_t) outcome" where
  "map_area mm src dst base sz action privileged m =
     (let lim = base + sz in
      bindF (if privileged
             then bindF (assign_fpages_ext mm (- 1) (Some src) base sz None None m)
                    (\<lambda>(_, first, lst, m). Inr (if src = dst then Inl 0 else Inr (first, lst), m))
             else if src = dst then Inr (Inl 0, m)
             else bindF (find_ends WALK_FUEL m base lim base None (as_first (ases m src)))
                    (\<lambda>r. Inr (case r of None \<Rightarrow> Inl (- 1) | Some p \<Rightarrow> Inr p, m)))
        (\<lambda>(r, m).
      case r of
        Inl code \<Rightarrow> Inr (code, m)
      | Inr (first, lst) \<Rightarrow>
          if lst = None \<or> first = None then Inr (- 1, m)
          else
            let last_invalid = (first = lst) in
            bindF (split_fpage mm (Some src) first base 1 m) (\<lambda>(first, m).
            bindF (if last_invalid then find_last WALK_FUEL m lim lst first else Inr lst) (\<lambda>lst.
            bindF (split_fpage mm (Some src) lst lim 0 m) (\<lambda>(lst, m).
            if lst = None \<or> first = None then Inr (- 1, m)
            else bindF (map_chain WALK_FUEL dst first lst action m) (\<lambda>m. Inr (0, m)))))))"

end
