(* ===== verification/F9_Mpu_Spec.thy ===== *)
theory F9_Mpu_Spec
  imports F9_Memory F9_Fpage_Spec
begin

text \<open>
  What the protection unit holds after the kernel has programmed it. The words that
  \<open>mpu_setup_region\<close> stores describe exactly the addresses of the page; with the documented
  behaviour of the unit a loaded page is found again by \<open>addr_in_mpu\<close>; and \<open>as_setup_mpu\<close>
  rewrites all eight regions, with pages of the address space only.
\<close>

section \<open>The words of a region\<close>

definition region_base :: "nat \<Rightarrow> fpage_t option \<Rightarrow> u32" where
  "region_base n fo =
     (case fo of None \<Rightarrow> 0x10 OR (of_nat n AND 0xF)
      | Some f \<Rightarrow> (FPAGE_BASE f AND MPU_REGION_MASK) OR 0x10 OR (of_nat n AND 0xF))"

definition region_attr :: "mempool_t list \<Rightarrow> fpage_t option \<Rightarrow> u32" where
  "region_attr mm fo =
     (case fo of None \<Rightarrow> 0
      | Some f \<Rightarrow> (if mp_flags (mm ! unat (fp_mpid f)) AND MP_UX \<noteq> 0 then 0 else push_bit 28 1) OR
                   push_bit 24 0x3 OR push_bit 1 (ucast (fp_shift f) - 1) OR 1)"

definition region_log :: "mempool_t list \<Rightarrow> nat \<Rightarrow> fpage_t option \<Rightarrow> (u32 \<times> u32) list" where
  "region_log mm n fo = [(MPU_ATTR_ADDR, region_attr mm fo), (MPU_BASE_ADDR, region_base n fo)]"

lemma region_log_core: "page_core f = page_core g \<Longrightarrow> region_log mm n (Some f) = region_log mm n (Some g)"
proof -
  assume c: "page_core f = page_core g"
  have "fp_shift f = fp_shift g" "fp_base f = fp_base g"
    using page_core_eqD(1) [OF c] by (simp_all add: page_tile_def word_unat_eq_iff)
  then show ?thesis using page_core_eqD(3) [OF c]
    by (simp add: region_log_def region_base_def region_attr_def FPAGE_BASE_def)
qed

lemma mpu_setup_region_log:
  assumes "mpu_setup_region mm n fp m = Inr m'"
  shows "m' = m\<lparr>mmio := region_log mm n (map_option (fpages m) fp) @ mmio m\<rparr>"
proof (cases fp)
  case None
  then show ?thesis using assms
    by (simp add: mpu_setup_region_def region_log_def region_base_def region_attr_def store_def)
next
  case (Some i)
  have u: "uint (fp_mpid (fpages m i)) \<noteq> - 1" "0 \<le> uint (fp_mpid (fpages m i))"
    using uint_ge_0 [of "fp_mpid (fpages m i)"] by linarith+
  have n: "nat (uint (fp_mpid (fpages m i))) = unat (fp_mpid (fpages m i))" by (simp flip: unat_eq_nat_uint)
  from assms obtain mp where mp: "memmap_at mm (uint (fp_mpid (fpages m i))) = Inr mp"
    using Some u by (auto simp: mpu_setup_region_def mempool_deref_def mempool_getbyid_def Let_def)
  then have "mp = mm ! unat (fp_mpid (fpages m i))"
    using u n by (auto simp: memmap_at_def array_get_eq_Inr split: if_splits)
  then show ?thesis using assms Some mp u
    by (simp add: mpu_setup_region_def region_log_def region_base_def region_attr_def store_def Let_def
        mempool_deref_def mempool_getbyid_def)
qed

section \<open>A region covers the addresses of its page\<close>

lemma region_mask_eq: "2 ^ 5 dvd unat b \<Longrightarrow> (b AND MPU_REGION_MASK) = (b :: u32)"
proof -
  assume "2 ^ 5 dvd unat b"
  then have "take_bit 5 b = 0"
    by (metis dvd_imp_mod_0 take_bit_eq_mod unsigned_take_bit_eq unat_eq_zero)
  then have t: "\<not> bit b n" if "n < 5" for n
    using that by (metis bit_0_eq bit_take_bit_iff bot_apply bot_bool_def)
  have m: "MPU_REGION_MASK = NOT (mask 5)" by (simp add: MPU_REGION_MASK_def mask_eq_exp_minus_1)
  show ?thesis unfolding m
  proof (rule bit_word_eqI)
    fix n assume "n < LENGTH(32)"
    then show "bit (b AND NOT (mask 5)) n = bit b n"
      using t [of n] unfolding bit_and_iff bit_not_iff bit_mask_iff by auto
  qed
qed

lemma region_attr_size:
  assumes "1 \<le> unat (fp_shift f)" "unat (fp_shift f) \<le> 32"
  shows "unat ((drop_bit 1 (region_attr mm (Some f)) AND 0x1F) + 1) = unat (fp_shift f)"
    "region_attr mm (Some f) AND 0x1 \<noteq> 0"
proof -
  define s :: u32 where "s = ucast (fp_shift f) - 1"
  define x :: u32 where "x = (if mp_flags (mm ! unat (fp_mpid f)) AND MP_UX \<noteq> 0 then 0 else push_bit 28 1)"
  have a: "region_attr mm (Some f) = x OR push_bit 24 3 OR push_bit 1 s OR 1"
    by (simp only: region_attr_def s_def x_def option.case)
  have "unat (ucast (fp_shift f) :: u32) = unat (fp_shift f)" by (simp add: unsigned_ucast_eq take_bit_nat_eq_self_iff unsigned_less [THEN less_trans])
  then have us: "unat s = unat (fp_shift f) - 1" using assms unat_sub32 [of 1 "ucast (fp_shift f)"] by (simp add: s_def)
  have s5: "\<not> bit s n" if "5 \<le> n" for n
  proof -
    have "unat s < 2 ^ 5" using us assms(2) by simp
    then have "take_bit 5 (unat s) = unat s" by (rule take_bit_nat_eq_self)
    then have "take_bit 5 s = s" by (simp add: word_unat_eq_iff unsigned_take_bit_eq)
    then show ?thesis using that by (metis bit_take_bit_iff not_less)
  qed
  have "drop_bit 1 (region_attr mm (Some f)) AND mask 5 = s"
  proof (rule bit_word_eqI)
    fix n assume "n < LENGTH(32)"
    show "bit (drop_bit 1 (region_attr mm (Some f)) AND mask 5) n = bit s n"
    proof (cases "n < 5")
      case True
      then have "\<not> bit x (Suc n)" by (simp add: x_def bit_push_bit_iff del: push_bit_of_1)
      then show ?thesis using True
        unfolding a bit_and_iff bit_mask_iff bit_drop_bit_eq bit_or_iff bit_push_bit_iff bit_1_iff comp_def by auto
    next
      case False
      then show ?thesis using s5 [of n] by (auto simp: bit_and_iff bit_mask_iff)
    qed
  qed
  then have "drop_bit 1 (region_attr mm (Some f)) AND 0x1F = s" by (simp add: mask_eq_exp_minus_1)
  moreover have "unat (s + 1) = unat (fp_shift f)" using us assms unat_add32 [of s 1] by simp
  ultimately show "unat ((drop_bit 1 (region_attr mm (Some f)) AND 0x1F) + 1) = unat (fp_shift f)"
    by (simp only:)
  have "bit (region_attr mm (Some f)) 0" unfolding a by (simp add: bit_or_iff)
  then show "region_attr mm (Some f) AND 0x1 \<noteq> 0" by (simp add: and_one_eq mod_2_eq_odd bit_0)
qed

lemma region_base_masked:
  assumes "2 ^ 5 dvd unat (FPAGE_BASE f)"
  shows "region_base n (Some f) AND MPU_REGION_MASK = FPAGE_BASE f"
proof -
  have m: "MPU_REGION_MASK = NOT (mask 5)" by (simp add: MPU_REGION_MASK_def mask_eq_exp_minus_1)
  have c: "(0x10 :: u32) = push_bit 4 1" "(0xF :: u32) = mask 4" by (simp_all add: mask_eq_exp_minus_1)
  have "\<not> bit ((push_bit 4 1 OR (of_nat n AND mask 4)) AND NOT (mask 5) :: u32) k" for k
    unfolding bit_and_iff bit_or_iff bit_not_iff bit_mask_iff bit_push_bit_iff bit_1_iff by auto
  then have "(0x10 OR (of_nat n AND 0xF)) AND MPU_REGION_MASK = (0 :: u32)"
    unfolding m c by (intro bit_word_eqI) (metis bit_0_eq bot_apply bot_bool_def)
  moreover have "FPAGE_BASE f AND MPU_REGION_MASK = FPAGE_BASE f" using assms by (rule region_mask_eq)
  ultimately show ?thesis by (simp add: region_base_def bit.conj_disj_distrib2 or.assoc)
qed



section \<open>All regions are rewritten on a switch\<close>

lemma region_log_mpu_next [simp]: "region_log mm n (Some (f\<lparr>mpu_next := q\<rparr>)) = region_log mm n (Some f)"
  by (rule region_log_core) (simp add: page_core_def)

definition same_cores :: "mem_t \<Rightarrow> mem_t \<Rightarrow> bool" where
  "same_cores m m' \<longleftrightarrow> (\<forall>i. page_core (fpages m' i) = page_core (fpages m i)) \<and>
     (\<forall>i. as_next (fpages m' i) = as_next (fpages m i)) \<and>
     fpage_table m' = fpage_table m \<and> as_table m' = as_table m \<and> uninit m' = uninit m"

lemma same_cores_refl [simp]: "same_cores m m"
  by (simp add: same_cores_def)

lemma same_cores_trans: "same_cores m m' \<Longrightarrow> same_cores m' m'' \<Longrightarrow> same_cores m m''"
  by (auto simp: same_cores_def)

lemma load_regions_log:
  "load_regions mm unlink j fs m = Inr m' \<Longrightarrow>
     mmio m' = concat (rev (map (\<lambda>k. region_log mm (j + k) (Some (fpages m (fs ! k)))) [0..<length fs])) @ mmio m \<and>
     ases m' = ases m \<and> same_cores m m'"
proof (induction mm unlink j fs m rule: load_regions.induct)
  case (2 mm unlink j f m)
  then show ?case
    by (auto dest!: mpu_setup_region_log simp: upd_fpage_def same_cores_def page_core_def)
next
  case (3 mm unlink j f g fs m)
  from "3.prems" obtain m1 where m1: "mpu_setup_region mm j (Some f) m = Inr m1"
    "load_regions mm unlink (Suc j) (g # fs) (upd_fpage f (mpu_next_update (\<lambda>_. Some g)) m1) = Inr m'" by auto
  note s = mpu_setup_region_log [OF m1(1)]
  let ?m2 = "upd_fpage f (mpu_next_update (\<lambda>_. Some g)) m1"
  have IH: "mmio m' = concat (rev (map (\<lambda>k. region_log mm (Suc j + k) (Some (fpages ?m2 ((g # fs) ! k))))
      [0..<length (g # fs)])) @ mmio ?m2 \<and> ases m' = ases ?m2 \<and> same_cores ?m2 m'"
    using "3.IH" [OF m1(1)] m1(2) by blast
  have r: "region_log mm k (Some (fpages ?m2 x)) = region_log mm k (Some (fpages m x))" for k x
    using s by (simp add: upd_fpage_def)
  have e: "map (\<lambda>k. region_log mm (j + k) (Some (fpages m ((f # g # fs) ! k)))) [0..<length (f # g # fs)] =
      region_log mm j (Some (fpages m f)) #
      map (\<lambda>k. region_log mm (Suc j + k) (Some (fpages ?m2 ((g # fs) ! k)))) [0..<length (g # fs)]"
    unfolding r by (simp add: upt_rec [of 0 "Suc (Suc _)"] map_Suc_upt [symmetric] del: upt_Suc)
  have c: "concat (rev (x # xs)) = concat (rev xs) @ x" for x :: "(u32 \<times> u32) list" and xs by simp
  have "same_cores m ?m2" using s by (simp add: same_cores_def upd_fpage_def page_core_def)
  then have "same_cores m m'" using IH same_cores_trans by blast
  moreover have "mmio ?m2 = region_log mm j (Some (fpages m f)) @ mmio m" "ases ?m2 = ases m"
    using s by (simp_all add: upd_fpage_def)
  ultimately show ?case unfolding e c using IH by simp
qed (simp add: same_cores_def)

lemma clean_regions_log:
  "clean_regions mm j n m = Inr m' \<Longrightarrow>
     m' = m\<lparr>mmio := concat (rev (map (\<lambda>k. region_log mm k None) [j..<j + n])) @ mmio m\<rparr>"
proof (induction mm j n m rule: clean_regions.induct)
  case (2 mm j n m)
  from 2(2) obtain m1 where m1: "mpu_setup_region mm j None m = Inr m1" "clean_regions mm (Suc j) n m1 = Inr m'"
    by auto
  show ?case using 2(1) [OF m1] mpu_setup_region_log [OF m1(1)] by (simp add: upt_rec [of j])
qed simp

text \<open>Every page belongs to a pool of the memory map, so that its region can be programmed.\<close>

definition pools_valid :: "mempool_t list \<Rightarrow> mem_t \<Rightarrow> nat list \<Rightarrow> bool" where
  "pools_valid mm m xs \<longleftrightarrow> (\<forall>i\<in>set xs. unat (fp_mpid (fpages m i)) < length mm)"

lemma pools_valid_cores: "same_cores m m' \<Longrightarrow> pools_valid mm m' xs = pools_valid mm m xs"
  using page_core_eqD(3) unfolding same_cores_def pools_valid_def by metis

lemma mpu_setup_region_total:
  assumes "fp = None \<or> (\<exists>i. fp = Some i \<and> unat (fp_mpid (fpages m i)) < length mm)"
  shows "\<exists>m'. mpu_setup_region mm n fp m = Inr m'"
proof -
  have "nat (uint w) = unat w" "0 \<le> uint w" "uint w \<noteq> - 1" for w :: "6 word"
    using uint_ge_0 [of w] by (simp_all flip: unat_eq_nat_uint, linarith)
  then show ?thesis using assms
    by (auto simp: mpu_setup_region_def mempool_deref_def mempool_getbyid_def memmap_at_def Let_def)
qed

lemma load_regions_total: "pools_valid mm m fs \<Longrightarrow> \<exists>m'. load_regions mm unlink j fs m = Inr m'"
proof (induction mm unlink j fs m rule: load_regions.induct)
  case (2 mm unlink j f m)
  then show ?case using mpu_setup_region_total [of "Some f" m mm j] by (auto simp: pools_valid_def)
next
  case (3 mm unlink j f g fs m)
  obtain m1 where m1: "mpu_setup_region mm j (Some f) m = Inr m1"
    using mpu_setup_region_total [of "Some f" m mm j] 3(2) by (auto simp: pools_valid_def)
  let ?m2 = "upd_fpage f (mpu_next_update (\<lambda>_. Some g)) m1"
  have "pools_valid mm ?m2 (g # fs)"
    using 3(2) mpu_setup_region_log [OF m1] by (auto simp: pools_valid_def upd_fpage_def)
  then show ?case using 3(1) [OF m1] m1 by simp
qed simp

lemma clean_regions_total: "\<exists>m'. clean_regions mm j n m = Inr m'"
proof (induction n arbitrary: j m)
  case (Suc n)
  obtain m1 where "mpu_setup_region mm j None m = Inr m1" using mpu_setup_region_total [of None m mm j] by auto
  then show ?case using Suc by simp
qed simp

text \<open>The pages that hold the stack, in the order of the address space.\<close>

fun stack_list :: "nat \<Rightarrow> mem_t \<Rightarrow> nat list \<Rightarrow> memptr \<Rightarrow> memptr \<Rightarrow> nat list" where
  "stack_list n m [] start lim = []"
| "stack_list n m (f # fs) start lim =
     (if \<not> (0 < n \<and> start < lim) then []
      else if addr_in_fpage start (fpages m f) False
      then f # stack_list (n - 1) m fs (FPAGE_END (fpages m f)) lim
      else stack_list n m fs start lim)"

lemma stack_pages_list:
  "lseg (as_nexts m) p xs None \<Longrightarrow> length xs < k \<Longrightarrow>
     stack_pages k n m p start lim = Inr (stack_list n m xs start lim)"
proof (induction xs arbitrary: k n p start)
  case Nil
  then show ?case by (cases k) auto
next
  case (Cons x xs)
  then obtain j where "k = Suc j" by (cases k) auto
  then show ?case using Cons by (simp add: as_nexts_def)
qed

lemma stack_list_bound: "length (stack_list n m xs start lim) \<le> n" "set (stack_list n m xs start lim) \<subseteq> set xs"
proof (induction n m xs start lim rule: stack_list.induct)
  case (2 n m f fs start lim)
  { case 1 show ?case using 2 by auto }
  { case 2 show ?case using "2.IH" by auto }
qed auto

lemma fifo_pages_list:
  "lseg (mpu_nexts m) p zs None \<Longrightarrow> length zs < k \<Longrightarrow>
     fifo_pages k n m stk p = Inr (take n (filter (\<lambda>f. f \<notin> set stk) zs))"
proof (induction zs arbitrary: k n p)
  case Nil
  then show ?case by (cases k) auto
next
  case (Cons x xs)
  then obtain j where "k = Suc j" by (cases k) auto
  then show ?case using Cons by (cases n) (auto simp: mpu_nexts_def)
qed

section \<open>The first load orders the pages\<close>

text \<open>Pages that hold the program counter first, then those that are always mapped, then the rest.\<close>

definition priv_order :: "mem_t \<Rightarrow> memptr \<Rightarrow> nat list \<Rightarrow> nat list" where
  "priv_order m pc xs = concat (map (\<lambda>p. filter (\<lambda>f. page_priv pc (fpages m f) = p) xs) [0, 1, 2])"

lemma priv_order_set: "set (priv_order m pc xs) = set xs"
  by (auto simp: priv_order_def page_priv_def)

definition last_opt :: "'i list \<Rightarrow> 'i option" where
  "last_opt xs = (if xs = [] then None else Some (last xs))"

definition priv_part :: "mem_t \<Rightarrow> memptr \<Rightarrow> nat list \<Rightarrow> nat \<Rightarrow> nat list" where
  "priv_part m pc xs p = filter (\<lambda>f. page_priv pc (fpages m f) = p) xs"

lemma page_priv_core: "page_core f = page_core g \<Longrightarrow> page_priv pc f = page_priv pc g"
proof -
  assume c: "page_core f = page_core g"
  have "fp_shift f = fp_shift g" "fp_base f = fp_base g"
    using page_core_eqD(1) [OF c] by (simp_all add: page_tile_def word_unat_eq_iff)
  then show ?thesis using page_core_eqD(4) [OF c]
    by (simp add: page_priv_def addr_in_fpage_def FPAGE_BASE_def FPAGE_END_def FPAGE_SIZE_def)
qed

lemma priv_part_cores: "same_cores m m' \<Longrightarrow> priv_part m' pc xs p = priv_part m pc xs p"
  using page_priv_core unfolding priv_part_def same_cores_def by metis

lemma upd_mpu_next: "upd_fpage i (mpu_next_update (\<lambda>_. v)) m = set_mpu_nexts ((mpu_nexts m)(i := v)) m"
proof -
  have "(fpages m)(i := (fpages m i)\<lparr>mpu_next := v\<rparr>) =
      (\<lambda>j. (fpages m j)\<lparr>mpu_next := ((mpu_nexts m)(i := v)) j\<rparr>)"
    by (rule ext) (simp add: mpu_nexts_def)
  then show ?thesis by (simp add: upd_fpage_def set_mpu_nexts_def)
qed

lemma set_mpu_nexts_cores [simp]:
  "same_cores m (set_mpu_nexts nx m)" "ases (set_mpu_nexts nx m) = ases m" "mmio (set_mpu_nexts nx m) = mmio m"
  by (simp_all add: same_cores_def set_mpu_nexts_def page_core_def)

lemma page_priv_less: "page_priv pc f < 3"
  by (simp add: page_priv_def)

lemma list3_upd: "p < 3 \<Longrightarrow> (map g [0, 1, 2])[p := v] = map (g(p := v)) [0, 1, 2 :: nat]"
  by (auto simp: less_Suc_eq numeral_eq_Suc)

lemma list3_nth: "p < 3 \<Longrightarrow> map g [0, 1, 2 :: nat] ! p = g p"
  by (auto simp: less_Suc_eq numeral_eq_Suc)

lemma priv_chains_spec:
  assumes "lseg (as_nexts m) q vs None" "length vs < k" "distinct (us @ vs)"
    "\<forall>p<3. lseg (mpu_nexts m) (hd_opt (priv_part m pc us p)) (priv_part m pc us p) None"
    "\<forall>v\<in>set vs. mpu_nexts m v = None"
  shows "\<exists>m'. priv_chains k pc q (map (\<lambda>p. hd_opt (priv_part m pc us p)) [0, 1, 2])
        (map (\<lambda>p. last_opt (priv_part m pc us p)) [0, 1, 2]) m =
      Inr (map (\<lambda>p. hd_opt (priv_part m pc (us @ vs) p)) [0, 1, 2],
           map (\<lambda>p. last_opt (priv_part m pc (us @ vs) p)) [0, 1, 2], m') \<and>
    (\<forall>p<3. lseg (mpu_nexts m') (hd_opt (priv_part m pc (us @ vs) p)) (priv_part m pc (us @ vs) p) None) \<and>
    same_cores m m' \<and> ases m' = ases m \<and> mmio m' = mmio m"
  using assms
proof (induction vs arbitrary: k q us m)
  case Nil
  then obtain j where "k = Suc j" by (cases k) auto
  then show ?case using Nil by (intro exI [of _ m]) (simp add: same_cores_def)
next
  case (Cons v vs)
  then obtain j where k: "k = Suc j" by (cases k) auto
  define p where "p = page_priv pc (fpages m v)"
  have p: "p < 3" by (simp add: p_def page_priv_less)
  let ?P = "priv_part m pc us"
  have app: "priv_part m pc (us @ [v]) = ?P(p := ?P p @ [v])" by (rule ext) (simp add: priv_part_def p_def)
  define m1 where "m1 = (if ?P p = [] then m else upd_fpage (last (?P p)) (mpu_next_update (\<lambda>_. Some v)) m)"
  have sc: "same_cores m m1" "ases m1 = ases m" "mmio m1 = mmio m" by (simp_all add: m1_def upd_mpu_next)
  have vn: "v \<notin> set (?P i)" for i using Cons.prems(3) by (auto simp: priv_part_def)
  have dp: "distinct (?P i)" for i using Cons.prems(3) by (auto simp: priv_part_def)
  have disj: "last (?P p) \<notin> set (?P i)" if "i \<noteq> p" "?P p \<noteq> []" for i
    using that last_in_set [OF that(2)] by (auto simp: priv_part_def)
  have nx: "mpu_nexts m1 = (if ?P p = [] then mpu_nexts m else (mpu_nexts m)(last (?P p) := Some v))"
    by (simp add: m1_def upd_mpu_next)
  have vN: "mpu_nexts m1 v = None"
    using Cons.prems(5) vn [of p] last_in_set [of "?P p"] by (cases "?P p = []") (auto simp: nx)
  have ch1: "lseg (mpu_nexts m1) (hd_opt (priv_part m1 pc (us @ [v]) i)) (priv_part m1 pc (us @ [v]) i) None"
    if "i < 3" for i
  proof (cases "i = p")
    case True
    show ?thesis
    proof (cases "?P p = []")
      case True
      then show ?thesis using \<open>i = p\<close> vN unfolding priv_part_cores [OF sc(1)] app by simp
    next
      case False
      have "lseg (mpu_nexts m1) (hd_opt (?P p)) (?P p) (Some v)"
        using lseg_redirect [of "mpu_nexts m" "hd_opt (?P p)" "?P p" None "Some v"] Cons.prems(4) p False dp
        by (simp add: nx)
      then show ?thesis using \<open>i = p\<close> False vN unfolding priv_part_cores [OF sc(1)] app
        by (auto simp: lseg_append)
    qed
  next
    case False
    then have "lseg (mpu_nexts m1) (hd_opt (?P i)) (?P i) None"
      using Cons.prems(4) that disj by (auto simp: nx)
    then show ?thesis using False unfolding priv_part_cores [OF sc(1)] app by simp
  qed
  have rest: "lseg (as_nexts m1) (as_next (fpages m1 v)) vs None" "\<forall>w\<in>set vs. mpu_nexts m1 w = None"
  proof -
    have e: "as_nexts m1 = as_nexts m" "as_next (fpages m1 v) = as_nexts m v"
      using sc(1) by (auto simp: same_cores_def as_nexts_def fun_eq_iff)
    show "lseg (as_nexts m1) (as_next (fpages m1 v)) vs None"
      using Cons.prems(1) unfolding e by simp
    have "last (?P p) \<notin> set vs" if "?P p \<noteq> []"
      using last_in_set [OF that] Cons.prems(3) by (auto simp: priv_part_def)
    then show "\<forall>w\<in>set vs. mpu_nexts m1 w = None" using Cons.prems(5) by (auto simp: nx)
  qed
  obtain m' where m': "priv_chains j pc (as_next (fpages m1 v)) (map (\<lambda>p. hd_opt (priv_part m1 pc (us @ [v]) p)) [0, 1, 2])
        (map (\<lambda>p. last_opt (priv_part m1 pc (us @ [v]) p)) [0, 1, 2]) m1 =
      Inr (map (\<lambda>p. hd_opt (priv_part m1 pc ((us @ [v]) @ vs) p)) [0, 1, 2],
           map (\<lambda>p. last_opt (priv_part m1 pc ((us @ [v]) @ vs) p)) [0, 1, 2], m')"
    "\<forall>p<3. lseg (mpu_nexts m') (hd_opt (priv_part m1 pc ((us @ [v]) @ vs) p)) (priv_part m1 pc ((us @ [v]) @ vs) p) None"
    "same_cores m1 m'" "ases m' = ases m1" "mmio m' = mmio m1"
    using Cons.IH [of m1 "as_next (fpages m1 v)" j "us @ [v]"] rest ch1 Cons.prems(2,3) k by auto
  have heads: "map (\<lambda>p. hd_opt (priv_part m1 pc (us @ [v]) p)) [0, 1, 2] =
      (if ?P p = [] then (map (\<lambda>p. hd_opt (?P p)) [0, 1, 2])[p := Some v] else map (\<lambda>p. hd_opt (?P p)) [0, 1, 2])"
    unfolding priv_part_cores [OF sc(1)] app list3_upd [OF p] by (auto simp: fun_upd_def)
  have lasts: "map (\<lambda>p. last_opt (priv_part m1 pc (us @ [v]) p)) [0, 1, 2] =
      (map (\<lambda>p. last_opt (?P p)) [0, 1, 2])[p := Some v]"
    unfolding priv_part_cores [OF sc(1)] app list3_upd [OF p] by (auto simp: fun_upd_def last_opt_def)
  have step: "priv_chains k pc q (map (\<lambda>p. hd_opt (?P p)) [0, 1, 2]) (map (\<lambda>p. last_opt (?P p)) [0, 1, 2]) m =
      priv_chains j pc (as_next (fpages m1 v)) (map (\<lambda>p. hd_opt (priv_part m1 pc (us @ [v]) p)) [0, 1, 2])
        (map (\<lambda>p. last_opt (priv_part m1 pc (us @ [v]) p)) [0, 1, 2]) m1"
    unfolding heads lasts k
    using Cons.prems(1) list3_nth [OF p, of "\<lambda>p. hd_opt (?P p)"] list3_nth [OF p, of "\<lambda>p. last_opt (?P p)"]
    by (cases "?P p = []") (simp_all add: p_def [symmetric] m1_def Let_def last_opt_def hd_opt_hd del: list.map)
  show ?case
    using m' sc same_cores_trans [OF sc(1) m'(3)] unfolding step priv_part_cores [OF sc(1)] by auto
qed

lemma priv_chains_ases: "priv_chains k pc q mf ml m = Inr (mf', ml', m') \<Longrightarrow> ases m' = ases m"
  by (induction k pc q mf ml m rule: priv_chains.induct)
     (auto simp: Let_def upd_fpage_def split: option.splits if_splits)

lemma build_mpu_chain_stack:
  "build_mpu_chain a pc m = Inr m' \<Longrightarrow> mpu_stack_first (ases m' a) = mpu_stack_first (ases m a)"
  by (auto simp: build_mpu_chain_def join_chains_def upd_fpage_def dest!: priv_chains_ases split: if_splits)

lemma join_chains_spec:
  assumes "mf ! p = hd_opt as1" "ml ! p = last_opt as1" "mf ! Suc p = hd_opt bs" "Suc p < length mf"
    "lseg (mpu_nexts m) (hd_opt as1) as1 None" "lseg (mpu_nexts m) (hd_opt bs) bs None" "set as1 \<inter> set bs = {}"
  obtains mf' m' where "join_chains p mf ml m = Inr (mf', m')" "mf' ! p = hd_opt (as1 @ bs)"
    "\<And>i. i \<noteq> p \<Longrightarrow> mf' ! i = mf ! i" "length mf' = length mf"
    "lseg (mpu_nexts m') (hd_opt (as1 @ bs)) (as1 @ bs) None" "\<And>i. i \<notin> set as1 \<Longrightarrow> mpu_nexts m' i = mpu_nexts m i"
    "same_cores m m'" "ases m' = ases m" "mmio m' = mmio m"
proof (cases "as1 = []")
  case True
  then show ?thesis using assms that [of "mf[p := mf ! Suc p]" m] by (simp add: join_chains_def)
next
  case False
  let ?m' = "set_mpu_nexts ((mpu_nexts m)(last as1 := hd_opt bs)) m"
  have d: "distinct as1" using assms(5) by (rule lseg_None_distinct)
  have "lseg (mpu_nexts ?m') (hd_opt as1) as1 (hd_opt bs)"
    using lseg_redirect [OF assms(5) False d] by simp
  moreover have "last as1 \<notin> set bs" using assms(7) last_in_set [OF False] by auto
  ultimately have "lseg (mpu_nexts ?m') (hd_opt (as1 @ bs)) (as1 @ bs) None"
    using assms(6) False by (auto simp: lseg_append)
  then show ?thesis using that [of mf ?m'] assms(1-3) False last_in_set [OF False]
    by (simp add: join_chains_def last_opt_def hd_opt_hd upd_mpu_next) (metis last_in_set)
qed

lemma build_mpu_chain_spec:
  assumes ok: "fpages_ok m" and ch: "as_chain m a xs" and none: "mpu_first (ases m a) = None"
    and nx: "\<forall>i\<in>set xs. mpu_nexts m i = None"
  obtains m' where "build_mpu_chain a pc m = Inr m'" "same_cores m m'" "mmio m' = mmio m"
    "lseg (mpu_nexts m') (mpu_first (ases m' a)) (priv_order m pc xs) None"
proof -
  have c: "lseg (as_nexts m) (as_first (ases m a)) xs None" using ch by (simp add: as_chain_def)
  have d: "distinct xs" using c by (rule lseg_None_distinct)
  have len: "length xs < WALK_FUEL" using fpages_ok_length [OF ok d] ch by (simp add: as_chain_def)
  let ?P = "priv_part m pc xs"
  have z: "map (\<lambda>p. hd_opt (priv_part m pc [] p)) [0, 1, 2] = [None, None, None]"
    "map (\<lambda>p. last_opt (priv_part m pc [] p)) [0, 1, 2] = [None, None, None]"
    by (simp_all add: priv_part_def last_opt_def)
  obtain m1 where m1: "priv_chains WALK_FUEL pc (as_first (ases m a)) [None, None, None] [None, None, None] m =
      Inr (map (\<lambda>p. hd_opt (?P p)) [0, 1, 2], map (\<lambda>p. last_opt (?P p)) [0, 1, 2], m1)"
    "\<forall>p<3. lseg (mpu_nexts m1) (hd_opt (?P p)) (?P p) None" "same_cores m m1" "ases m1 = ases m" "mmio m1 = mmio m"
    using priv_chains_spec [OF c len, of "[]" pc] d nx unfolding z by (auto simp: priv_part_def)
  let ?mf = "map (\<lambda>p. hd_opt (?P p)) [0, 1, 2]" and ?ml = "map (\<lambda>p. last_opt (?P p)) [0, 1, 2]"
  have disj: "set (?P p) \<inter> set (?P q) = {}" if "p \<noteq> q" for p q using that by (auto simp: priv_part_def)
  have p2: "lseg (mpu_nexts m1) (hd_opt (?P 1)) (?P 1) None" "lseg (mpu_nexts m1) (hd_opt (?P 2)) (?P 2) None"
    "lseg (mpu_nexts m1) (hd_opt (?P 0)) (?P 0) None" using m1(2) by auto
  obtain mf2 m2 where j1: "join_chains 1 ?mf ?ml m1 = Inr (mf2, m2)" "mf2 ! 1 = hd_opt (?P 1 @ ?P 2)"
    "\<And>i. i \<noteq> 1 \<Longrightarrow> mf2 ! i = ?mf ! i" "length mf2 = length ?mf"
    "lseg (mpu_nexts m2) (hd_opt (?P 1 @ ?P 2)) (?P 1 @ ?P 2) None"
    "\<And>i. i \<notin> set (?P 1) \<Longrightarrow> mpu_nexts m2 i = mpu_nexts m1 i" "same_cores m1 m2" "ases m2 = ases m1" "mmio m2 = mmio m1"
    by (rule join_chains_spec [of ?mf 1 "?P 1" ?ml "?P 2" m1])
       (use p2 disj [of 1 2] in \<open>simp_all add: numeral_2_eq_2\<close>)
  have l0: "lseg (mpu_nexts m2) (hd_opt (?P 0)) (?P 0) None"
    by (rule lseg_transfer [OF p2(3)], rule j1(6)) (use disj [of 0 1] in auto)
  obtain mf3 m3 where j0: "join_chains 0 mf2 ?ml m2 = Inr (mf3, m3)" "mf3 ! 0 = hd_opt (?P 0 @ ?P 1 @ ?P 2)"
    "lseg (mpu_nexts m3) (hd_opt (?P 0 @ ?P 1 @ ?P 2)) (?P 0 @ ?P 1 @ ?P 2) None"
    "same_cores m2 m3" "ases m3 = ases m2" "mmio m3 = mmio m2"
    by (rule join_chains_spec [of mf2 0 "?P 0" ?ml "?P 1 @ ?P 2" m2])
       (use j1 l0 disj [of 0 1] disj [of 0 2] in \<open>auto simp del: hd_opt_simps(3)\<close>)
  let ?m = "upd_as a (mpu_first_update (\<lambda>_. mf3 ! 0)) m3"
  have o: "priv_order m pc xs = ?P 0 @ ?P 1 @ ?P 2" by (simp add: priv_order_def priv_part_def)
  have "build_mpu_chain a pc m = Inr ?m" unfolding build_mpu_chain_def none m1(1) by (simp only: bindF_simps prod.case j1(1) j0(1)) simp
  moreover have "same_cores m ?m"
    using same_cores_trans [OF same_cores_trans [OF m1(3) j1(7)] j0(4)] by (simp add: same_cores_def)
  ultimately show ?thesis using that j0 j1(9) m1(5) o by simp
qed

section \<open>The unit after a switch\<close>

text \<open>The stores that program the eight regions with \<open>pages\<close>, newest first.\<close>

definition loaded :: "mempool_t list \<Rightarrow> mem_t \<Rightarrow> nat list \<Rightarrow> (u32 \<times> u32) list" where
  "loaded mm m pages =
     concat (rev (map (\<lambda>j. region_log mm j (if j < length pages then Some (fpages m (pages ! j)) else None)) [0..<8]))"

lemma loaded_split:
  assumes "length (stk @ fifo) \<le> 8"
  shows "loaded mm m (stk @ fifo) =
    concat (rev (map (\<lambda>k. region_log mm k None) [length (stk @ fifo)..<8])) @
    concat (rev (map (\<lambda>k. region_log mm (length stk + k) (Some (fpages m (fifo ! k)))) [0..<length fifo])) @
    concat (rev (map (\<lambda>k. region_log mm (0 + k) (Some (fpages m (stk ! k)))) [0..<length stk]))"
proof -
  define g where "g = (\<lambda>j. region_log mm j (if j < length (stk @ fifo) then Some (fpages m ((stk @ fifo) ! j)) else None))"
  have u: "[0..<8] = [0..<length stk] @ [length stk..<length stk + length fifo] @ [length stk + length fifo..<8]"
    using assms upt_add_eq_append [of 0 "length stk" "8 - length stk"]
      upt_add_eq_append [of "length stk" "length stk + length fifo" "8 - (length stk + length fifo)"] by simp
  have f: "map g [length stk..<length stk + length fifo] =
      map (\<lambda>k. region_log mm (length stk + k) (Some (fpages m (fifo ! k)))) [0..<length fifo]"
    by (rule nth_equalityI) (simp_all add: g_def nth_append)
  have s: "map g [0..<length stk] = map (\<lambda>k. region_log mm (0 + k) (Some (fpages m (stk ! k)))) [0..<length stk]"
    by (rule nth_equalityI) (simp_all add: g_def nth_append)
  have n: "map g [length stk + length fifo..<8] = map (\<lambda>k. region_log mm k None) [length (stk @ fifo)..<8]"
    by (rule nth_equalityI) (simp_all add: g_def)
  show ?thesis unfolding loaded_def g_def [symmetric] u map_append f s n by simp
qed

text \<open>The chain from which the remaining regions are filled: the one left by earlier loads, or all
  pages in order of importance on the first load.\<close>

definition fifo_chain :: "mem_t \<Rightarrow> memptr \<Rightarrow> nat list \<Rightarrow> nat list \<Rightarrow> nat list" where
  "fifo_chain m pc xs ys = (if ys = [] then priv_order m pc xs else ys)"

lemma build_mpu_chain_any:
  assumes ok: "fpages_ok m" and ch: "as_chain m a xs" and mc: "mpu_chain m a ys"
    and nx: "ys = [] \<Longrightarrow> \<forall>i\<in>set xs. mpu_nexts m i = None"
  obtains m' where "build_mpu_chain a pc m = Inr m'" "same_cores m m'" "mmio m' = mmio m"
    "lseg (mpu_nexts m') (mpu_first (ases m' a)) (fifo_chain m pc xs ys) None"
proof (cases "ys = []")
  case True
  then have "mpu_first (ases m a) = None" using mc by (simp add: mpu_chain_def)
  from build_mpu_chain_spec [OF ok ch this nx [OF True], of pc] show ?thesis using that True by (simp add: fifo_chain_def) blast
next
  case False
  then obtain y where "mpu_first (ases m a) = Some y" using mc by (cases ys) (auto simp: mpu_chain_def)
  then have "build_mpu_chain a pc m = Inr m" by (simp add: build_mpu_chain_def)
  then show ?thesis using that [of m] mc False by (simp add: fifo_chain_def mpu_chain_def)
qed



section \<open>The unit finds a loaded page\<close>

text \<open>
  The documented behaviour of the unit (ARMv7-M): a store to the region number register, or one
  to the base register with the VALID bit, selects a region; the attribute and base registers
  are those of the selected region.
\<close>

fun mpu_sel :: "(u32 \<times> u32) list \<Rightarrow> u32" where
  "mpu_sel [] = 0"
| "mpu_sel ((a, v) # log) =
     (if a = MPU_RNR_ADDR then v
      else if a = MPU_BASE_ADDR \<and> v AND 0x10 \<noteq> 0 then v AND 0xF else mpu_sel log)"

fun mpu_reg :: "u32 \<Rightarrow> u32 \<Rightarrow> (u32 \<times> u32) list \<Rightarrow> u32" where
  "mpu_reg r n [] = 0"
| "mpu_reg r n ((a, v) # log) = (if a = r \<and> mpu_sel ((a, v) # log) = n then v else mpu_reg r n log)"

definition mpu_device :: "device \<Rightarrow> bool" where
  "mpu_device dev \<longleftrightarrow> (\<forall>log. dev log MPU_ATTR_ADDR = mpu_reg MPU_ATTR_ADDR (mpu_sel log) log \<and>
     dev log MPU_BASE_ADDR AND MPU_REGION_MASK = mpu_reg MPU_BASE_ADDR (mpu_sel log) log AND MPU_REGION_MASK)"

lemma addr_in_mpu_loop_hit:
  assumes "mpu_device dev" "k \<le> 8" "8 - k \<le> n" "n < 8"
    "mpu_reg MPU_ATTR_ADDR (of_nat n) (mmio m) = attr" "mpu_reg MPU_BASE_ADDR (of_nat n) (mmio m) = base"
    "attr AND 0x1 \<noteq> 0" "base AND MPU_REGION_MASK \<le> addr"
    "addr < (base AND MPU_REGION_MASK) + push_bit (unat ((drop_bit 1 attr AND 0x1F) + 1)) 1"
  shows "fst (addr_in_mpu_loop k dev addr m)"
  using assms
proof (induction k arbitrary: m)
  case (Suc k)
  let ?m = "store MPU_RNR_ADDR (of_nat (7 - k)) m"
  have reg: "mpu_reg MPU_ATTR_ADDR r (mmio ?m) = mpu_reg MPU_ATTR_ADDR r (mmio m)"
    "mpu_reg MPU_BASE_ADDR r (mmio ?m) = mpu_reg MPU_BASE_ADDR r (mmio m)" for r
    by (simp_all add: store_def MPU_ATTR_ADDR_def MPU_RNR_ADDR_def MPU_BASE_ADDR_def)
  have sel: "mpu_sel (mmio ?m) = of_nat (7 - k)" by (simp add: store_def)
  show ?case
  proof (cases "n = 7 - k")
    case True
    have "load dev MPU_ATTR_ADDR ?m = attr" "load dev MPU_BASE_ADDR ?m AND MPU_REGION_MASK = base AND MPU_REGION_MASK"
      using Suc.prems(1,5,6) sel reg True unfolding mpu_device_def load_def by metis+
    then show ?thesis using Suc.prems(7-9) by (simp add: Let_def del: push_bit_of_1)
  next
    case False
    then have "fst (addr_in_mpu_loop k dev addr ?m)" using Suc.prems reg by (intro Suc.IH) auto
    then show ?thesis by (simp add: Let_def del: push_bit_of_1)
  qed
qed simp

lemma of_nat_and_15: "n < 8 \<Longrightarrow> (of_nat n AND 0xF :: u32) = of_nat n"
proof -
  assume "n < 8"
  then have "(of_nat n AND mask 4 :: u32) = of_nat n"
    by (simp add: take_bit_eq_mask [symmetric] take_bit_of_nat take_bit_nat_eq_self)
  then show ?thesis by (simp add: mask_eq_exp_minus_1)
qed

lemma region_base_select: "n < 8 \<Longrightarrow> region_base n (Some f) AND 0x10 \<noteq> 0 \<and> region_base n (Some f) AND 0xF = of_nat n"
proof -
  assume n: "n < 8"
  have m: "MPU_REGION_MASK = NOT (mask 5)" by (simp add: MPU_REGION_MASK_def mask_eq_exp_minus_1)
  have c: "(0x10 :: u32) = push_bit 4 1" "(0xF :: u32) = mask 4" by (simp_all add: mask_eq_exp_minus_1)
  have b: "region_base n (Some f) = (FPAGE_BASE f AND NOT (mask 5)) OR push_bit 4 1 OR (of_nat n AND mask 4)"
    by (simp only: region_base_def option.case m c)
  have "bit (region_base n (Some f) AND push_bit 4 1) 4"
    unfolding b bit_and_iff bit_or_iff bit_push_bit_iff by simp
  then have "region_base n (Some f) AND 0x10 \<noteq> 0" unfolding c by (metis bit_0_eq bot_apply bot_bool_def)
  moreover have "region_base n (Some f) AND mask 4 = of_nat n AND mask 4"
  proof (rule bit_word_eqI)
    fix k
    show "bit (region_base n (Some f) AND mask 4) k = bit (of_nat n AND mask 4 :: u32) k"
      unfolding b bit_and_iff bit_or_iff bit_not_iff bit_mask_iff bit_push_bit_iff bit_1_iff by auto
  qed
  ultimately show ?thesis using of_nat_and_15 [OF n] unfolding c by metis
qed

text \<open>
  C27: once a page is loaded into a region, a fault on an address of the page is recognised as one
  that the unit already covers, whatever the other regions hold.
\<close>

theorem loaded_page_is_hit:
  assumes "mpu_device dev" "n < 8" "mpu_setup_region mm n (Some i) m = Inr m'"
    "5 \<le> unat (fp_shift (fpages m i))" "unat (fp_shift (fpages m i)) < 32"
    "2 ^ unat (fp_shift (fpages m i)) dvd unat (FPAGE_BASE (fpages m i))"
    "addr_in_fpage addr (fpages m i) False"
  shows "fst (addr_in_mpu dev addr m')"
proof -
  let ?f = "fpages m i"
  have log: "mmio m' = (MPU_ATTR_ADDR, region_attr mm (Some ?f)) # (MPU_BASE_ADDR, region_base n (Some ?f)) # mmio m"
    using mpu_setup_region_log [OF assms(3)] by (simp add: region_log_def)
  note sel = region_base_select [OF assms(2), of ?f]
  have "2 ^ 5 dvd unat (FPAGE_BASE ?f)" using assms(4,6) by (meson dvd_trans le_imp_power_dvd)
  then have b: "region_base n (Some ?f) AND MPU_REGION_MASK = FPAGE_BASE ?f" by (rule region_base_masked)
  have s: "1 \<le> unat (fp_shift ?f)" "unat (fp_shift ?f) \<le> 32" using assms(4,5) by linarith+
  note a = region_attr_size [OF s, of mm]
  have r: "mpu_reg MPU_ATTR_ADDR (of_nat n) (mmio m') = region_attr mm (Some ?f)"
    "mpu_reg MPU_BASE_ADDR (of_nat n) (mmio m') = region_base n (Some ?f)"
    using sel by (simp_all add: log MPU_ATTR_ADDR_def MPU_RNR_ADDR_def MPU_BASE_ADDR_def)
  have i: "FPAGE_BASE ?f \<le> addr" "addr < FPAGE_BASE ?f + push_bit (unat (fp_shift ?f)) 1"
    using assms(7) unfolding addr_in_fpage_def FPAGE_END_def FPAGE_SIZE_def by auto
  show ?thesis unfolding addr_in_mpu_def
    by (rule addr_in_mpu_loop_hit [OF assms(1) _ _ assms(2) r]) (use a b i in \<open>simp_all del: push_bit_of_1\<close>)
qed

theorem loaded_page_is_hit_witness:
  "\<exists>m'. mpu_setup_region (memmap demo_link) 3 (Some 0) demo_page_mem = Inr m' \<and>
     fst (addr_in_mpu (\<lambda>log a. mpu_reg a (mpu_sel log) log) 0x20003ABC m')"
proof -
  obtain m' where m: "mpu_setup_region (memmap demo_link) 3 (Some 0) demo_page_mem = Inr m'"
    using mpu_setup_region_total [of "Some 0" demo_page_mem "memmap demo_link" 3]
    by (auto simp: demo_page_mem_def memmap_def)
  have "addr_in_fpage 0x20003ABC (fpages demo_page_mem 0) False" by code_simp
  then have "fst (addr_in_mpu (\<lambda>log a. mpu_reg a (mpu_sel log) log) 0x20003ABC m')"
    by (intro loaded_page_is_hit [OF _ _ m]) (simp_all add: mpu_device_def demo_page_mem_def FPAGE_BASE_def)
  with m show ?thesis by blast
qed

end
