(* ===== verification/F9_Memory_Spec.thy ===== *)
theory F9_Memory_Spec
  imports F9_Memory F9_Fpage_Spec
begin

text \<open>
  Life and death of address spaces: what \<open>as_destroy\<close> gives back, and what \<open>as_create\<close> leaves
  behind from the previous owner of the slot.
\<close>

section \<open>Destruction\<close>

lemma destroy_fpage_spec:
  assumes "fpages_ok m" "f \<in> ktable_used (fpage_table m)"
  obtains m' where "destroy_fpage f m = Inr m'" "fpages_ok m'" "fpages m' = fpages m" "ases m' = ases m"
    "as_table m' = as_table m" "ktable_used (fpage_table m') = ktable_used (fpage_table m) - {f}"
proof -
  obtain kt where "ktable_free_slot (fpage_table m) f = Inr kt"
    "ktable_used kt = ktable_used (fpage_table m) - {f}" "fpages_ok (m\<lparr>fpage_table := kt\<rparr>)"
    using free_fpage_spec [OF assms] by metis
  then show ?thesis using that by (simp add: destroy_fpage_def)
qed

lemma as_destroy_loop_spec:
  assumes "lseg (as_nexts m) p xs None" "length xs < n" "distinct xs" "fpages_ok m"
    "set xs \<subseteq> ktable_used (fpage_table m)" "\<forall>x\<in>set xs. fp_flags (fpages m x) AND FPAGE_CLONE = 0"
  shows "\<exists>m'. as_destroy_loop n a p m = Inr m' \<and> fpages_ok m' \<and> fpages m' = fpages m \<and> ases m' = ases m \<and>
    as_table m' = as_table m \<and> ktable_used (fpage_table m') = ktable_used (fpage_table m) - set xs"
  using assms
proof (induction xs arbitrary: p n m)
  case Nil
  then show ?case by (cases n) auto
next
  case (Cons x xs)
  then obtain k where k: "n = Suc k" by (cases n) auto
  have "x \<in> ktable_used (fpage_table m)" using Cons.prems(5) by simp
  then obtain m1 where d: "destroy_fpage x m = Inr m1" "fpages_ok m1" "fpages m1 = fpages m" "ases m1 = ases m"
    "as_table m1 = as_table m" "ktable_used (fpage_table m1) = ktable_used (fpage_table m) - {x}"
    using destroy_fpage_spec Cons.prems(4) by metis
  have "lseg (as_nexts m1) (as_nexts m x) xs None"
    using Cons.prems(1) d(3) by (simp add: as_nexts_def [abs_def])
  moreover have "set xs \<subseteq> ktable_used (fpage_table m1)" using Cons.prems(3,5) d(6) by auto
  ultimately obtain m' where "as_destroy_loop k a (as_nexts m x) m1 = Inr m'" "fpages_ok m'" "fpages m' = fpages m1"
    "ases m' = ases m1" "as_table m' = as_table m1"
    "ktable_used (fpage_table m') = ktable_used (fpage_table m1) - set xs"
    using Cons.IH [of m1 "as_nexts m x" k] Cons.prems k d by auto
  then show ?case using Cons.prems(1,6) k d by (auto simp: as_nexts_def)
qed

text \<open>
  C25: destroying an address space that other threads still share only counts one user less.
  Otherwise, when none of its pages is a clone, it gives back the slot of every page of the
  address space and the slot of the address space itself, and nothing else.
\<close>

theorem as_destroy_frees:
  assumes "fpages_ok m" "as_chain m a xs" "\<forall>x\<in>set xs. fp_flags (fpages m x) AND FPAGE_CLONE = 0"
    "ktable_ok (as_table m)" "a < ktable_cap (as_table m)"
  shows "if as_shared (ases m a) > 0
    then as_destroy a m = Inr (upd_as a (as_shared_update (\<lambda>s. s - 1)) m)
    else \<exists>m'. as_destroy a m = Inr m' \<and> fpages m' = fpages m \<and> ases m' = ases m \<and>
      ktable_used (fpage_table m') = ktable_used (fpage_table m) - set xs \<and>
      ktable_used (as_table m') = ktable_used (as_table m) - {a}"
proof (cases "as_shared (ases m a) > 0")
  case True
  then show ?thesis by (simp add: as_destroy_def)
next
  case False
  have c: "lseg (as_nexts m) (as_first (ases m a)) xs None" using assms(2) by (simp add: as_chain_def)
  have d: "distinct xs" using c by (rule lseg_None_distinct)
  have "length xs < WALK_FUEL" using fpages_ok_length [OF assms(1) d] assms(2) by (simp add: as_chain_def)
  then obtain m1 where m1: "as_destroy_loop WALK_FUEL a (as_first (ases m a)) m = Inr m1"
    "fpages m1 = fpages m" "ases m1 = ases m" "as_table m1 = as_table m"
    "ktable_used (fpage_table m1) = ktable_used (fpage_table m) - set xs"
    using as_destroy_loop_spec [OF c _ d assms(1) _ assms(3), of WALK_FUEL a] assms(2)
    unfolding as_chain_def by blast
  obtain kt where "ktable_free_slot (as_table m) a = Inr kt" "ktable_used kt = ktable_used (as_table m) - {a}"
    using kt.free_slot [OF assms(4,5)] by blast
  then show ?thesis using False m1 by (simp add: as_destroy_def)
qed

theorem as_destroy_frees_witness:
  "\<exists>m'. as_destroy 0 demo_page_mem = Inr m' \<and> ktable_used (fpage_table m') = {}"
proof -
  have "as_table demo_page_mem = DECLARE_KTABLE ''as_table'' 0x20000500 20 CONFIG_MAX_ADRESS_SPACES"
    by (simp add: demo_page_mem_def demo_mem_def)
  then have "ktable_ok (as_table demo_page_mem)" "0 < ktable_cap (as_table demo_page_mem)"
    by (simp_all add: CONFIG_MAX_ADRESS_SPACES_def)
  moreover have "fp_flags (fpages demo_page_mem 0) AND FPAGE_CLONE = 0" "\<not> 0 < as_shared (ases demo_page_mem 0)"
    by (simp_all add: demo_page_mem_def null_fpage_def null_as_def)
  ultimately show ?thesis
    using as_destroy_frees [OF demo_page_mem_ok(1,2)] demo_page_mem_used by auto
qed


end
