(* ===== verification/F9_Sort.thy ===== *)
theory F9_Sort
  imports F9_Prelude
begin

text \<open>
  \<^verbatim>\<open>kernel/lib/sort.c\<close> and \<^verbatim>\<open>kernel/lib/bsearch.c\<close>. The array is a list of the units that \<^verbatim>\<open>swapcode\<close> exchanges
  (\<^verbatim>\<open>long\<close> for \<^verbatim>\<open>swaptype\<close> up to 1, \<^verbatim>\<open>char\<close> otherwise), \<open>sz\<close> units to an element, and the offsets of the code
  are counted in these units. Comparison functions receive the units of an element, and return an
  \<^verbatim>\<open>int\<close>.
\<close>

section \<open>The sort\<close>

definition elem_at :: "nat \<Rightarrow> 'c list \<Rightarrow> nat \<Rightarrow> 'c list" where
  "elem_at sz a i = take sz (drop i a)"

text \<open>The loop of \<^verbatim>\<open>swapcode\<close> runs at least once.\<close>

fun swapcode :: "nat \<Rightarrow> nat \<Rightarrow> nat \<Rightarrow> 'c list \<Rightarrow> 'c list" where
  "swapcode i pi pj a =
     (let t = a ! pi; a = a[pi := a ! pj]; a = a[pj := t] in
      if i - 1 > 0 then swapcode (i - 1) (pi + 1) (pj + 1) a else a)"

declare swapcode.simps [simp del]

definition vecswap :: "nat \<Rightarrow> nat \<Rightarrow> nat \<Rightarrow> 'c list \<Rightarrow> 'c list" where
  "vecswap i j n a = (if n > 0 then swapcode n i j a else a)"

text \<open>
  The inner loop, the same in both phases: the element at \<open>r\<close> sinks below its larger children, within
  the first \<open>n\<close> units. An element has at least one unit.
\<close>

function sift :: "('c list \<Rightarrow> 'c list \<Rightarrow> int) \<Rightarrow> nat \<Rightarrow> nat \<Rightarrow> nat \<Rightarrow> 'c list \<Rightarrow> 'c list" where
  "sift cmp_func sz n r a =
     (if 0 < sz \<and> r * 2 + sz < n
      then let c = r * 2 + sz;
               c = (if c < n - sz \<and> cmp_func (elem_at sz a c) (elem_at sz a (c + sz)) < 0
                    then c + sz else c) in
           if cmp_func (elem_at sz a r) (elem_at sz a c) \<ge> 0 then a
           else sift cmp_func sz n c (vecswap r c sz a)
      else a)"
  by pat_completeness auto
termination
  by (relation "measure (\<lambda>(cmp, sz, n, r, a). n - r)") (auto simp: Let_def split: if_splits)

declare sift.simps [simp del]

text \<open>\<open>k\<close> counts the elements from 0 to the offset \<open>i\<close> of the code; \<open>i\<close> below zero is \<open>k = 0\<close>.\<close>

fun heapify :: "('c list \<Rightarrow> 'c list \<Rightarrow> int) \<Rightarrow> nat \<Rightarrow> nat \<Rightarrow> nat \<Rightarrow> 'c list \<Rightarrow> 'c list" where
  "heapify cmp_func sz n 0 a = a"
| "heapify cmp_func sz n (Suc k) a = heapify cmp_func sz n k (sift cmp_func sz n (k * sz) a)"

text \<open>The second phase, with \<open>i = k * sz\<close>.\<close>

fun sort_down :: "('c list \<Rightarrow> 'c list \<Rightarrow> int) \<Rightarrow> nat \<Rightarrow> nat \<Rightarrow> 'c list \<Rightarrow> 'c list" where
  "sort_down cmp_func sz 0 a = a"
| "sort_down cmp_func sz (Suc k) a =
     sort_down cmp_func sz k
       (sift cmp_func sz (Suc k * sz) 0 (vecswap 0 (Suc k * sz) sz a))"

definition sort_base :: "'c list \<Rightarrow> nat \<Rightarrow> nat \<Rightarrow> ('c list \<Rightarrow> 'c list \<Rightarrow> int) \<Rightarrow> 'c list" where
  "sort_base base num sz cmp_func =
     (let n = num * sz; a = heapify cmp_func sz n (num div 2) base in
      sort_down cmp_func sz (num - 1) a)"

section \<open>The binary search\<close>

text \<open>
  Pointers are offsets; the comparison function receives the key and the pointer to an element. The
  result is the pointer to the element found, or none.
\<close>

function bsearch_loop :: "(nat \<Rightarrow> int) \<Rightarrow> nat \<Rightarrow> nat \<Rightarrow> nat \<Rightarrow> nat option" where
  "bsearch_loop compar_key sz base lim =
     (if lim \<noteq> 0
      then let p = base + lim div 2 * sz; cmp = compar_key p in
           if cmp = 0 then Some p
           else if cmp > 0 then bsearch_loop compar_key sz (p + sz) ((lim - 1) div 2)
           else bsearch_loop compar_key sz base (lim div 2)
      else None)"
  by pat_completeness auto
termination
  by (relation "measure (\<lambda>(c, sz, base, lim). lim)") auto

declare bsearch_loop.simps [simp del]

definition bsearch :: "'k \<Rightarrow> nat \<Rightarrow> nat \<Rightarrow> nat \<Rightarrow> ('k \<Rightarrow> nat \<Rightarrow> int) \<Rightarrow> nat option" where
  "bsearch key base0 nmemb sz compar = bsearch_loop (compar key) sz base0 nmemb"

section \<open>The elements of the array\<close>

text \<open>
  The array as its list of elements, and the sort on it: what the offsets, the units and \<^verbatim>\<open>vecswap\<close>
  implement.
\<close>

definition elems :: "nat \<Rightarrow> nat \<Rightarrow> 'c list \<Rightarrow> 'c list list" where
  "elems sz num a = map (\<lambda>i. elem_at sz a (i * sz)) [0..<num]"

definition swap :: "nat \<Rightarrow> nat \<Rightarrow> 'e list \<Rightarrow> 'e list" where
  "swap i j es = es[i := es ! j, j := es ! i]"

lemma length_elems [simp]: "length (elems sz num a) = num"
  by (simp add: elems_def)

lemma nth_elems [simp]: "i < num \<Longrightarrow> elems sz num a ! i = elem_at sz a (i * sz)"
  by (simp add: elems_def)

lemma length_swap [simp]: "length (swap i j es) = length es"
  by (simp add: swap_def)

lemma nth_swap:
  "\<lbrakk>i < length es; j < length es; k < length es\<rbrakk> \<Longrightarrow>
     swap i j es ! k = (if k = j then es ! i else if k = i then es ! j else es ! k)"
  by (simp add: swap_def nth_list_update)

lemma mset_swap_elems:
  "\<lbrakk>i < length es; j < length es\<rbrakk> \<Longrightarrow> mset (swap i j es) = mset es"
  by (simp add: swap_def mset_swap)

lemma length_swapcode [simp]: "length (swapcode i pi pj a) = length a"
  by (induction i pi pj a rule: swapcode.induct) (subst swapcode.simps, simp add: Let_def)

lemma length_vecswap [simp]: "length (vecswap i j n a) = length a"
  by (simp add: vecswap_def)

lemma length_sift [simp]: "length (sift cmp sz n r a) = length a"
  by (induction cmp sz n r a rule: sift.induct) (subst sift.simps, simp add: Let_def)

lemma swapcode_frame:
  "\<lbrakk>0 < n; \<forall>k<n. x \<noteq> i + k \<and> x \<noteq> j + k\<rbrakk> \<Longrightarrow> swapcode n i j a ! x = a ! x"
proof (induction n i j a rule: swapcode.induct)
  case (1 n i j a)
  have "\<forall>k<n - 1. x \<noteq> i + 1 + k \<and> x \<noteq> j + 1 + k"
    using "1.prems"(2) by (metis Suc_eq_plus1 add.assoc add.commute less_diff_conv)
  moreover have "x \<noteq> i" "x \<noteq> j" using "1.prems" by (metis add_0_right)+
  ultimately show ?case
    using "1.prems"(1) "1.IH" by (subst swapcode.simps) (simp add: Let_def)
qed

lemma swapcode_exchanges:
  "\<lbrakk>k < n; i + n \<le> j \<or> j + n \<le> i; i + n \<le> length a; j + n \<le> length a\<rbrakk> \<Longrightarrow>
     swapcode n i j a ! (i + k) = a ! (j + k) \<and> swapcode n i j a ! (j + k) = a ! (i + k)"
proof (induction n i j a arbitrary: k rule: swapcode.induct)
  case (1 n i j a)
  let ?a = "a[i := a ! j, j := a ! i]"
  have step: "swapcode n i j a = (if 1 < n then swapcode (n - 1) (i + 1) (j + 1) ?a else ?a)"
    using "1.prems" by (subst swapcode.simps) (simp add: Let_def)
  have ends: "?a ! i = a ! j" "?a ! j = a ! i" using "1.prems" by (auto simp: nth_list_update)
  show ?case
  proof (cases k)
    case 0
    have "swapcode (n - 1) (i + 1) (j + 1) ?a ! i = ?a ! i"
      "swapcode (n - 1) (i + 1) (j + 1) ?a ! j = ?a ! j" if "1 < n"
      by (rule swapcode_frame; use "1.prems" that in auto)+
    then show ?thesis using step ends 0 by simp
  next
    case (Suc k')
    then have "swapcode (n - 1) (i + 1) (j + 1) ?a ! (i + 1 + k') = ?a ! (j + 1 + k') \<and>
        swapcode (n - 1) (i + 1) (j + 1) ?a ! (j + 1 + k') = ?a ! (i + 1 + k')"
      using "1.prems" by (intro "1.IH") auto
    moreover have "?a ! (j + 1 + k') = a ! (j + k)" "?a ! (i + 1 + k') = a ! (i + k)"
      using "1.prems" Suc by auto
    ultimately show ?thesis using step Suc "1.prems"(1) by simp
  qed
qed

lemma elem_at_eq:
  assumes "i + sz \<le> length a" "i' + sz \<le> length b" "\<And>k. k < sz \<Longrightarrow> a ! (i + k) = b ! (i' + k)"
  shows "elem_at sz a i = elem_at sz b i'"
  by (rule nth_equalityI) (use assms in \<open>auto simp: elem_at_def\<close>)

lemma room: "\<lbrakk>i < num; num * sz \<le> length a\<rbrakk> \<Longrightarrow> i * sz + sz \<le> length (a :: 'c list)"
  using mult_le_mono1 [of "Suc i" num sz] by simp

lemma rooms_apart: "i \<noteq> j \<Longrightarrow> i * sz + sz \<le> j * sz \<or> j * sz + sz \<le> (i :: nat) * sz"
  using mult_le_mono1 [of "Suc i" j sz] mult_le_mono1 [of "Suc j" i sz] by fastforce

lemma elems_vecswap:
  assumes "0 < sz" "i < num" "j < num" "i \<noteq> j" "num * sz \<le> length a"
  shows "elems sz num (vecswap (i * sz) (j * sz) sz a) = swap i j (elems sz num a)"
proof (rule nth_equalityI)
  fix k assume "k < length (elems sz num (vecswap (i * sz) (j * sz) sz a))"
  then have k: "k < num" by simp
  note fits = room [OF assms(2,5)] room [OF assms(3,5)] room [OF k assms(5)]
  let ?b = "swapcode sz (i * sz) (j * sz) a"
  note ex = swapcode_exchanges [OF _ rooms_apart [OF assms(4)] fits(1,2)]
  have "elem_at sz ?b (k * sz) = elem_at sz a (k * sz)" if "k \<noteq> i" "k \<noteq> j"
    using rooms_apart [OF that(1), of sz] rooms_apart [OF that(2), of sz] fits assms(1)
    by (intro elem_at_eq swapcode_frame) auto
  moreover have "elem_at sz ?b (i * sz) = elem_at sz a (j * sz)"
    "elem_at sz ?b (j * sz) = elem_at sz a (i * sz)"
    using ex fits by (auto intro!: elem_at_eq)
  ultimately show "elems sz num (vecswap (i * sz) (j * sz) sz a) ! k = swap i j (elems sz num a) ! k"
    using k assms by (simp add: vecswap_def nth_swap)
qed simp

function sift_elems :: "('e \<Rightarrow> 'e \<Rightarrow> int) \<Rightarrow> nat \<Rightarrow> nat \<Rightarrow> 'e list \<Rightarrow> 'e list" where
  "sift_elems cmp n r es =
     (if r * 2 + 1 < n
      then let c = r * 2 + 1; c = (if c + 1 < n \<and> cmp (es ! c) (es ! (c + 1)) < 0 then c + 1 else c) in
           if cmp (es ! r) (es ! c) \<ge> 0 then es else sift_elems cmp n c (swap r c es)
      else es)"
  by pat_completeness auto
termination
  by (relation "measure (\<lambda>(cmp, n, r, es). n - r)") (auto simp: Let_def split: if_splits)

declare sift_elems.simps [simp del]

lemma elems_sift:
  assumes "0 < sz" "n \<le> num" "num * sz \<le> length a"
  shows "elems sz num (sift cmp sz (n * sz) (r * sz) a) = sift_elems cmp n r (elems sz num a)"
  using assms(3)
proof (induction n\<equiv>"n - r" arbitrary: r a rule: less_induct)
  case (less r a)
  have lt: "k * sz < l * sz \<longleftrightarrow> k < l" for k l using assms(1) by simp
  have g: "r * sz * 2 + sz < n * sz \<longleftrightarrow> r * 2 + 1 < n"
    using lt [of "r * 2 + 1" n] by (simp add: algebra_simps)
  show ?case
  proof (cases "r * 2 + 1 < n")
    case False
    then show ?thesis using g by (subst sift.simps, subst sift_elems.simps) simp
  next
    case True
    let ?es = "elems sz num a" let ?c0 = "r * 2 + 1"
    define c where "c = (if ?c0 + 1 < n \<and> cmp (?es ! ?c0) (?es ! (?c0 + 1)) < 0 then ?c0 + 1 else ?c0)"
    have c: "r < c" "c < n" using True by (auto simp: c_def)
    have g2: "r * sz * 2 + sz < n * sz - sz \<longleftrightarrow> ?c0 + 1 < n"
      using lt [of "?c0 + 1" n] by (simp add: algebra_simps less_diff_conv)
    have cs: "(if r * sz * 2 + sz < n * sz - sz \<and>
          cmp (elem_at sz a (r * sz * 2 + sz)) (elem_at sz a (r * sz * 2 + sz + sz)) < 0
        then r * sz * 2 + sz + sz else r * sz * 2 + sz) = c * sz"
      using True assms(2) g2 unfolding c_def by (auto simp: algebra_simps)
    have l: "sift cmp sz (n * sz) (r * sz) a =
      (if cmp (?es ! r) (?es ! c) \<ge> 0 then a
       else sift cmp sz (n * sz) (c * sz) (vecswap (r * sz) (c * sz) sz a))"
      using True g assms c by (subst sift.simps) (simp only: Let_def cs, simp)
    have r: "sift_elems cmp n r ?es =
      (if cmp (?es ! r) (?es ! c) \<ge> 0 then ?es else sift_elems cmp n c (swap r c ?es))"
      using True by (subst sift_elems.simps) (simp only: Let_def c_def if_True)
    have "elems sz num (sift cmp sz (n * sz) (c * sz) (vecswap (r * sz) (c * sz) sz a)) =
        sift_elems cmp n c (elems sz num (vecswap (r * sz) (c * sz) sz a))"
      using c less.prems by (intro less.hyps) auto
    then show ?thesis
      using elems_vecswap [of sz r num c a] c assms(1,2) less.prems by (auto simp: l r)
  qed
qed

section \<open>The sort of a list of elements\<close>

text \<open>Every element at or above \<open>lo\<close>, those of \<open>X\<close> apart, is at least as large as its children.\<close>

definition heap_on :: "('e \<Rightarrow> 'e \<Rightarrow> int) \<Rightarrow> nat \<Rightarrow> nat \<Rightarrow> nat set \<Rightarrow> 'e list \<Rightarrow> bool" where
  "heap_on cmp lo n X es \<longleftrightarrow>
     (\<forall>p c. lo \<le> p \<and> p \<notin> X \<and> (c = 2 * p + 1 \<or> c = 2 * p + 2) \<and> c < n \<longrightarrow> cmp (es ! c) (es ! p) \<le> 0)"

definition sorted_from :: "('e \<Rightarrow> 'e \<Rightarrow> int) \<Rightarrow> nat \<Rightarrow> 'e list \<Rightarrow> bool" where
  "sorted_from cmp m es \<longleftrightarrow>
     (\<forall>x\<in>set (take m es). \<forall>y\<in>set (drop m es). cmp x y \<le> 0) \<and>
     sorted_wrt (\<lambda>x y. cmp x y \<le> 0) (drop m es)"

fun heapify_elems :: "('e \<Rightarrow> 'e \<Rightarrow> int) \<Rightarrow> nat \<Rightarrow> nat \<Rightarrow> 'e list \<Rightarrow> 'e list" where
  "heapify_elems cmp n 0 es = es"
| "heapify_elems cmp n (Suc k) es = heapify_elems cmp n k (sift_elems cmp n k es)"

fun sort_down_elems :: "('e \<Rightarrow> 'e \<Rightarrow> int) \<Rightarrow> nat \<Rightarrow> 'e list \<Rightarrow> 'e list" where
  "sort_down_elems cmp 0 es = es"
| "sort_down_elems cmp (Suc k) es =
     sort_down_elems cmp k (sift_elems cmp (Suc k) 0 (swap 0 (Suc k) es))"

lemma length_sift_elems [simp]: "length (sift_elems cmp n r es) = length es"
  by (induction cmp n r es rule: sift_elems.induct) (subst sift_elems.simps, simp add: Let_def)

lemma heap_onD:
  "\<lbrakk>heap_on cmp lo n X es; lo \<le> p; p \<notin> X; c = 2 * p + 1 \<or> c = 2 * p + 2; c < n\<rbrakk> \<Longrightarrow>
     cmp (es ! c) (es ! p) \<le> 0"
  by (auto simp: heap_on_def)

lemma elems_heapify:
  assumes "0 < sz" "n \<le> num" "num * sz \<le> length a"
  shows "elems sz num (heapify cmp sz (n * sz) k a) = heapify_elems cmp n k (elems sz num a)"
  using assms(3) by (induction k arbitrary: a) (simp_all add: elems_sift [OF assms(1,2)])

lemma elems_sort_down:
  assumes "0 < sz" "num * sz \<le> length a" "k < num"
  shows "elems sz num (sort_down cmp sz k a) = sort_down_elems cmp k (elems sz num a)"
  using assms(2,3)
proof (induction k arbitrary: a)
  case (Suc k)
  let ?a = "vecswap 0 (Suc k * sz) sz a"
  have v: "elems sz num ?a = swap 0 (Suc k) (elems sz num a)"
    using elems_vecswap [of sz 0 num "Suc k" a] assms(1) Suc.prems by simp
  have "elems sz num (sift cmp sz (Suc k * sz) (0 * sz) ?a) = sift_elems cmp (Suc k) 0 (elems sz num ?a)"
    using Suc.prems assms(1) by (intro elems_sift) auto
  then show ?case
    using Suc.IH [of "sift cmp sz (Suc k * sz) 0 ?a"] Suc.prems v by simp
qed simp

lemma length_heapify [simp]: "length (heapify cmp sz n k a) = length a"
  by (induction k arbitrary: a) simp_all

lemma length_sort_down [simp]: "length (sort_down cmp sz k a) = length a"
  by (induction k arbitrary: a) simp_all

lemma elems_sort:
  assumes "0 < sz" "num * sz \<le> length a"
  shows "elems sz num (sort_base a num sz cmp) =
    sort_down_elems cmp (num - 1) (heapify_elems cmp num (num div 2) (elems sz num a))"
proof (cases "num = 0")
  case False
  then show ?thesis
    using assms by (simp add: sort_base_def Let_def elems_sort_down elems_heapify)
qed (simp add: elems_def)

text \<open>What the routines rely on in a comparison function, for the elements of a set \<open>A\<close>.\<close>

locale comparator =
  fixes cmp :: "'e \<Rightarrow> 'e \<Rightarrow> int" and A :: "'e set"
  assumes cmp_flip: "\<lbrakk>x \<in> A; y \<in> A\<rbrakk> \<Longrightarrow> cmp x y \<ge> 0 \<longleftrightarrow> cmp y x \<le> 0"
    and cmp_trans: "\<lbrakk>x \<in> A; y \<in> A; z \<in> A; cmp x y \<le> 0; cmp y z \<le> 0\<rbrakk> \<Longrightarrow> cmp x z \<le> 0"
begin

lemma larger_child:
  assumes es: "set es \<subseteq> A" "n \<le> length es" and r: "r * 2 + 1 < n"
    and c: "c = (if r * 2 + 2 < n \<and> cmp (es ! (r * 2 + 1)) (es ! (r * 2 + 2)) < 0
      then r * 2 + 2 else r * 2 + 1)"
    and d: "d = 2 * r + 1 \<or> d = 2 * r + 2" "d < n"
  shows "cmp (es ! d) (es ! c) \<le> 0"
proof -
  have "es ! d \<in> A" "es ! (r * 2 + 1) \<in> A" using es r d by (auto intro!: subsetD [OF es(1)])
  moreover have "es ! (r * 2 + 2) \<in> A" if "r * 2 + 2 < n"
    using es that by (auto intro!: subsetD [OF es(1)])
  ultimately show ?thesis
    using c d cmp_flip [of "es ! d" "es ! d"] cmp_flip [of "es ! (r * 2 + 1)" "es ! (r * 2 + 2)"]
    by (auto simp: mult.commute split: if_splits)
qed

lemma sift_heap:
  assumes "set es \<subseteq> A" "n \<le> length es" "lo \<le> r" "heap_on cmp lo n {r} es"
    "\<forall>p c. lo \<le> p \<and> (r = 2 * p + 1 \<or> r = 2 * p + 2) \<and> (c = 2 * r + 1 \<or> c = 2 * r + 2) \<and> c < n \<longrightarrow>
       cmp (es ! c) (es ! p) \<le> 0"
  shows "heap_on cmp lo n {} (sift_elems cmp n r es) \<and> mset (sift_elems cmp n r es) = mset es \<and>
    drop n (sift_elems cmp n r es) = drop n es"
  using assms
proof (induction n\<equiv>"n - r" arbitrary: r es rule: less_induct)
  case (less r es)
  note prems = less.prems
  show ?case
  proof (cases "r * 2 + 1 < n")
    case False
    then have "heap_on cmp lo n {} es"
      using prems(4) unfolding heap_on_def by (metis add_lessD1 mult.commute nat_1_add_1 add.assoc singletonD)
    then show ?thesis using False by (subst (1 2 3) sift_elems.simps) simp
  next
    case True
    define c where "c = (if r * 2 + 2 < n \<and> cmp (es ! (r * 2 + 1)) (es ! (r * 2 + 2)) < 0
      then r * 2 + 2 else r * 2 + 1)"
    note large = larger_child [OF prems(1,2) True c_def]
    have c: "r < c" "c < n" "c = 2 * r + 1 \<or> c = 2 * r + 2" using True by (auto simp: c_def)
    have in_A: "es ! c \<in> A" "es ! r \<in> A" "\<And>d. d < n \<Longrightarrow> es ! d \<in> A"
      using prems(1,2) c by (auto intro!: subsetD [OF prems(1)])
    have step: "sift_elems cmp n r es =
        (if cmp (es ! r) (es ! c) \<ge> 0 then es else sift_elems cmp n c (swap r c es))"
      using True by (subst sift_elems.simps) (simp only: Let_def c_def if_True, simp add: c_def)
    show ?thesis
    proof (cases "cmp (es ! r) (es ! c) \<ge> 0")
      case stop: True
      have "cmp (es ! d) (es ! r) \<le> 0" if "d = 2 * r + 1 \<or> d = 2 * r + 2" "d < n" for d
        using cmp_trans [OF in_A(3) [OF that(2)] in_A(1,2) large [OF that]] cmp_flip [OF in_A(2,1)] stop
        by simp
      then have "heap_on cmp lo n {} es" using prems(4) unfolding heap_on_def by blast
      then show ?thesis using step stop by simp
    next
      case False
      let ?es = "swap r c es"
      have nth: "?es ! k = (if k = c then es ! r else if k = r then es ! c else es ! k)" if "k < n" for k
        using that c prems(2) by (intro nth_swap) auto
      have rc: "cmp (es ! r) (es ! c) \<le> 0" using False by simp
      have "heap_on cmp lo n {c} ?es"
        unfolding heap_on_def
      proof (intro allI impI, elim conjE)
        fix p d assume p: "lo \<le> p" "p \<notin> {c}" "d = 2 * p + 1 \<or> d = 2 * p + 2" "d < n"
        then have "p < n" by auto
        consider "p = r" | "p \<noteq> r" "d = r" | "p \<noteq> r" "d \<noteq> r" by blast
        then show "cmp (?es ! d) (?es ! p) \<le> 0"
        proof cases
          case 1
          then show ?thesis using p large c(1) rc by (auto simp: nth)
        next
          case 2
          then show ?thesis using p prems(5) c \<open>p < n\<close> by (auto simp: nth)
        next
          case 3
          have "d \<noteq> c" using p(3) c(3) 3(1) by presburger
          then show ?thesis using 3 p heap_onD [OF prems(4) p(1) _ p(3,4)] \<open>p < n\<close> by (simp add: nth)
        qed
      qed
      moreover have "cmp (?es ! d) (?es ! p) \<le> 0"
        if "lo \<le> p" "c = 2 * p + 1 \<or> c = 2 * p + 2" "d = 2 * c + 1 \<or> d = 2 * c + 2" "d < n" for p d
      proof -
        have "p = r" using that(2) c(3) by presburger
        then show ?thesis
          using that heap_onD [OF prems(4) _ _ that(3,4)] prems(3) c(1,2) by (auto simp: nth)
      qed
      moreover have ms: "mset ?es = mset es" using c prems(2) by (intro mset_swap_elems) auto
      moreover have "drop n ?es = drop n es" using c by (simp add: swap_def)
      ultimately show ?thesis
        using less.hyps [of c ?es] c prems(1-3) mset_eq_setD [OF ms] False step by simp
    qed
  qed
qed

lemma heapify_heap:
  "\<lbrakk>set es \<subseteq> A; n \<le> length es; heap_on cmp k n {} es\<rbrakk> \<Longrightarrow>
     heap_on cmp 0 n {} (heapify_elems cmp n k es) \<and> mset (heapify_elems cmp n k es) = mset es"
proof (induction k arbitrary: es)
  case (Suc k)
  have "heap_on cmp k n {k} es"
    unfolding heap_on_def by (intro allI impI) (auto intro!: heap_onD [OF Suc.prems(3)])
  then have s: "heap_on cmp k n {} (sift_elems cmp n k es) \<and> mset (sift_elems cmp n k es) = mset es \<and>
      drop n (sift_elems cmp n k es) = drop n es"
    using Suc.prems by (intro sift_heap) auto
  then have "set (sift_elems cmp n k es) = set es" using mset_eq_setD by blast
  then show ?case using Suc.IH [of "sift_elems cmp n k es"] Suc.prems s by simp
qed simp

lemma root_largest:
  assumes "set es \<subseteq> A" "n \<le> length es" "heap_on cmp 0 n {} es"
  shows "i < n \<Longrightarrow> cmp (es ! i) (es ! 0) \<le> 0"
proof (induction i rule: less_induct)
  case (less i)
  have in_A: "k < n \<Longrightarrow> es ! k \<in> A" for k using assms(1,2) by (auto intro!: subsetD [OF assms(1)])
  show ?case
  proof (cases "i = 0")
    case True
    then show ?thesis using cmp_flip [OF in_A in_A, of 0 0] less.prems by (cases "0 \<le> cmp (es ! 0) (es ! 0)") auto
  next
    case False
    define p where "p = (i - 1) div 2"
    have p: "i = 2 * p + 1 \<or> i = 2 * p + 2" "p < i" using False unfolding p_def by presburger+
    have "cmp (es ! i) (es ! p) \<le> 0" using heap_onD [OF assms(3) _ _ p(1)] less.prems by simp
    then show ?thesis
      using less.IH [OF p(2)] cmp_trans [OF in_A in_A in_A, of i p 0] p(2) less.prems by simp
  qed
qed

lemma sort_down_sorted:
  "\<lbrakk>set es \<subseteq> A; k < length es; heap_on cmp 0 (Suc k) {} es; sorted_from cmp (Suc k) es\<rbrakk> \<Longrightarrow>
     sorted_wrt (\<lambda>x y. cmp x y \<le> 0) (sort_down_elems cmp k es) \<and> mset (sort_down_elems cmp k es) = mset es"
proof (induction k arbitrary: es)
  case 0
  then obtain x xs where "es = x # xs" by (cases es) auto
  then show ?case using 0 by (simp add: sorted_from_def)
next
  case (Suc k)
  let ?sw = "swap 0 (Suc k) es" let ?si = "sift_elems cmp (Suc k) 0 ?sw"
  have ms: "mset ?sw = mset es" using Suc.prems by (intro mset_swap_elems) auto
  have set_sw: "set ?sw \<subseteq> A" using mset_eq_setD [OF ms] Suc.prems(1) by simp
  have nth: "?sw ! i = (if i = Suc k then es ! 0 else if i = 0 then es ! Suc k else es ! i)"
    if "i < length es" for i using that Suc.prems by (intro nth_swap) auto
  have "heap_on cmp 0 (Suc k) {0} ?sw"
    using heap_onD [OF Suc.prems(3)] Suc.prems(2) unfolding heap_on_def by (auto simp: nth)
  then have si: "heap_on cmp 0 (Suc k) {} ?si \<and> mset ?si = mset ?sw \<and> drop (Suc k) ?si = drop (Suc k) ?sw"
    using Suc.prems set_sw by (intro sift_heap) auto
  have drop_sw: "drop (Suc k) ?sw = es ! 0 # drop (Suc (Suc k)) es"
    using Suc.prems(2) by (subst Cons_nth_drop_Suc [symmetric]) (simp_all add: nth, simp add: swap_def)
  have "mset (take (Suc k) ?si) + mset (drop (Suc k) ?si) = mset es"
    using si ms by (metis append_take_drop_id mset_append)
  then have "mset (es ! 0 # take (Suc k) ?si) + mset (drop (Suc (Suc k)) es) = mset es"
    using si drop_sw by simp
  also have "mset es = mset (take (Suc (Suc k)) es) + mset (drop (Suc (Suc k)) es)"
    by (metis append_take_drop_id mset_append)
  finally have "mset (es ! 0 # take (Suc k) ?si) = mset (take (Suc (Suc k)) es)"
    by (rule add_right_imp_eq)
  then have pre: "set (take (Suc k) ?si) \<subseteq> set (take (Suc (Suc k)) es)" "es ! 0 \<in> set (take (Suc (Suc k)) es)"
    using mset_eq_setD by fastforce+
  have "\<forall>x\<in>set (take (Suc (Suc k)) es). cmp x (es ! 0) \<le> 0"
    using root_largest [OF Suc.prems(1) _ Suc.prems(3)] Suc.prems(2) by (auto simp: in_set_conv_nth)
  then have "sorted_from cmp (Suc k) ?si"
    using Suc.prems(4) pre si drop_sw unfolding sorted_from_def by auto
  moreover have "set ?si \<subseteq> A" using si set_sw mset_eq_setD by blast
  ultimately show ?case using Suc.IH [of ?si] si ms Suc.prems(2) by simp
qed

end

text \<open>The same for the elements of an array, lists of units.\<close>

locale array_comparator = comparator cmp A
  for cmp :: "'c list \<Rightarrow> 'c list \<Rightarrow> int" and A
begin

lemma sort_sorts:
  assumes "0 < sz" "num * sz \<le> length a" "set (elems sz num a) \<subseteq> A"
  shows "sorted_wrt (\<lambda>x y. cmp x y \<le> 0) (elems sz num (sort_base a num sz cmp)) \<and>
    mset (elems sz num (sort_base a num sz cmp)) = mset (elems sz num a)"
proof (cases "num = 0")
  case False
  let ?es = "elems sz num a" let ?h = "heapify_elems cmp num (num div 2) ?es"
  have "heap_on cmp (num div 2) num {} ?es" unfolding heap_on_def by auto
  then have h: "heap_on cmp 0 num {} ?h \<and> mset ?h = mset ?es"
    using assms(3) by (intro heapify_heap) auto
  then have len: "length ?h = num" using mset_eq_length by fastforce
  have "set ?h \<subseteq> A" using h assms(3) mset_eq_setD by blast
  then have "sorted_wrt (\<lambda>x y. cmp x y \<le> 0) (sort_down_elems cmp (num - 1) ?h) \<and>
      mset (sort_down_elems cmp (num - 1) ?h) = mset ?h"
    using h False len by (intro sort_down_sorted) (auto simp: sorted_from_def)
  then show ?thesis using h elems_sort [OF assms(1,2)] by simp
qed (simp add: elems_def)

end

section \<open>The search of an ordered array\<close>

text \<open>The elements the key is above come first, then those it matches, then those it is below.\<close>

definition ordered_for :: "(nat \<Rightarrow> int) \<Rightarrow> nat \<Rightarrow> nat \<Rightarrow> nat \<Rightarrow> bool" where
  "ordered_for f sz base n \<longleftrightarrow> (\<forall>j<n. \<forall>i<j.
     (f (base + j * sz) > 0 \<longrightarrow> f (base + i * sz) > 0) \<and>
     (f (base + i * sz) < 0 \<longrightarrow> f (base + j * sz) < 0))"

definition search_result :: "(nat \<Rightarrow> int) \<Rightarrow> nat \<Rightarrow> nat \<Rightarrow> nat \<Rightarrow> nat option \<Rightarrow> bool" where
  "search_result f sz base n r \<longleftrightarrow>
     (case r of Some p \<Rightarrow> f p = 0 \<and> p \<in> (\<lambda>i. base + i * sz) ` {..<n}
      | None \<Rightarrow> \<forall>i<n. f (base + i * sz) \<noteq> 0)"

lemma ordered_forD:
  assumes "ordered_for f sz base n" "i < j" "j < n"
  shows "f (base + j * sz) > 0 \<Longrightarrow> f (base + i * sz) > 0" "f (base + i * sz) < 0 \<Longrightarrow> f (base + j * sz) < 0"
  using assms by (auto simp: ordered_for_def)

lemma search_result_right:
  assumes "search_result f sz (base + Suc m * sz) k r" "Suc m + k = n" "f (base + m * sz) > 0"
    "ordered_for f sz base n"
  shows "search_result f sz base n r"
proof (cases r)
  case None
  have "f (base + i * sz) \<noteq> 0" if "i < n" for i
  proof (cases "i \<le> m")
    case True
    then show ?thesis using ordered_forD(1) [OF assms(4), of i m] assms(2,3) by (cases "i = m") auto
  next
    case False
    then obtain d where d: "i = Suc m + d" using le_Suc_ex [of "Suc m" i] by auto
    then have "f (base + Suc m * sz + d * sz) \<noteq> 0"
      using that assms(1,2) None by (simp add: search_result_def del: mult_Suc)
    then show ?thesis by (simp add: d add_mult_distrib add.assoc)
  qed
  then show ?thesis using None by (simp add: search_result_def)
next
  case (Some p)
  then obtain i where i: "f p = 0" "i < k" and p: "p = base + Suc m * sz + i * sz"
    using assms(1) by (auto simp: search_result_def simp del: mult_Suc)
  have "p \<in> (\<lambda>i. base + i * sz) ` {..<n}"
    using i(2) assms(2) by (intro image_eqI [of _ _ "Suc m + i"]) (auto simp: p algebra_simps)
  then show ?thesis using Some i(1) by (simp add: search_result_def)
qed

lemma search_result_left:
  assumes "search_result f sz base m r" "m < n" "f (base + m * sz) < 0" "ordered_for f sz base n"
  shows "search_result f sz base n r"
proof (cases r)
  case None
  have "f (base + i * sz) \<noteq> 0" if "i < n" for i
    using assms(1,3) None that ordered_forD(2) [OF assms(4), of m i] unfolding search_result_def
    by (cases "i < m"; cases "i = m") auto
  then show ?thesis using None by (simp add: search_result_def)
qed (use assms in \<open>auto simp: search_result_def\<close>)

lemma bsearch_loop_result:
  "ordered_for f sz base n \<Longrightarrow> search_result f sz base n (bsearch_loop f sz base n)"
proof (induction f sz base n rule: bsearch_loop.induct)
  case (1 f sz base n)
  let ?m = "n div 2" let ?p = "base + ?m * sz"
  show ?case
  proof (cases "n = 0")
    case True
    then show ?thesis by (subst bsearch_loop.simps) (simp add: search_result_def)
  next
    case False
    consider "f ?p = 0" | "f ?p > 0" | "f ?p < 0" by linarith
    then show ?thesis
    proof cases
      case 1
      then show ?thesis using False by (subst bsearch_loop.simps) (auto simp: search_result_def Let_def)
    next
      case 2
      have size: "Suc ?m + (n - 1) div 2 = n" using False by presburger
      have "ordered_for f sz (?p + sz) ((n - 1) div 2)"
        unfolding ordered_for_def
      proof (intro allI impI)
        fix j i assume "j < (n - 1) div 2" "i < j"
        then have "(0 < f (base + (Suc ?m + j) * sz) \<longrightarrow> 0 < f (base + (Suc ?m + i) * sz)) \<and>
            (f (base + (Suc ?m + i) * sz) < 0 \<longrightarrow> f (base + (Suc ?m + j) * sz) < 0)"
          using ordered_forD [OF "1.prems", of "Suc ?m + i" "Suc ?m + j"] size by simp
        then show "(0 < f (?p + sz + j * sz) \<longrightarrow> 0 < f (?p + sz + i * sz)) \<and>
            (f (?p + sz + i * sz) < 0 \<longrightarrow> f (?p + sz + j * sz) < 0)"
          by (simp add: algebra_simps)
      qed
      then have "search_result f sz (base + Suc ?m * sz) ((n - 1) div 2) (bsearch_loop f sz (?p + sz) ((n - 1) div 2))"
        using "1.IH"(1) [OF _ refl refl] 2 False by (simp add: algebra_simps)
      then show ?thesis
        using search_result_right size 2 "1.prems" False by (subst bsearch_loop.simps) (simp add: Let_def)
    next
      case 3
      have "?m < n" using False by simp
      moreover have "ordered_for f sz base ?m"
        unfolding ordered_for_def using ordered_forD [OF "1.prems"] \<open>?m < n\<close> by (meson less_trans)
      ultimately show ?thesis
        using 3 "1.IH"(2) [OF _ refl refl] search_result_left [OF _ _ 3 "1.prems"] False
        by (subst bsearch_loop.simps) (simp add: Let_def)
    qed
  qed
qed

section \<open>The units after the array\<close>

lemma vecswap_frame:
  assumes "i + sz \<le> n" "j + sz \<le> n" "n \<le> x"
  shows "vecswap i j sz a ! x = a ! x"
  using assms by (auto simp: vecswap_def intro!: swapcode_frame)

lemma sift_frame: "n \<le> x \<Longrightarrow> r \<le> n - sz \<Longrightarrow> sz dvd r \<Longrightarrow> sz dvd n \<Longrightarrow> sift cmp sz n r a ! x = a ! x"
proof (induction cmp sz n r a rule: sift.induct)
  case (1 cmp sz n r a)
  define c where "c = (if r * 2 + sz < n - sz \<and>
      cmp (elem_at sz a (r * 2 + sz)) (elem_at sz a (r * 2 + sz + sz)) < 0
    then r * 2 + sz + sz else r * 2 + sz)"
  show ?case
  proof (cases "0 < sz \<and> r * 2 + sz < n")
    case True
    have step: "sift cmp sz n r a = (if cmp (elem_at sz a r) (elem_at sz a c) \<ge> 0 then a
        else sift cmp sz n c (vecswap r c sz a))"
      by (subst sift.simps) (simp only: if_P [OF True] Let_def c_def)
    have dvd: "sz dvd r * 2 + sz" using "1.prems"(3) by simp
    have fit: "k + sz \<le> n" if k: "k < n" "sz dvd k" for k
    proof -
      obtain u v where "k = sz * u" "n = sz * v" using k(2) "1.prems"(4) by (auto elim!: dvdE)
      then show ?thesis using k(1) mult_le_mono2 [of "Suc u" v sz] by (simp add: add.commute)
    qed
    have c: "c \<le> n - sz" "sz dvd c"
      using True dvd fit [OF _ dvd] fit [of "r * 2 + sz + sz"] unfolding c_def
      by (auto simp: less_diff_conv le_diff_conv2 split: if_splits)
    have "sift cmp sz n c (vecswap r c sz a) ! x = vecswap r c sz a ! x"
      if "\<not> cmp (elem_at sz a r) (elem_at sz a c) \<ge> 0"
      using "1.IH" [OF True refl] that "1.prems" c unfolding c_def by simp
    moreover have "vecswap r c sz a ! x = a ! x"
      using vecswap_frame [of r sz n c x a] c fit [OF _ dvd] True "1.prems"(1,2) by linarith
    ultimately show ?thesis by (simp add: step)
  next
    case False
    then show ?thesis by (subst sift.simps) (simp only: if_False)
  qed
qed

lemma sort_frame:
  assumes "0 < sz" "num * sz \<le> x"
  shows "sort_base a num sz cmp ! x = a ! x"
proof -
  have hf: "k \<le> num div 2 \<Longrightarrow> heapify cmp sz (num * sz) k a ! x = a ! x" for k a
  proof (induction k arbitrary: a)
    case (Suc k)
    then have "Suc k \<le> num" by simp
    then have "k * sz + sz \<le> num * sz" using mult_le_mono1 [of "Suc k" num sz] by simp
    then show ?case using Suc assms(2) by (simp add: sift_frame)
  qed simp
  have "k < num \<Longrightarrow> sort_down cmp sz k a ! x = a ! x" for k a
  proof (induction k arbitrary: a)
    case (Suc k)
    then have le: "Suc k * sz + sz \<le> num * sz" using mult_le_mono1 [of "Suc (Suc k)" num sz] by simp
    have "vecswap 0 (Suc k * sz) sz a ! x = a ! x"
      by (rule vecswap_frame [of _ _ "num * sz"]) (use le assms(2) in linarith)+
    then show ?case using Suc le assms(2) by (simp add: sift_frame)
  qed simp
  then show ?thesis
    using hf by (cases "num = 0") (simp_all add: sort_base_def Let_def)
qed

section \<open>What the routines promise\<close>



text \<open>
  \<^verbatim>\<open>bsearch\<close>, on an array in the order of the comparison with the key, returns a pointer to an
  element of the array that matches the key when there is one, and none otherwise.
\<close>

lemma bsearch_finds:
  assumes "ordered_for (compar key) sz base0 nmemb"
  shows "search_result (compar key) sz base0 nmemb (bsearch key base0 nmemb sz compar)"
  unfolding bsearch_def by (rule bsearch_loop_result [OF assms])

lemma bsearch_finds_example:
  "bsearch 5 4 6 2 (\<lambda>key p. key - int p div 2) = Some 10 \<and>
   search_result (\<lambda>p. 5 - int p div 2) 2 4 6 (bsearch 5 4 6 2 (\<lambda>key p. key - int p div 2))"
  using bsearch_finds [of "\<lambda>key p. key - int p div 2" 5 2 4 6]
  by (simp add: ordered_for_def bsearch_def) (simp add: bsearch_loop.simps Let_def)

end
