(* ===== verification/F9_Sampling.thy ===== *)
theory F9_Sampling
  imports F9_Sort
begin

text \<open>
  The symbol table \<^verbatim>\<open>kernel/ksym.c\<close> and the profiler \<^verbatim>\<open>kernel/sampling.c\<close>, with their static variables as two
  records. The table at \<^verbatim>\<open>symtab_start\<close> is written into the image by a build step; it is an argument of
  \<^verbatim>\<open>ksym_init\<close>. A pointer into the table is a byte offset, with 8 bytes to an entry.
\<close>

section \<open>Symbols\<close>

definition KSYM_MAGIC :: u32 where "KSYM_MAGIC = 0xA2CB"

definition MAX_KSYM :: nat where "MAX_KSYM = 512"

record ksym_t =
  ks_addr :: memptr
  ks_strid :: nat

record symtab =
  symtab_magic :: u32
  symtab_count :: nat
  symtab_tbl :: "ksym_t list"
  symtab_strings :: string

record ksyms =
  ksym_count :: nat
  ksym_tbl :: "ksym_t list"
  ksym_strings :: string
  prev_index :: nat

definition sizeof_ksym :: nat where "sizeof_ksym = 8"

definition ksym_init :: "symtab \<Rightarrow> ksyms \<Rightarrow> ksyms" where
  "ksym_init st k =
     (if symtab_magic st = KSYM_MAGIC
      then k\<lparr>ksym_count := symtab_count st, ksym_tbl := symtab_tbl st, ksym_strings := symtab_strings st\<rparr>
      else k\<lparr>ksym_count := 1, ksym_tbl := [\<lparr>ks_addr = 0, ks_strid = 0\<rparr>],
             ksym_strings := ''No symbol'' @ [CHR 0x00, CHR 0x00]\<rparr>)"

definition ksym_total :: "ksyms \<Rightarrow> nat" where
  "ksym_total k = ksym_count k"

text \<open>The difference of two pointers, as an \<^verbatim>\<open>int\<close>.\<close>

definition cmp_key :: "ksyms \<Rightarrow> memptr \<Rightarrow> nat \<Rightarrow> int" where
  "cmp_key k addr p =
     (let sym = p div sizeof_ksym in
      if sym = ksym_total k - 1 then 0
      else if addr \<ge> ks_addr (ksym_tbl k ! sym) \<and> addr < ks_addr (ksym_tbl k ! (sym + 1)) then 0
      else sint (addr - ks_addr (ksym_tbl k ! sym)))"

definition ksym_lookup :: "memptr \<Rightarrow> ksyms \<Rightarrow> (int \<times> ksyms) outcome" where
  "ksym_lookup addr k =
     bindF (array_get (ksym_tbl k) (prev_index k)) (\<lambda>prev.
       let found = (if ks_addr prev < addr
                    then bsearch addr (prev_index k * sizeof_ksym) (ksym_count k - prev_index k)
                           sizeof_ksym (cmp_key k)
                    else bsearch addr 0 (ksym_count k) sizeof_ksym (cmp_key k)) in
       case found of
         None \<Rightarrow> Inr (-1, k)
       | Some p \<Rightarrow> Inr (int (p div sizeof_ksym), k\<lparr>prev_index := p div sizeof_ksym\<rparr>))"

definition ksym_id2name :: "nat \<Rightarrow> ksyms \<Rightarrow> string outcome" where
  "ksym_id2name symid k =
     bindF (array_get (ksym_tbl k) symid) (\<lambda>sym.
       Inr (takeWhile (\<lambda>c. c \<noteq> CHR 0x00) (drop (ks_strid sym) (ksym_strings k))))"

definition ksym_id2addr :: "nat \<Rightarrow> ksyms \<Rightarrow> memptr outcome" where
  "ksym_id2addr symid k = bindF (array_get (ksym_tbl k) symid) (\<lambda>sym. Inr (ks_addr sym))"

section \<open>Samples\<close>

definition MAX_SAMPLING_COUNT :: nat where "MAX_SAMPLING_COUNT = 10240"

record samples =
  sampled_pc :: "memptr list"
  sampled_count :: nat
  sampling_enabled :: bool
  ksym_hitcount :: "int list"
  ksymid_sortedlist :: "int list"

definition sampling_enable :: "samples \<Rightarrow> samples" where
  "sampling_enable s = s\<lparr>sampling_enabled := True\<rparr>"

definition sampling_disable :: "samples \<Rightarrow> samples" where
  "sampling_disable s = s\<lparr>sampling_enabled := False\<rparr>"

text \<open>The message of the first branch is not part of the state.\<close>

definition sampling_init :: "ksyms \<Rightarrow> samples \<Rightarrow> samples" where
  "sampling_init k s =
     (if ksym_total k > MAX_KSYM then s
      else s\<lparr>sampled_pc := replicate MAX_SAMPLING_COUNT 0, sampled_count := 0\<rparr>)"

definition sampled_pcpush :: "memptr \<Rightarrow> samples \<Rightarrow> samples outcome" where
  "sampled_pcpush pc s =
     (if \<not> sampling_enabled s then Inr s
      else let i = (if sampled_count s = MAX_SAMPLING_COUNT then 0 else sampled_count s) in
           bindF (array_set (sampled_pc s) i pc) (\<lambda>pcs. Inr (s\<lparr>sampled_pc := pcs, sampled_count := i + 1\<rparr>)))"

text \<open>The comparisons read one unit, a pointer or an \<^verbatim>\<open>int\<close>; the first subtracts in 32 bits.\<close>

definition cmp_addr :: "memptr list \<Rightarrow> memptr list \<Rightarrow> int" where
  "cmp_addr p1 p2 = sint (p1 ! 0 - p2 ! 0)"

definition cmp_symhit :: "int list \<Rightarrow> int list \<Rightarrow> int list \<Rightarrow> int" where
  "cmp_symhit hitcount p1 p2 = hitcount ! nat (p2 ! 0) - hitcount ! nat (p1 ! 0)"

text \<open>The loop that attributes the samples to symbols.\<close>

fun count_hits :: "memptr list \<Rightarrow> ksyms \<Rightarrow> int list \<Rightarrow> (ksyms \<times> int list) outcome" where
  "count_hits [] k hits = Inr (k, hits)"
| "count_hits (pc # pcs) k hits =
     bindF (ksym_lookup pc k) (\<lambda>(symid, k).
       if symid < 0 then count_hits pcs k hits
       else bindF (array_get hits (nat symid)) (\<lambda>h.
            bindF (array_set hits (nat symid) (h + 1)) (\<lambda>hits. count_hits pcs k hits)))"

text \<open>A table of more than \<open>MAX_KSYM\<close> symbols is sorted beyond the end of the list of symbols.\<close>

definition sampling_stats :: "ksyms \<Rightarrow> samples \<Rightarrow> (ksyms \<times> samples) outcome" where
  "sampling_stats k s =
     (let s = s\<lparr>sampled_pc := sort_base (sampled_pc s) MAX_SAMPLING_COUNT 1 cmp_addr\<rparr>;
          s = s\<lparr>ksym_hitcount := replicate MAX_KSYM 0, ksymid_sortedlist := map int [0..<MAX_KSYM]\<rparr> in
      bindF (count_hits (sampled_pc s) k (ksym_hitcount s)) (\<lambda>(k, hits).
      if ksym_total k > MAX_KSYM then Inl OutOfBounds
      else Inr (k, s\<lparr>ksym_hitcount := hits,
             ksymid_sortedlist := sort_base (ksymid_sortedlist s) (ksym_total k) 1 (cmp_symhit hits)\<rparr>)))"

section \<open>The symbol of an address\<close>

text \<open>
  Symbols in ascending order, in the lower half of the address space, where the flash and the RAM are:
  the difference of two such addresses fits an \<^verbatim>\<open>int\<close>.
\<close>

definition low_addr :: "memptr \<Rightarrow> bool" where
  "low_addr a \<longleftrightarrow> unat a < 2147483648"

definition ksyms_ok :: "ksyms \<Rightarrow> bool" where
  "ksyms_ok k \<longleftrightarrow> prev_index k < ksym_count k \<and> length (ksym_tbl k) = ksym_count k \<and>
     sorted_wrt (\<lambda>x y. ks_addr x < ks_addr y) (ksym_tbl k) \<and> list_all (\<lambda>x. low_addr (ks_addr x)) (ksym_tbl k)"

text \<open>The symbol that an address belongs to.\<close>

definition symbol_of :: "ksyms \<Rightarrow> memptr \<Rightarrow> nat \<Rightarrow> bool" where
  "symbol_of k addr i \<longleftrightarrow> i < ksym_count k \<and> ks_addr (ksym_tbl k ! i) \<le> addr \<and>
     (Suc i < ksym_count k \<longrightarrow> addr < ks_addr (ksym_tbl k ! Suc i))"

text \<open>The comparison without the special treatment of the last symbol.\<close>

definition plain_key :: "ksyms \<Rightarrow> memptr \<Rightarrow> nat \<Rightarrow> int" where
  "plain_key k addr p =
     (let sym = ksym_total k - 1 in
      if p = sym * sizeof_ksym \<and> addr < ks_addr (ksym_tbl k ! sym) then -1 else cmp_key k addr p)"

lemma ptr_diff: "\<lbrakk>low_addr a; low_addr b\<rbrakk> \<Longrightarrow> sint (a - b) = uint a - uint b"
  by (cases "unat b \<le> unat a") (auto simp: sint32 low_addr_def unat_sub32 unat_sub_if' )

lemma ksyms_mono:
  assumes "ksyms_ok k" "i \<le> j" "j < ksym_count k"
  shows "ks_addr (ksym_tbl k ! i) \<le> ks_addr (ksym_tbl k ! j)"
  using assms sorted_wrt_nth_less [of "\<lambda>x y. ks_addr x < ks_addr y" "ksym_tbl k" i j]
  by (cases "i = j") (auto simp: ksyms_ok_def)

lemma ksyms_low: "\<lbrakk>ksyms_ok k; i < ksym_count k\<rbrakk> \<Longrightarrow> low_addr (ks_addr (ksym_tbl k ! i))"
  by (simp add: ksyms_ok_def list_all_length)

lemma plain_key_signs:
  assumes k: "ksyms_ok k" and a: "low_addr addr" and i: "i < ksym_count k"
  shows "plain_key k addr (i * sizeof_ksym) > 0 \<longleftrightarrow> Suc i < ksym_count k \<and> ks_addr (ksym_tbl k ! Suc i) \<le> addr"
    "plain_key k addr (i * sizeof_ksym) < 0 \<longleftrightarrow> addr < ks_addr (ksym_tbl k ! i)"
    "plain_key k addr (i * sizeof_ksym) = 0 \<longleftrightarrow> symbol_of k addr i"
proof -
  let ?s = "ks_addr (ksym_tbl k ! i)" let ?t = "ks_addr (ksym_tbl k ! Suc i)"
  have d: "sint (addr - ?s) = uint addr - uint ?s"
    by (rule ptr_diff [OF a ksyms_low [OF k i]])
  have st: "uint ?s < uint ?t" if "Suc i < ksym_count k"
    using k that sorted_wrt_nth_less [of "\<lambda>x y. ks_addr x < ks_addr y" "ksym_tbl k" i "Suc i"]
    by (simp add: ksyms_ok_def word_less_def)
  have last: "i = ksym_total k - 1 \<longleftrightarrow> \<not> Suc i < ksym_count k" using i by (auto simp: ksym_total_def)
  note defs = plain_key_def cmp_key_def symbol_of_def Let_def sizeof_ksym_def word_less_def word_le_def
  show "plain_key k addr (i * sizeof_ksym) > 0 \<longleftrightarrow> Suc i < ksym_count k \<and> ?t \<le> addr"
    "plain_key k addr (i * sizeof_ksym) < 0 \<longleftrightarrow> addr < ?s"
    "plain_key k addr (i * sizeof_ksym) = 0 \<longleftrightarrow> symbol_of k addr i"
    using st d last i by (auto simp: defs)
qed

lemma plain_key_ordered:
  assumes "ksyms_ok k" "low_addr addr"
  shows "ordered_for (plain_key k addr) sizeof_ksym (b * sizeof_ksym) (ksym_count k - b)"
  unfolding ordered_for_def
proof (intro allI impI)
  fix j i assume ij: "j < ksym_count k - b" "i < j"
  then have "b + j < ksym_count k" "b + i < ksym_count k" "Suc (b + i) \<le> b + j" by auto
  then show "(0 < plain_key k addr (b * sizeof_ksym + j * sizeof_ksym) \<longrightarrow>
        0 < plain_key k addr (b * sizeof_ksym + i * sizeof_ksym)) \<and>
      (plain_key k addr (b * sizeof_ksym + i * sizeof_ksym) < 0 \<longrightarrow>
        plain_key k addr (b * sizeof_ksym + j * sizeof_ksym) < 0)"
    using ksyms_mono [OF assms(1), of "Suc (b + i)" "Suc (b + j)"] ksyms_mono [OF assms(1), of "b + i" "b + j"]
    unfolding add_mult_distrib [symmetric] by (auto simp: plain_key_signs [OF assms])
qed

text \<open>A search that meets one more match either stops there or does not notice it.\<close>

lemma bsearch_extra_match:
  assumes "f p = 0" "\<And>q. q \<noteq> p \<Longrightarrow> f q = g q"
  shows "bsearch_loop f sz base n = Some p \<or> bsearch_loop f sz base n = bsearch_loop g sz base n"
proof (induction n arbitrary: base rule: less_induct)
  case (less n)
  let ?q = "base + n div 2 * sz"
  have unfold: "bsearch_loop h sz base n =
      (if n = 0 then None else if h ?q = 0 then Some ?q
       else if h ?q > 0 then bsearch_loop h sz (?q + sz) ((n - 1) div 2)
       else bsearch_loop h sz base (n div 2))" for h
    by (subst bsearch_loop.simps) (simp add: Let_def)
  show ?case
  proof (cases "n = 0 \<or> ?q = p")
    case True
    then show ?thesis unfolding unfold [of f] unfold [of g] using assms(1) by auto
  next
    case False
    then have "(n - 1) div 2 < n" "n div 2 < n" "f ?q = g ?q" using assms(2) by auto
    then show ?thesis
      using less [of "(n - 1) div 2" "?q + sz"] less [of "n div 2" base] False
      unfolding unfold [of f] unfold [of g] by presburger
  qed
qed

lemma ksym_lookup_cases:
  assumes k: "ksyms_ok k" and a: "low_addr addr"
  obtains (found) i where "ksym_lookup addr k = Inr (int i, k\<lparr>prev_index := i\<rparr>)" "i < ksym_count k"
      "symbol_of k addr i \<or> i = ksym_count k - 1"
    | (missing) "ksym_lookup addr k = Inr (-1, k)" "\<nexists>i. symbol_of k addr i"
proof -
  let ?prev = "ksym_tbl k ! prev_index k" let ?n = "ksym_count k"
  define b where "b = (if ks_addr ?prev < addr then prev_index k else 0)"
  define r where "r = bsearch_loop (cmp_key k addr) sizeof_ksym (b * sizeof_ksym) (?n - b)"
  have b: "b < ?n" "prev_index k < length (ksym_tbl k)" using k by (auto simp: b_def ksyms_ok_def)
  have lookup: "ksym_lookup addr k = (case r of None \<Rightarrow> Inr (-1, k)
      | Some p \<Rightarrow> Inr (int (p div sizeof_ksym), k\<lparr>prev_index := p div sizeof_ksym\<rparr>))"
    using b by (simp add: ksym_lookup_def b_def r_def bsearch_def Let_def)
  have before: "b \<le> i" if "symbol_of k addr i" for i
    using that b(1) ksyms_mono [OF k, of "Suc i" "prev_index k"] k
    by (fastforce simp: b_def symbol_of_def ksyms_ok_def)
  have res: "search_result (plain_key k addr) sizeof_ksym (b * sizeof_ksym) (?n - b)
      (bsearch_loop (plain_key k addr) sizeof_ksym (b * sizeof_ksym) (?n - b))"
    by (rule bsearch_loop_result [OF plain_key_ordered [OF k a]])
  have "cmp_key k addr ((ksym_total k - 1) * sizeof_ksym) = 0" by (simp add: cmp_key_def sizeof_ksym_def)
  then have "r = Some ((ksym_total k - 1) * sizeof_ksym) \<or>
      r = bsearch_loop (plain_key k addr) sizeof_ksym (b * sizeof_ksym) (?n - b)"
    unfolding r_def by (rule bsearch_extra_match) (simp add: plain_key_def Let_def)
  then have "r = Some ((?n - 1) * sizeof_ksym) \<or>
      search_result (plain_key k addr) sizeof_ksym (b * sizeof_ksym) (?n - b) r"
    using res by (auto simp: ksym_total_def)
  then consider "r = Some ((?n - 1) * sizeof_ksym)"
    | "r = None" "\<forall>i<?n - b. plain_key k addr ((b + i) * sizeof_ksym) \<noteq> 0"
    | i where "i < ?n - b" "r = Some ((b + i) * sizeof_ksym)" "plain_key k addr ((b + i) * sizeof_ksym) = 0"
    by (cases r) (auto simp: search_result_def add_mult_distrib)
  then show thesis
  proof cases
    case 1
    then show ?thesis using lookup b(1) by (intro found [of "?n - 1"]) (simp_all add: sizeof_ksym_def)
  next
    case 2
    have "\<not> symbol_of k addr i" for i
    proof
      assume i: "symbol_of k addr i"
      then have "i - b < ?n - b" "b + (i - b) = i" using before [OF i] b(1) by (auto simp: symbol_of_def)
      then show False using 2(2) plain_key_signs(3) [OF k a, of i] i by (metis symbol_of_def)
    qed
    then show ?thesis using lookup 2(1) by (intro missing) auto
  next
    case 3
    then show ?thesis
      using lookup plain_key_signs(3) [OF k a, of "b + i"]
      by (intro found [of "b + i"]) (auto simp: sizeof_ksym_def)
  qed
qed

lemma ksyms_ok_prev [simp]: "\<lbrakk>ksyms_ok k; i < ksym_count k\<rbrakk> \<Longrightarrow> ksyms_ok (k\<lparr>prev_index := i\<rparr>)"
  by (simp add: ksyms_ok_def)

text \<open>
  The lookup of an address in a table of symbols in ascending order finds the symbol it belongs to,
  or the last symbol of the table, and nothing only for an address before the first symbol. Whatever
  symbol the last lookup stopped at, the search that starts there instead of at the first one gives
  one of these answers.
\<close>

lemma ksym_lookup_attributes:
  assumes "ksyms_ok k" "low_addr addr"
  shows "\<exists>symid k'. ksym_lookup addr k = Inr (symid, k') \<and> ksyms_ok k' \<and> k' = k\<lparr>prev_index := prev_index k'\<rparr> \<and>
    (if symid < 0 then \<nexists>i. symbol_of k addr i
     else symbol_of k addr (nat symid) \<or> nat symid = ksym_count k - 1)"
proof (rule ksym_lookup_cases [OF assms])
  fix i assume "ksym_lookup addr k = Inr (int i, k\<lparr>prev_index := i\<rparr>)" "i < ksym_count k"
    "symbol_of k addr i \<or> i = ksym_count k - 1"
  then show ?thesis
    using assms(1) by (intro exI [of _ "int i"] exI [of _ "k\<lparr>prev_index := i\<rparr>"]) simp
next
  assume "ksym_lookup addr k = Inr (-1, k)" "\<nexists>i. symbol_of k addr i"
  then show ?thesis using assms(1) by (intro exI [of _ "-1"] exI [of _ k]) simp
qed

definition example_ksyms :: ksyms where
  "example_ksyms = \<lparr>ksym_count = 5,
     ksym_tbl = map (\<lambda>a. \<lparr>ks_addr = a, ks_strid = 0\<rparr>) [0x100, 0x200, 0x300, 0x400, 0x500],
     ksym_strings = [CHR 0x00], prev_index = 2\<rparr>"

lemma example_ksyms_ok: "ksyms_ok example_ksyms"
  by (simp add: ksyms_ok_def example_ksyms_def low_addr_def)

lemma ksym_lookup_attributes_example:
  "ksyms_ok example_ksyms \<and> low_addr 0x280 \<and>
   (\<exists>symid k'. ksym_lookup 0x280 example_ksyms = Inr (symid, k') \<and> ksyms_ok k')"
proof -
  have "low_addr 0x280" by (simp add: low_addr_def)
  then show ?thesis using ksym_lookup_attributes [OF example_ksyms_ok] example_ksyms_ok by blast
qed

text \<open>
  The last symbol of the table matches every address, so the search can stop at it too early: in a
  table of five symbols, an address of the fourth one is given to the fifth.
\<close>

lemma ksym_lookup_misattributes:
  "ksyms_ok (example_ksyms\<lparr>prev_index := 0\<rparr>) \<and> symbol_of (example_ksyms\<lparr>prev_index := 0\<rparr>) 0x480 3 \<and>
   ksym_lookup 0x480 (example_ksyms\<lparr>prev_index := 0\<rparr>) = Inr (4, example_ksyms\<lparr>prev_index := 4\<rparr>)"
proof (intro conjI)
  show "ksyms_ok (example_ksyms\<lparr>prev_index := 0\<rparr>)"
    using example_ksyms_ok by (rule ksyms_ok_prev) (simp add: example_ksyms_def)
qed code_simp+

section \<open>The profile\<close>

text \<open>Both comparisons order the elements they are given.\<close>

interpretation pcs: array_comparator cmp_addr "{p. low_addr (p ! 0)}"
  by unfold_locales (simp_all add: cmp_addr_def ptr_diff)

interpretation hits: array_comparator "cmp_symhit hitcount" UNIV for hitcount
  by unfold_locales (simp_all add: cmp_symhit_def)

lemma elems_units: "n \<le> length a \<Longrightarrow> elems (Suc 0) n a = map (\<lambda>x. [x]) (take n a)"
  by (rule nth_equalityI) (simp_all add: elems_def elem_at_def take_Suc hd_drop_conv_nth)

lemma sort_units_mset:
  assumes "n \<le> length a" "mset (elems 1 n (sort_base a n 1 cmp)) = mset (elems 1 n a)"
  shows "mset (take n (sort_base a n 1 cmp)) = mset (take n a)"
proof -
  have "length (sort_base a n 1 cmp) = length a" by (simp add: sort_base_def Let_def)
  then have "image_mset (\<lambda>x. [x]) (mset (take n (sort_base a n 1 cmp))) = image_mset (\<lambda>x. [x]) (mset (take n a))"
    using assms by (simp add: elems_units)
  then have "image_mset hd (image_mset (\<lambda>x. [x]) (mset (take n (sort_base a n 1 cmp)))) =
      image_mset hd (image_mset (\<lambda>x. [x]) (mset (take n a)))" by (rule arg_cong)
  then show ?thesis by (simp add: image_mset.compositionality comp_def)
qed

lemma symbol_exists:
  assumes "ksyms_ok k" "ks_addr (ksym_tbl k ! 0) \<le> addr"
  shows "\<exists>i. symbol_of k addr i"
proof -
  let ?P = "\<lambda>i. i < ksym_count k \<and> ks_addr (ksym_tbl k ! i) \<le> addr"
  have "?P 0" using assms by (auto simp: ksyms_ok_def)
  moreover have "\<forall>i. ?P i \<longrightarrow> i \<le> ksym_count k" by simp
  ultimately have "?P (Greatest ?P)" "\<not> ?P (Suc (Greatest ?P))"
    using GreatestI_nat [of ?P 0 "ksym_count k"] Greatest_le_nat [of ?P _ "ksym_count k"] Suc_n_not_le_n
    by blast+
  then show ?thesis unfolding symbol_of_def by (meson not_le)
qed

text \<open>A hit more for a symbol.\<close>

lemma sum_list_hit: "i < length hits \<Longrightarrow> sum_list (hits[i := hits ! i + 1]) = sum_list hits + (1 :: int)"
  by (induction hits arbitrary: i) (auto split: nat.splits)

lemma count_hits_result:
  assumes "ksyms_ok k" "ksym_count k \<le> length hits" "list_all low_addr pcs"
  shows "\<exists>p hits'. count_hits pcs k hits = Inr (k\<lparr>prev_index := p\<rparr>, hits') \<and> ksyms_ok (k\<lparr>prev_index := p\<rparr>) \<and>
    length hits' = length hits \<and> sum_list hits' \<le> sum_list hits + int (length pcs) \<and>
    sum_list hits + int (length (filter (\<lambda>pc. ks_addr (ksym_tbl k ! 0) \<le> pc) pcs)) \<le> sum_list hits'"
  using assms
proof (induction pcs arbitrary: k hits)
  case Nil
  then show ?case by (intro exI [of _ "prev_index k"]) simp
next
  case (Cons pc pcs)
  have low: "low_addr pc" "list_all low_addr pcs" using Cons.prems(3) by simp_all
  show ?case
  proof (rule ksym_lookup_cases [OF Cons.prems(1) low(1)])
    fix i assume i: "ksym_lookup pc k = Inr (int i, k\<lparr>prev_index := i\<rparr>)" "i < ksym_count k"
      "symbol_of k pc i \<or> i = ksym_count k - 1"
    have "i < length hits" using i(2) Cons.prems(2) by simp
    then show ?thesis
      using Cons.IH [of "k\<lparr>prev_index := i\<rparr>" "hits[i := hits ! i + 1]"] Cons.prems i low(2)
      by (auto simp: sum_list_hit)
  next
    assume m: "ksym_lookup pc k = Inr (-1, k)" "\<nexists>i. symbol_of k pc i"
    then have "\<not> ks_addr (ksym_tbl k ! 0) \<le> pc" using symbol_exists [OF Cons.prems(1)] by blast
    then show ?thesis using Cons.IH [OF Cons.prems(1,2) low(2)] m by auto
  qed
qed

text \<open>
  C31: The profile of the samples ranks every symbol exactly once, from the most to the least often hit.
  Every sample counts for at most one symbol, and every sample from the first symbol on counts.
\<close>

theorem sampling_stats_ranks:
  assumes "ksyms_ok k" "ksym_count k \<le> MAX_KSYM"
    "length (sampled_pc s) = MAX_SAMPLING_COUNT" "list_all low_addr (sampled_pc s)"
  shows "\<exists>k' s'. sampling_stats k s = Inr (k', s') \<and>
    mset (sampled_pc s') = mset (sampled_pc s) \<and>
    mset (take (ksym_count k) (ksymid_sortedlist s')) = mset (map int [0..<ksym_count k]) \<and>
    sorted_wrt (\<lambda>i j. ksym_hitcount s' ! nat j \<le> ksym_hitcount s' ! nat i)
      (take (ksym_count k) (ksymid_sortedlist s')) \<and>
    sum_list (ksym_hitcount s') \<le> int MAX_SAMPLING_COUNT \<and>
    int (length (filter (\<lambda>pc. ks_addr (ksym_tbl k ! 0) \<le> pc) (sampled_pc s))) \<le> sum_list (ksym_hitcount s')"
proof -
  let ?pcs = "sort_base (sampled_pc s) MAX_SAMPLING_COUNT 1 cmp_addr"
  let ?ids = "map int [0..<MAX_KSYM]" let ?n = "ksym_count k"
  have "set (elems 1 MAX_SAMPLING_COUNT (sampled_pc s)) \<subseteq> {p. low_addr (p ! 0)}"
    using assms(3,4) by (auto simp: elems_units list_all_iff)
  then have "mset (elems 1 MAX_SAMPLING_COUNT ?pcs) = mset (elems 1 MAX_SAMPLING_COUNT (sampled_pc s))"
    using pcs.sort_sorts [of 1 MAX_SAMPLING_COUNT "sampled_pc s"] assms(3) by simp
  moreover have len: "length ?pcs = MAX_SAMPLING_COUNT" using assms(3) by (simp add: sort_base_def Let_def)
  ultimately have ms: "mset ?pcs = mset (sampled_pc s)"
    using sort_units_mset [of MAX_SAMPLING_COUNT "sampled_pc s" cmp_addr] assms(3) by simp
  have low: "list_all low_addr ?pcs" using assms(4) mset_eq_setD [OF ms] by (simp add: list_all_iff)
  have filt: "length (filter P ?pcs) = length (filter P (sampled_pc s))" for P
    using ms by (metis mset_filter size_mset)
  obtain p hits where c: "count_hits ?pcs k (replicate MAX_KSYM 0) = Inr (k\<lparr>prev_index := p\<rparr>, hits)"
      "sum_list hits \<le> int MAX_SAMPLING_COUNT"
      "int (length (filter (\<lambda>pc. ks_addr (ksym_tbl k ! 0) \<le> pc) (sampled_pc s))) \<le> sum_list hits"
    using count_hits_result [OF assms(1) _ low, of "replicate MAX_KSYM 0"] assms(2) len filt
    by (auto simp: sum_list_replicate)
  let ?sorted = "sort_base ?ids ?n 1 (cmp_symhit hits)"
  have n: "?n \<le> length ?ids" using assms(2) by simp
  have srt: "sorted_wrt (\<lambda>x y. cmp_symhit hits x y \<le> 0) (elems 1 ?n ?sorted)"
    "mset (elems 1 ?n ?sorted) = mset (elems 1 ?n ?ids)"
    using hits.sort_sorts [of 1 ?n ?ids hits] n by auto
  have "length ?sorted = length ?ids" by (simp add: sort_base_def Let_def)
  then have "sorted_wrt (\<lambda>i j. hits ! nat j \<le> hits ! nat i) (take ?n ?sorted)"
    using srt(1) n by (simp add: elems_units sorted_wrt_map cmp_symhit_def)
  moreover have "mset (take ?n ?sorted) = mset (map int [0..<?n])"
    using sort_units_mset [OF n srt(2)] n assms(2) by (simp add: take_map)
  ultimately show ?thesis
    using c ms assms(2) by (simp add: sampling_stats_def Let_def ksym_total_def)
qed

theorem sampling_stats_ranks_witness:
  "ksyms_ok example_ksyms \<and>
   (\<exists>k' s'. sampling_stats example_ksyms
       (sampling_init example_ksyms (sampling_enable \<lparr>sampled_pc = [], sampled_count = 0,
          sampling_enabled = False, ksym_hitcount = [], ksymid_sortedlist = []\<rparr>)) = Inr (k', s') \<and>
     mset (take 5 (ksymid_sortedlist s')) = mset [0, 1, 2, 3, 4])"
proof -
  let ?s = "sampling_init example_ksyms (sampling_enable \<lparr>sampled_pc = [], sampled_count = 0,
          sampling_enabled = False, ksym_hitcount = [], ksymid_sortedlist = []\<rparr>)"
  have n: "ksym_count example_ksyms = 5" by (simp add: example_ksyms_def)
  have "ksym_count example_ksyms \<le> MAX_KSYM" by (simp add: n MAX_KSYM_def)
  moreover have "sampled_pc ?s = replicate MAX_SAMPLING_COUNT 0"
    by (simp add: sampling_init_def ksym_total_def n MAX_KSYM_def)
  moreover have "map int [0..<5] = [0, 1, 2, 3, 4]" by (simp add: upt_rec)
  ultimately show ?thesis
    using sampling_stats_ranks [OF example_ksyms_ok, of ?s] example_ksyms_ok n
    by (fastforce simp: list_all_iff low_addr_def)
qed

end
