(* ===== verification/F9_Stdio.thy ===== *)
theory F9_Stdio
  imports F9_Prelude
begin

text \<open>
  Formatted output (\<^verbatim>\<open>kernel/lib/stdio.c\<close>). Nothing in a formatter depends on what \<^verbatim>\<open>__l4_putchar\<close> does, so
  each function is the string of characters that it passes to it, in order. A \<^verbatim>\<open>va_list\<close> is the list of
  the arguments that are left; fetching one that is missing, a string as a number or a word as a 64-bit
  number is a fault. A 64-bit argument lies in two argument words: fetched as a word it gives its lower
  half, and then its upper half.
\<close>

section \<open>Strings and numbers\<close>

definition newline :: char where "newline = CHR 0x0A"

definition carriage_return :: char where "carriage_return = CHR 0x0D"

fun l4_puts :: "string \<Rightarrow> string" where
  "l4_puts [] = []"
| "l4_puts (c # str) = (if c = newline then [carriage_return] else []) @ [c] @ l4_puts str"

fun l4_puts_x :: "string \<Rightarrow> int \<Rightarrow> char \<Rightarrow> string" where
  "l4_puts_x [] width pad = replicate (nat width) pad"
| "l4_puts_x (c # str) width pad =
     (if c = newline then [carriage_return] else []) @ [c] @ l4_puts_x str (width - 1) pad"

definition hexchars :: "u32 \<Rightarrow> char" where
  "hexchars x = (if x < 10 then char_of (48 + unat x) else char_of (97 + (unat x - 10)))"

text \<open>The shift by \<open>4 * nwidth\<close> is evaluated before the bound; with 32 it is undefined in C, and its
  value is not used.\<close>

function hex_width :: "u32 \<Rightarrow> nat \<Rightarrow> nat" where
  "hex_width val nwidth =
     (if drop_bit (4 * nwidth) val \<noteq> 0 \<and> nwidth < 2 * 4 then hex_width val (nwidth + 1) else nwidth)"
  by pat_completeness auto
termination by (relation "measure (\<lambda>(val, nwidth). 8 - nwidth)") auto

declare hex_width.simps [simp del]

fun hex_digits :: "u32 \<Rightarrow> nat \<Rightarrow> string" where
  "hex_digits val 0 = []"
| "hex_digits val (Suc i) = hexchars (drop_bit (4 * i) val AND 0xF) # hex_digits val i"

text \<open>The characters and the number of them.\<close>

definition l4_put_hex :: "u32 \<Rightarrow> int \<Rightarrow> char \<Rightarrow> string \<times> int" where
  "l4_put_hex val width pad =
     (let nwidth = hex_width val 0;
          nwidth = (if nwidth = 0 then 1 else nwidth);
          width = (if width = 0 \<and> width < int nwidth then int nwidth else width);
          out = replicate (nat (width - int nwidth)) pad @ hex_digits val nwidth in
      (out, int (length out)))"

text \<open>A divisor of zero would be a division by zero; the loop never reaches it.\<close>

function dec_divisor :: "u32 \<Rightarrow> u32 \<Rightarrow> int \<Rightarrow> u32 \<times> int" where
  "dec_divisor val divisor digits =
     (if divisor \<noteq> 0 \<and> val div divisor \<ge> 10 then dec_divisor val (divisor * 10) (digits + 1)
      else (divisor, digits))"
  by pat_completeness auto
termination
proof (relation "measure (\<lambda>(val, divisor, digits). unat val - unat divisor)")
  fix val divisor :: u32 and digits :: int
  assume "divisor \<noteq> 0 \<and> val div divisor \<ge> 10"
  then have d: "0 < unat divisor" "10 \<le> unat val div unat divisor"
    by (auto simp: word_le_nat_alt unat_div word_neq_0_conv word_less_nat_alt)
  then have "unat divisor * 10 \<le> unat val"
    using times_div_less_eq_dividend [of "unat divisor" "unat val"] mult_le_mono2 [OF d(2), of "unat divisor"] by linarith
  moreover from this have "unat (divisor * 10) = unat divisor * 10"
    using unat_lt32 [of val] by (subst unat_mult32) auto
  ultimately show "((val, divisor * 10, digits + 1), (val, divisor, digits))
      \<in> measure (\<lambda>(val, divisor, digits). unat val - unat divisor)"
    using d(1) by simp
qed simp

declare dec_divisor.simps [simp del]

function dec_digits :: "u32 \<Rightarrow> u32 \<Rightarrow> string" where
  "dec_digits val divisor =
     char_of (unat ((val div divisor) mod 10) + 48) #
     (if divisor div 10 \<noteq> 0 then dec_digits val (divisor div 10) else [])"
  by pat_completeness auto
termination
proof (relation "measure (\<lambda>(val, divisor). unat divisor)")
  fix val divisor :: u32 assume "divisor div 10 \<noteq> 0"
  then have "0 < unat (divisor div 10)" by (metis unat_eq_zero gr0I)
  then show "((val, divisor div 10), (val, divisor)) \<in> measure (\<lambda>(val, divisor). unat divisor)"
    by (auto simp: unat_div intro: Nat.gr0I)
qed simp

declare dec_digits.simps [simp del]

definition l4_put_dec :: "u32 \<Rightarrow> int \<Rightarrow> char \<Rightarrow> string" where
  "l4_put_dec val width pad =
     (let (divisor, digits) = dec_divisor val 1 1 in
      replicate (nat (width - digits)) pad @ dec_digits val divisor)"

section \<open>Formats\<close>

datatype va_arg = Word u32 | Dword u64 | Str string

type_synonym va_list = "va_arg list"

fun va_word :: "va_list \<Rightarrow> (u32 \<times> va_list) outcome" where
  "va_word (Word w # va) = Inr (w, va)"
| "va_word (Dword w # va) = Inr (ucast w, Word (ucast (drop_bit 32 w)) # va)"
| "va_word va = Inl OutOfBounds"

fun va_str :: "va_list \<Rightarrow> (string \<times> va_list) outcome" where
  "va_str (Str s # va) = Inr (s, va)"
| "va_str va = Inl OutOfBounds"

text \<open>The argument of \<^verbatim>\<open>%d\<close> and \<^verbatim>\<open>%x\<close>, converted to the parameter type \<^verbatim>\<open>uint32_t\<close> of the number printers.\<close>

fun va_num :: "nat \<Rightarrow> va_list \<Rightarrow> (u32 \<times> va_list) outcome" where
  "va_num sz (Dword w # va) = (if sz = 32 then va_word (Dword w # va) else Inr (ucast w, va))"
| "va_num sz va = (if sz = 32 then va_word va else Inl OutOfBounds)"

definition char_of_word :: "u32 \<Rightarrow> char" where
  "char_of_word w = char_of (unat w mod 256)"

definition is_digit :: "char \<Rightarrow> bool" where
  "is_digit c \<longleftrightarrow> 48 \<le> (of_char c :: nat) \<and> (of_char c :: nat) \<le> 57"

text \<open>The mode after a character of a specifier, with the output and the variables of the loop.\<close>

definition l4_specifier ::
  "char \<Rightarrow> int \<Rightarrow> char \<Rightarrow> nat \<Rightarrow> va_list \<Rightarrow> (string \<times> bool \<times> int \<times> char \<times> nat \<times> va_list) outcome" where
  "l4_specifier c width pad sz va =
     (if c = CHR ''c'' then bindF (va_word va) (\<lambda>(w, va). Inr ([char_of_word w], False, width, pad, sz, va))
      else if c = CHR ''s'' then bindF (va_str va) (\<lambda>(s, va). Inr (l4_puts_x s width pad, False, width, pad, sz, va))
      else if c = CHR ''l'' \<or> c = CHR ''L'' then Inr ([], True, width, pad, 64, va)
      else if c = CHR ''d'' \<or> c = CHR ''D''
      then bindF (va_num sz va) (\<lambda>(w, va). Inr (l4_put_dec w width pad, False, width, pad, sz, va))
      else if c = CHR ''p'' \<or> c = CHR ''t''
      then bindF (va_num 32 va) (\<lambda>(w, va). Inr (fst (l4_put_hex w 8 (CHR ''0'')), False, 8, CHR ''0'', 32, va))
      else if c = CHR ''x'' \<or> c = CHR ''X''
      then bindF (va_num sz va) (\<lambda>(w, va). Inr (fst (l4_put_hex w width pad), False, width, pad, sz, va))
      else if c = CHR ''%'' then Inr (''%'', False, width, pad, sz, va)
      else if c = CHR ''0'' then Inr ([], True, width, if width = 0 then CHR ''0'' else pad, sz, va)
      else if c = CHR '' '' then Inr ([], True, width, CHR '' '', sz, va)
      else Inr ([], True, width, pad, sz, va))"

fun l4_vprintf_loop ::
  "string \<Rightarrow> bool \<Rightarrow> int \<Rightarrow> char \<Rightarrow> nat \<Rightarrow> va_list \<Rightarrow> string outcome" where
  "l4_vprintf_loop [] mode width pad sz va = Inr []"
| "l4_vprintf_loop (c # fmt) mode width pad sz va =
     (if c = CHR ''%'' then l4_vprintf_loop fmt True 0 (CHR '' '') 32 va
      else if \<not> mode
      then bindF (l4_vprintf_loop fmt mode width pad sz va) (\<lambda>out.
           Inr ((if c = newline then [carriage_return] else []) @ [c] @ out))
      else bindF (l4_specifier c width pad sz va) (\<lambda>(s, mode, width, pad, sz, va).
           let width = (if is_digit c then width * 10 + (int (of_char c) - 48) else width) in
           bindF (l4_vprintf_loop fmt mode width pad sz va) (\<lambda>out. Inr (s @ out))))"

definition l4_vprintf :: "string \<Rightarrow> va_list \<Rightarrow> string outcome" where
  "l4_vprintf fmt va = l4_vprintf_loop fmt False 0 (CHR '' '') 16 va"

definition l4_printf :: "string \<Rightarrow> va_list \<Rightarrow> string outcome" where
  "l4_printf fmt va = l4_vprintf fmt va"

section \<open>Numbers in a base\<close>

text \<open>The reference: the digits of a number, the most significant one first.\<close>

definition digit_char :: "nat \<Rightarrow> char" where
  "digit_char d = (if d < 10 then char_of (48 + d) else char_of (87 + d))"

fun base_string :: "nat \<Rightarrow> nat \<Rightarrow> string" where
  "base_string b n =
     (if b < 2 \<or> n < b then [digit_char n] else base_string b (n div b) @ [digit_char (n mod b)])"

declare base_string.simps [simp del]

definition padded :: "int \<Rightarrow> char \<Rightarrow> string \<Rightarrow> string" where
  "padded width pad s = replicate (nat (width - int (length s))) pad @ s"

definition positions :: "nat \<Rightarrow> nat \<Rightarrow> nat \<Rightarrow> string" where
  "positions b n k = map (\<lambda>i. digit_char (n div b ^ i mod b)) (rev [0..<k])"

lemma length_positions [simp]: "length (positions b n k) = k"
  by (simp add: positions_def)

lemma positions_Suc: "positions b n (Suc k) = digit_char (n div b ^ k mod b) # positions b n k"
  by (simp add: positions_def)

lemma positions_shift: "positions b n (Suc k) = positions b (n div b) k @ [digit_char (n mod b)]"
  by (induction k) (simp_all add: positions_Suc div_mult2_eq, simp add: positions_def)

lemma positions_base_string:
  assumes "2 \<le> b" "n < b ^ k" "0 < k" "k = 1 \<or> b ^ (k - 1) \<le> n"
  shows "positions b n k = base_string b n"
  using assms(2-4)
proof (induction k arbitrary: n)
  case (Suc k)
  show ?case
  proof (cases "k = 0")
    case True
    then show ?thesis using Suc.prems(1) by (subst base_string.simps) (simp add: positions_def)
  next
    case False
    then have ge: "b ^ k \<le> n" using Suc.prems(3) by simp
    have "b \<le> b ^ k" using False assms(1) by (simp add: self_le_power)
    then have "\<not> n < b" using ge by simp
    moreover have "positions b (n div b) k = base_string b (n div b)"
    proof (rule Suc.IH)
      show "n div b < b ^ k" using Suc.prems(1) assms(1) by (simp add: div_less_iff_less_mult mult.commute)
      show "k = 1 \<or> b ^ (k - 1) \<le> n div b"
        using ge False assms(1) by (cases k) (auto simp: less_eq_div_iff_mult_less_eq mult.commute)
    qed (use False in simp)
    ultimately show ?thesis using assms(1) by (subst base_string.simps) (simp add: positions_shift)
  qed
qed simp

text \<open>Reading a number back.\<close>

definition char_value :: "char \<Rightarrow> nat" where
  "char_value c = (if of_char c < (58 :: nat) then of_char c - 48 else of_char c - 87)"

definition read_base :: "nat \<Rightarrow> string \<Rightarrow> nat" where
  "read_base b s = foldl (\<lambda>n c. n * b + char_value c) 0 s"

lemma char_value_digit: "d < 16 \<Longrightarrow> char_value (digit_char d) = d"
  by (auto simp: char_value_def digit_char_def)

lemma read_base_string: "\<lbrakk>2 \<le> b; b \<le> 16\<rbrakk> \<Longrightarrow> read_base b (base_string b n) = n"
proof (induction b n rule: base_string.induct)
  case (1 b n)
  have "n mod b < 16" using "1.prems" mod_less_divisor [of b n] by linarith
  then show ?case using 1 by (subst base_string.simps) (auto simp: read_base_def char_value_digit)
qed

section \<open>Decimal numbers\<close>

lemma dec_divisor_result:
  assumes "unat d = 10 ^ k" "10 ^ k \<le> unat val \<or> k = 0" "digits = int k + 1"
  shows "\<exists>d' m. dec_divisor val d digits = (d', int m + 1) \<and> unat d' = 10 ^ m \<and>
    (10 ^ m \<le> unat val \<or> m = 0) \<and> unat val < 10 ^ Suc m"
  using assms
proof (induction val d digits arbitrary: k rule: dec_divisor.induct)
  case (1 val d digits)
  have d0: "d \<noteq> 0" using "1.prems"(1) by (metis power_not_zero unat_0 zero_neq_numeral)
  show ?case
  proof (cases "val div d \<ge> 10")
    case True
    then have "10 \<le> unat val div 10 ^ k" using "1.prems"(1) by (simp add: word_le_nat_alt unat_div)
    then have le: "10 ^ Suc k \<le> unat val" by (simp add: less_eq_div_iff_mult_less_eq)
    then have "unat (d * 10) = 10 ^ Suc k"
      using unat_lt32 [of val] "1.prems"(1) by (subst unat_mult32) auto
    then show ?thesis
      using "1.IH" [of "Suc k"] True d0 le "1.prems"(3) by (subst dec_divisor.simps) simp
  next
    case False
    then have "unat val div 10 ^ k < 10" using "1.prems"(1) by (simp add: word_le_nat_alt unat_div)
    then have "unat val < 10 ^ Suc k" by (simp add: div_less_iff_less_mult)
    then show ?thesis using "1.prems" False by (subst dec_divisor.simps) auto
  qed
qed

lemma unat_10: "unat (10 :: u32) = 10"
  by simp

lemma unat_digit: "unat (val div d mod 10 :: u32) = unat val div unat d mod 10"
  unfolding unat_mod unat_div unat_10 ..

lemma digit_char_low: "char_of (n mod 10 + 48) = digit_char (n mod 10)"
  by (simp add: digit_char_def add.commute)

lemma dec_digits_positions: "unat d = 10 ^ k \<Longrightarrow> dec_digits val d = positions 10 (unat val) (Suc k)"
proof (induction k arbitrary: d)
  case 0
  have "unat (d div 10) = 0" unfolding unat_div unat_10 using 0 by simp
  then have "d div 10 = 0" by (simp only: unat_eq_zero)
  then show ?case using 0
    by (subst dec_digits.simps) (simp only: unat_digit digit_char_low positions_Suc, simp add: positions_def)
next
  case (Suc k)
  have q: "unat (d div 10) = 10 ^ k" unfolding unat_div unat_10 using Suc.prems by simp
  then have nz: "d div 10 \<noteq> 0" by (metis power_not_zero unat_0 zero_neq_numeral)
  show ?case
    by (subst dec_digits.simps)
      (simp only: unat_digit digit_char_low positions_Suc [of _ _ "Suc k"] Suc.prems Suc.IH [OF q] nz simp_thms if_True)
qed

lemma put_dec_reference: "l4_put_dec val width pad = padded width pad (base_string 10 (unat val))"
proof -
  obtain d m where d: "dec_divisor val 1 1 = (d, int m + 1)" "unat d = 10 ^ m"
    "10 ^ m \<le> unat val \<or> m = 0" "unat val < 10 ^ Suc m"
    using dec_divisor_result [of 1 0 val 1] by auto
  have "dec_digits val d = base_string 10 (unat val)"
    unfolding dec_digits_positions [OF d(2)] using d(3,4) by (intro positions_base_string) auto
  moreover have "length (dec_digits val d) = Suc m" by (simp add: dec_digits_positions [OF d(2)])
  ultimately show ?thesis by (simp add: l4_put_dec_def d(1) padded_def)
qed

section \<open>Hexadecimal numbers\<close>

lemma unat_nibbles: "unat (drop_bit (4 * n) val :: u32) = unat val div 16 ^ n"
proof -
  have "unat (drop_bit (4 * n) val) = drop_bit (4 * n) (unat val)" by (rule unat_drop_bit_eq)
  also have "\<dots> = unat val div 2 ^ (4 * n)" by (rule drop_bit_eq_div)
  also have "(2 :: nat) ^ (4 * n) = 16 ^ n" by (simp add: power_mult)
  finally show ?thesis .
qed

lemma hex_width_result:
  assumes "n \<le> 8" "n = 0 \<or> 16 ^ (n - 1) \<le> unat val"
  shows "hex_width val n \<le> 8 \<and> unat val < 16 ^ hex_width val n \<and>
    (hex_width val n = 0 \<or> 16 ^ (hex_width val n - 1) \<le> unat val)"
  using assms
proof (induction val n rule: hex_width.induct)
  case (1 val n)
  have zero: "drop_bit (4 * n) val = 0 \<longleftrightarrow> unat val < 16 ^ n"
    unfolding word_unat_eq_iff unat_nibbles unat_0 by (simp add: div_eq_0_iff)
  show ?case
  proof (cases "drop_bit (4 * n) val \<noteq> 0 \<and> n < 8")
    case True
    then show ?thesis using "1.IH" zero by (subst (1 2 3 4) hex_width.simps) simp
  next
    case False
    have "unat val < 16 ^ n"
    proof (cases "n < 8")
      case n: False
      then have "n = 8" using "1.prems"(1) by simp
      then show ?thesis using unat_lt32 [of val] by simp
    qed (use False zero in simp)
    then show ?thesis using "1.prems" False by (subst (1 2 3 4) hex_width.simps) auto
  qed
qed

lemma hexchars_digit: "unat x < 16 \<Longrightarrow> hexchars x = digit_char (unat x)"
  by (auto simp: hexchars_def digit_char_def word_less_nat_alt intro: arg_cong [of _ _ char_of])

lemma hex_digits_positions: "hex_digits val k = positions 16 (unat val) k"
proof (induction k)
  case (Suc k)
  have "(0xF :: u32) = mask 4" by (simp add: mask_eq_exp_minus_1)
  then have "drop_bit (4 * k) val AND 0xF = take_bit 4 (drop_bit (4 * k) val)"
    by (simp only: take_bit_eq_mask)
  moreover have "unat (take_bit 4 (drop_bit (4 * k) val)) = take_bit 4 (unat (drop_bit (4 * k) val))"
    by (rule unsigned_take_bit_eq)
  moreover have "take_bit 4 n = n mod 2 ^ 4" for n :: nat by (rule take_bit_eq_mod)
  ultimately have "unat (drop_bit (4 * k) val AND 0xF) = unat val div 16 ^ k mod 2 ^ 4"
    by (simp only: unat_nibbles)
  then have "unat (drop_bit (4 * k) val AND 0xF) = unat val div 16 ^ k mod 16" by simp
  then show ?case using Suc by (simp add: positions_Suc hexchars_digit)
qed (simp add: positions_def)

lemma put_hex_reference:
  "l4_put_hex val width pad =
     (let out = padded width pad (base_string 16 (unat val)) in (out, int (length out)))"
proof -
  let ?n = "hex_width val 0" let ?k = "if ?n = 0 then 1 else ?n"
  have w: "unat val < 16 ^ ?n" "?n = 0 \<or> 16 ^ (?n - 1) \<le> unat val"
    using hex_width_result [of 0 val] by auto
  have "hex_digits val ?k = base_string 16 (unat val)"
    unfolding hex_digits_positions using w by (intro positions_base_string) auto
  moreover from this have "length (base_string 16 (unat val)) = ?k"
    by (metis hex_digits_positions length_positions)
  ultimately show ?thesis by (auto simp: l4_put_hex_def padded_def Let_def)
qed

text \<open>
  C29: Numbers are printed exactly: \<^verbatim>\<open>__l4_put_dec\<close> and \<^verbatim>\<open>__l4_put_hex\<close> print every 32-bit value as its digits
  without leading zeros, padded on the left to the requested width, and the digits read back as the
  value. The loops that search the highest digit end for every value.
\<close>

theorem numbers_print_exactly:
  "l4_put_dec val width pad = padded width pad (base_string 10 (unat val)) \<and>
   fst (l4_put_hex val width pad) = padded width pad (base_string 16 (unat val)) \<and>
   snd (l4_put_hex val width pad) = int (length (fst (l4_put_hex val width pad))) \<and>
   read_base 10 (base_string 10 (unat val)) = unat val \<and> read_base 16 (base_string 16 (unat val)) = unat val"
  by (simp add: put_dec_reference put_hex_reference read_base_string Let_def)

section \<open>Formats that do not print what they ask for\<close>

text \<open>
  A doubled percent sign prints nothing, because the first test of the loop takes every percent sign;
  the case of the switch that would print one is never reached.
\<close>

lemma percent_lost: "l4_vprintf (''%%'' @ fmt) va = l4_vprintf_loop fmt True 0 (CHR '' '') 32 va"
  by (simp add: l4_vprintf_def)

text \<open>A 64-bit number loses its upper half.\<close>

lemma long_truncated:
  "l4_vprintf ''%ld'' [Dword (v :: u64)] = Inr (base_string 10 (unat (ucast v :: u32)))"
  by (simp add: l4_vprintf_def l4_specifier_def is_digit_def put_dec_reference padded_def Let_def)

end
