(* ===== verification/F9_Debug_State.thy ===== *)
theory F9_Debug_State
  imports F9_Queue F9_Sampling F9_Stdio
begin

text \<open>
  The static variables of the debugging subsystem: the debug port (\<^verbatim>\<open>platform/debug_device.c\<close>,
  \<^verbatim>\<open>platform/debug_uart.c\<close>), the tables known to the kernel debugger (\<^verbatim>\<open>kernel/lib/ktable.c\<close>), the symbols
  and samples, the probes (\<^verbatim>\<open>kernel/kprobes.c\<close>) and the breakpoints (\<^verbatim>\<open>platform/breakpoint.c\<close>,
  \<^verbatim>\<open>platform/breakpoint-hard.c\<close>). A function pointer is a value of a datatype with one constructor for
  each function of the source that is stored in it.
\<close>

section \<open>The debug port\<close>

text \<open>With the default configuration the serial port is the only device, and \<^verbatim>\<open>DBG_DEV_MAX\<close> is 1.\<close>

definition DBG_DEV_UART :: nat where "DBG_DEV_UART = 0"
definition DBG_DEV_MAX :: nat where "DBG_DEV_MAX = 1"

datatype getchar_t = Default_getchar | Uart_getchar
datatype putchar_t = Default_putchar | Uart_putchar
datatype start_panic_t = Default_start_panic | Uart_start_panic

record dbg_dev_t =
  dev_id :: nat
  dev_getchar :: "getchar_t option"
  dev_putchar :: "putchar_t option"
  dev_start_panic :: "start_panic_t option"

datatype dbg_state_t = DBG_ASYNC | DBG_PANIC

record dbg_uart_t =
  uart_status :: u32
  uart_ready :: u32
  uart_tx :: queue_t
  uart_rx :: queue_t

definition SEND_BUFSIZE :: nat where "SEND_BUFSIZE = 2048"
definition RECV_BUFSIZE :: nat where "RECV_BUFSIZE = 32"

section \<open>Breakpoints and probes\<close>

definition FPB_MAX_COMP :: nat where "FPB_MAX_COMP = 6"
definition BKPT_MAX_NUM :: nat where "BKPT_MAX_NUM = 10"

datatype bkpt_type = BKPT_NONE | BKPT_HARD | BKPT_SOFT

text \<open>
  The three function pointers of a breakpoint are always set together, to the functions of hardware or
  of software breakpoints; \<open>bk_data\<close> is the union of the comparator number and the saved instruction.
\<close>

datatype bkpt_ops = Hard_ops | Soft_ops

record breakpoint =
  bk_type :: bkpt_type
  bk_data :: u16
  bk_addr :: u32
  bk_ops :: "bkpt_ops option"

datatype kprobe_handler_t = Sampling_handler | Kretprobe_pre_handler | Kretprobe_post_handler

text \<open>
  A probe; the last two fields are those that a \<^verbatim>\<open>struct kretprobe\<close> has after its \<^verbatim>\<open>struct kprobe\<close>.
\<close>

record kprobe_t =
  kp_addr :: memptr
  kp_pre_handler :: "kprobe_handler_t option"
  kp_post_handler :: "kprobe_handler_t option"
  kp_bkpt :: ptr
  kp_step_addr :: memptr
  kp_next :: ptr
  rp_handler :: "kprobe_handler_t option"
  rp_backup_addr :: memptr

section \<open>All static variables\<close>

text \<open>The kernel tables that register with the debugger.\<close>

datatype kdb_table = Fpage_table | As_table | Thread_table | Ktimer_event_table

definition KTABLE_NUM :: nat where "KTABLE_NUM = 16"

text \<open>
  \<open>uart_input\<close> is not a variable of the code: it holds the bytes that the terminal sends next, and reading
  the data register takes the first one. \<open>sampling_inited\<close> is the static variable \<^verbatim>\<open>init\<close> of
  \<^verbatim>\<open>kdb_show_sampling\<close>.
\<close>

record debug_t =
  dbg_layer :: u32
  dbg_state :: dbg_state_t
  dbg_dev :: "dbg_dev_t list"
  cur_dev :: nat
  dbg_uart :: dbg_uart_t
  uart_input :: "u8 list"
  kdb_ktables :: "kdb_table list"
  symbols :: ksyms
  profile :: samples
  sampling_inited :: int
  kp_list :: ptr
  kprobes :: "nat \<Rightarrow> kprobe_t"
  breakpoints :: "breakpoint list"
  hard_breakpoints :: "int list"

text \<open>The variables as the loader leaves them: zero, with \<open>cur_dev\<close> at the first device.\<close>

definition debug_reset :: debug_t where
  "debug_reset =
     \<lparr>dbg_layer = 0, dbg_state = DBG_ASYNC,
      dbg_dev = replicate DBG_DEV_MAX \<lparr>dev_id = 0, dev_getchar = None, dev_putchar = None, dev_start_panic = None\<rparr>,
      cur_dev = 0,
      dbg_uart = \<lparr>uart_status = 0, uart_ready = 0, uart_tx = \<lparr>q_data = [], q_top = 0, q_end = 0, q_size = 0\<rparr>,
                  uart_rx = \<lparr>q_data = [], q_top = 0, q_end = 0, q_size = 0\<rparr>\<rparr>,
      uart_input = [], kdb_ktables = [],
      symbols = \<lparr>ksym_count = 0, ksym_tbl = [], ksym_strings = [], prev_index = 0\<rparr>,
      profile = \<lparr>sampled_pc = replicate MAX_SAMPLING_COUNT 0, sampled_count = 0, sampling_enabled = False,
                 ksym_hitcount = replicate MAX_KSYM 0, ksymid_sortedlist = replicate MAX_KSYM 0\<rparr>,
      sampling_inited = 0, kp_list = None,
      kprobes = (\<lambda>_. \<lparr>kp_addr = 0, kp_pre_handler = None, kp_post_handler = None, kp_bkpt = None,
                      kp_step_addr = 0, kp_next = None, rp_handler = None, rp_backup_addr = 0\<rparr>),
      breakpoints = replicate BKPT_MAX_NUM \<lparr>bk_type = BKPT_NONE, bk_data = 0, bk_addr = 0, bk_ops = None\<rparr>,
      hard_breakpoints = replicate FPB_MAX_COMP 0\<rparr>"

definition kdb_register_ktable :: "kdb_table \<Rightarrow> debug_t \<Rightarrow> debug_t" where
  "kdb_register_ktable kt d =
     (if length (kdb_ktables d) < KTABLE_NUM - 1 then d\<lparr>kdb_ktables := kdb_ktables d @ [kt]\<rparr> else d)"

end
