(* ===== verification/F9_State.thy ===== *)
theory F9_State
  imports F9_Memory F9_Debug_State
begin

text \<open>
  The state of the kernel: thread control blocks, scheduler slots, soft interrupts and timer
  events, with the constants of \<^verbatim>\<open>include/thread.h\<close>, \<^verbatim>\<open>include/sched.h\<close>, \<^verbatim>\<open>include/softirq.h\<close>,
  \<^verbatim>\<open>include/ktimer.h\<close> and \<^verbatim>\<open>include/error.h\<close>. Pointers to thread control blocks and timer events are
  slots of their tables; pointers into user memory (message buffers, stacks) are addresses of
  the word memory \<open>ram\<close>. Function pointers are values of a datatype with one constructor for each
  function that the kernel installs.
\<close>

section \<open>Threads\<close>

definition CONFIG_MAX_THREADS :: nat where "CONFIG_MAX_THREADS = 32"
definition CONFIG_MAX_KT_EVENTS :: nat where "CONFIG_MAX_KT_EVENTS = 64"
definition CONFIG_KTIMER_HEARTBEAT :: u32 where "CONFIG_KTIMER_HEARTBEAT = 65536"
definition CONFIG_KTIMER_MINTICKS :: int where "CONFIG_KTIMER_MINTICKS = 128"
definition CONFIG_KIP_EXTRA_SIZE :: u32 where "CONFIG_KIP_EXTRA_SIZE = 128"

definition L4_NILTHREAD :: u32 where "L4_NILTHREAD = 0"
definition L4_ANYLOCALTHREAD :: u32 where "L4_ANYLOCALTHREAD = 0xFFFFFFC0"
definition L4_ANYTHREAD :: u32 where "L4_ANYTHREAD = 0xFFFFFFFF"

definition GLOBALID_TO_TID :: "u32 \<Rightarrow> u32" where "GLOBALID_TO_TID gid = drop_bit 14 gid"
definition TID_TO_GLOBALID :: "u32 \<Rightarrow> u32" where "TID_TO_GLOBALID tid = push_bit 14 tid"

definition THREAD_IDLE :: u32 where "THREAD_IDLE = 0"
definition THREAD_KERNEL :: u32 where "THREAD_KERNEL = 1"
definition THREAD_ROOT :: u32 where "THREAD_ROOT = 2"
definition THREAD_LOG :: u32 where "THREAD_LOG = 3"
definition THREAD_SYS :: u32 where "THREAD_SYS = 16"
definition THREAD_USER :: u32 where "THREAD_USER = 256"

lemmas thread_tag_defs = THREAD_IDLE_def THREAD_KERNEL_def THREAD_ROOT_def THREAD_LOG_def THREAD_SYS_def
  THREAD_USER_def

datatype thread_state_t = T_INACTIVE | T_RUNNABLE | T_SVC_BLOCKED | T_RECV_BLOCKED | T_SEND_BLOCKED

record context_t =
  ctx_sp :: u32
  ctx_ret :: u32
  ctx_ctl :: u32
  ctx_regs :: "u32 list"

text \<open>The pointer \<open>utcb\<close> is an address in user memory, with 0 for NULL.\<close>

record tcb_t =
  t_globalid :: u32
  t_localid :: u32
  t_state :: thread_state_t
  stack_base :: memptr
  stack_size :: u32
  ctx :: context_t
  t_as :: ptr
  t_utcb :: memptr
  ipc_from :: u32
  t_sibling :: ptr
  t_parent :: ptr
  t_child :: ptr

text \<open>Byte offsets of the fields of \<^verbatim>\<open>struct utcb\<close>, and its size.\<close>

definition UTCB_globalid :: u32 where "UTCB_globalid = 0"
definition UTCB_pager :: u32 where "UTCB_pager = 12"
definition UTCB_error_code :: u32 where "UTCB_error_code = 28"
definition UTCB_intended_receiver :: u32 where "UTCB_intended_receiver = 32"
definition UTCB_sender :: u32 where "UTCB_sender = 36"
definition UTCB_mr :: u32 where "UTCB_mr = 48"
definition UTCB_SIZE :: u32 where "UTCB_SIZE = 128"

lemmas utcb_defs = UTCB_globalid_def UTCB_pager_def UTCB_error_code_def UTCB_intended_receiver_def
  UTCB_sender_def UTCB_mr_def

text \<open>Positions of the registers that the hardware stacks, and the room they take.\<close>

definition REG_R0 :: u32 where "REG_R0 = 0"
definition REG_R1 :: u32 where "REG_R1 = 1"
definition REG_R2 :: u32 where "REG_R2 = 2"
definition REG_R3 :: u32 where "REG_R3 = 3"
definition REG_R12 :: u32 where "REG_R12 = 4"
definition REG_LR :: u32 where "REG_LR = 5"
definition REG_PC :: u32 where "REG_PC = 6"
definition REG_xPSR :: u32 where "REG_xPSR = 7"
definition RESERVED_STACK :: u32 where "RESERVED_STACK = 32"

lemmas reg_defs = REG_R0_def REG_R1_def REG_R2_def REG_R3_def REG_R12_def REG_LR_def REG_PC_def REG_xPSR_def

section \<open>Scheduler, soft interrupts, timer events\<close>

datatype sched_slot_id_t =
  SSI_SOFTIRQ | SSI_INTR_THREAD | SSI_ROOT_THREAD | SSI_IPC_THREAD | SSI_NORMAL_THREAD | SSI_IDLE

primrec slot_index :: "sched_slot_id_t \<Rightarrow> nat" where
  "slot_index SSI_SOFTIRQ = 0"
| "slot_index SSI_INTR_THREAD = 1"
| "slot_index SSI_ROOT_THREAD = 2"
| "slot_index SSI_IPC_THREAD = 3"
| "slot_index SSI_NORMAL_THREAD = 4"
| "slot_index SSI_IDLE = 5"

definition NUM_SCHED_SLOTS :: nat where "NUM_SCHED_SLOTS = 6"

datatype sched_handler_t = Thread_sched

record sched_slot_t =
  ss_scheduled :: ptr
  ss_handler :: "sched_handler_t option"

datatype softirq_type_t = KTE_SOFTIRQ | ASYNC_SOFTIRQ | SYSCALL_SOFTIRQ | KDB_SOFTIRQ

primrec softirq_index :: "softirq_type_t \<Rightarrow> nat" where
  "softirq_index KTE_SOFTIRQ = 0"
| "softirq_index ASYNC_SOFTIRQ = 1"
| "softirq_index SYSCALL_SOFTIRQ = 2"
| "softirq_index KDB_SOFTIRQ = 3"

definition NR_SOFTIRQ :: nat where "NR_SOFTIRQ = 4"

datatype softirq_handler_t = Ktimer_event_handler | Syscall_handler | Debug_kdb_handler

record softirq_t =
  si_schedule :: u32
  si_handler :: "softirq_handler_t option"

datatype ktimer_event_handler_t = Ipc_timeout | Ipc_deliver

record ktimer_event_t =
  ev_next :: ptr
  ev_handler :: ktimer_event_handler_t
  ev_delta :: u32
  ev_data :: ptr

record ktimer_t =
  ktimer_event_table :: ktable
  kt_events :: "nat \<Rightarrow> ktimer_event_t"
  event_queue :: ptr
  ktimer_now :: u64
  ktimer_enabled :: u32
  ktimer_delta :: u32
  ktimer_time :: u64

section \<open>The kernel\<close>

text \<open>The identifier bases that the kernel publishes in the kernel information page.\<close>

record kip_threadinfo_t =
  user_base :: u32
  system_base :: u32

record kernel_t =
  mem :: mem_t
  thread_table :: ktable
  tcbs :: "nat \<Rightarrow> tcb_t"
  thread_map :: "ptr list"
  thread_count :: int
  current :: ptr
  current_utcb :: memptr
  caller :: ptr
  idle :: ptr
  kernel :: ptr
  root :: ptr
  slots :: "sched_slot_t list"
  softirq :: "softirq_t list"
  ktimer :: ktimer_t
  kip_fpage :: ptr
  kip_extra_fpage :: ptr
  kip_thread_info :: kip_threadinfo_t
  ram :: "memptr \<Rightarrow> u32"
  dbg :: debug_t

text \<open>
  What the kernel image fixes: the memory map, the devices, the addresses of its data, stacks and
  threads, the table of symbols and the banner that the build writes into it, and the addresses that the
  kernel debugger prints or probes.
\<close>

record image_t =
  im_memmap :: "mempool_t list"
  im_dev :: device
  im_kip :: memptr
  im_kip_extra :: memptr
  im_root_utcb :: memptr
  im_text :: "memptr \<Rightarrow> u8"
  im_root_stack_start :: memptr
  im_root_stack_end :: memptr
  im_kernel_stack_end :: memptr
  im_idle_stack_end :: memptr
  im_root_thread :: memptr
  im_idle_thread :: memptr
  im_symtab :: symtab
  im_banner :: string
  im_bitmap_addr :: "kdb_table \<Rightarrow> memptr"
  im_ktimer_handler :: memptr

definition upd_tcb :: "nat \<Rightarrow> (tcb_t \<Rightarrow> tcb_t) \<Rightarrow> kernel_t \<Rightarrow> kernel_t" where
  "upd_tcb i f k = k\<lparr>tcbs := (tcbs k)(i := f (tcbs k i))\<rparr>"

definition upd_mem :: "mem_t \<Rightarrow> kernel_t \<Rightarrow> kernel_t" where
  "upd_mem m k = k\<lparr>mem := m\<rparr>"

definition write_ram :: "memptr \<Rightarrow> u32 \<Rightarrow> kernel_t \<Rightarrow> kernel_t" where
  "write_ram a v k = k\<lparr>ram := (ram k)(a := v)\<rparr>"

text \<open>What each update leaves alone.\<close>

lemma upd_tcb_simps [simp]:
  "tcbs (upd_tcb i f k) = (tcbs k)(i := f (tcbs k i))"
  "mem (upd_tcb i f k) = mem k"
  "thread_table (upd_tcb i f k) = thread_table k"
  "thread_map (upd_tcb i f k) = thread_map k"
  "thread_count (upd_tcb i f k) = thread_count k"
  "current (upd_tcb i f k) = current k"
  "current_utcb (upd_tcb i f k) = current_utcb k"
  "caller (upd_tcb i f k) = caller k"
  "idle (upd_tcb i f k) = idle k"
  "kernel (upd_tcb i f k) = kernel k"
  "root (upd_tcb i f k) = root k"
  "slots (upd_tcb i f k) = slots k"
  "softirq (upd_tcb i f k) = softirq k"
  "ktimer (upd_tcb i f k) = ktimer k"
  "kip_fpage (upd_tcb i f k) = kip_fpage k"
  "kip_extra_fpage (upd_tcb i f k) = kip_extra_fpage k"
  "kip_thread_info (upd_tcb i f k) = kip_thread_info k"
  "ram (upd_tcb i f k) = ram k"
  "dbg (upd_tcb i f k) = dbg k"
  by (simp_all add: upd_tcb_def)

lemma upd_mem_simps [simp]:
  "mem (upd_mem m k) = m"
  "thread_table (upd_mem m k) = thread_table k"
  "thread_map (upd_mem m k) = thread_map k"
  "thread_count (upd_mem m k) = thread_count k"
  "current (upd_mem m k) = current k"
  "current_utcb (upd_mem m k) = current_utcb k"
  "caller (upd_mem m k) = caller k"
  "idle (upd_mem m k) = idle k"
  "kernel (upd_mem m k) = kernel k"
  "root (upd_mem m k) = root k"
  "slots (upd_mem m k) = slots k"
  "softirq (upd_mem m k) = softirq k"
  "ktimer (upd_mem m k) = ktimer k"
  "kip_fpage (upd_mem m k) = kip_fpage k"
  "kip_extra_fpage (upd_mem m k) = kip_extra_fpage k"
  "kip_thread_info (upd_mem m k) = kip_thread_info k"
  "ram (upd_mem m k) = ram k"
  "tcbs (upd_mem m k) = tcbs k"
  "dbg (upd_mem m k) = dbg k"
  by (simp_all add: upd_mem_def)

lemma write_ram_simps [simp]:
  "ram (write_ram a v k) = (ram k)(a := v)"
  "mem (write_ram a v k) = mem k"
  "thread_table (write_ram a v k) = thread_table k"
  "thread_map (write_ram a v k) = thread_map k"
  "thread_count (write_ram a v k) = thread_count k"
  "current (write_ram a v k) = current k"
  "current_utcb (write_ram a v k) = current_utcb k"
  "caller (write_ram a v k) = caller k"
  "idle (write_ram a v k) = idle k"
  "kernel (write_ram a v k) = kernel k"
  "root (write_ram a v k) = root k"
  "slots (write_ram a v k) = slots k"
  "softirq (write_ram a v k) = softirq k"
  "ktimer (write_ram a v k) = ktimer k"
  "kip_fpage (write_ram a v k) = kip_fpage k"
  "kip_extra_fpage (write_ram a v k) = kip_extra_fpage k"
  "kip_thread_info (write_ram a v k) = kip_thread_info k"
  "tcbs (write_ram a v k) = tcbs k"
  "dbg (write_ram a v k) = dbg k"
  by (simp_all add: write_ram_def)

text \<open>A load and a store through a pointer to user memory that must not be NULL.\<close>

definition utcb_read :: "memptr \<Rightarrow> u32 \<Rightarrow> kernel_t \<Rightarrow> u32 outcome" where
  "utcb_read p off k = (if p = 0 then Inl NullDeref else Inr (ram k (p + off)))"

definition utcb_write :: "memptr \<Rightarrow> u32 \<Rightarrow> u32 \<Rightarrow> kernel_t \<Rightarrow> kernel_t outcome" where
  "utcb_write p off v k = (if p = 0 then Inl NullDeref else Inr (write_ram (p + off) v k))"

section \<open>User errors\<close>

datatype user_error_t =
  UE_NO_PRIVILIGE | UE_OUT_OF_MEM | UE_TC_NOT_AVAILABLE | UE_TC_INVAL_SPACE | UE_TC_INVAL_SCHED
  | UE_TC_INVAL_UTCB | UE_IPC_PHASE_SEND | UE_IPC_PHASE_RECV | UE_IPC_TIMEOUT | UE_IPC_NOT_EXIST
  | UE_IPC_CANCELED | UE_IPC_MSG_OVERFLOW | UE_IPC_XFER_TIMEOUT | UE_IPC_XFER_TIMEOUT2 | UE_IPC_ABORTED

primrec user_error_code :: "user_error_t \<Rightarrow> u32" where
  "user_error_code UE_NO_PRIVILIGE = 1"
| "user_error_code UE_OUT_OF_MEM = 8"
| "user_error_code UE_TC_NOT_AVAILABLE = 2"
| "user_error_code UE_TC_INVAL_SPACE = 3"
| "user_error_code UE_TC_INVAL_SCHED = 4"
| "user_error_code UE_TC_INVAL_UTCB = 6"
| "user_error_code UE_IPC_PHASE_SEND = 0"
| "user_error_code UE_IPC_PHASE_RECV = 1"
| "user_error_code UE_IPC_TIMEOUT = push_bit 1 1"
| "user_error_code UE_IPC_NOT_EXIST = push_bit 1 2"
| "user_error_code UE_IPC_CANCELED = push_bit 1 3"
| "user_error_code UE_IPC_MSG_OVERFLOW = push_bit 1 4"
| "user_error_code UE_IPC_XFER_TIMEOUT = push_bit 1 5"
| "user_error_code UE_IPC_XFER_TIMEOUT2 = push_bit 1 6"
| "user_error_code UE_IPC_ABORTED = push_bit 1 7"

text \<open>\<^verbatim>\<open>assert_impl\<close> and \<^verbatim>\<open>panic_impl\<close>: both print and then spin forever.\<close>

definition panic :: "string \<Rightarrow> 'a outcome" where
  "panic msg = Inl (Panic msg)"

definition assert_impl :: "bool \<Rightarrow> unit outcome" where
  "assert_impl cond = (if \<not> cond then panic ''assert'' else Inr ())"

definition set_user_error :: "ptr \<Rightarrow> u32 \<Rightarrow> kernel_t \<Rightarrow> kernel_t outcome" where
  "set_user_error thread err k =
     (case thread of
        None \<Rightarrow> panic ''assert''
      | Some t \<Rightarrow>
          bindF (assert_impl (t_utcb (tcbs k t) \<noteq> 0)) (\<lambda>_.
          utcb_write (t_utcb (tcbs k t)) UTCB_error_code err k))"

definition set_caller_error :: "user_error_t \<Rightarrow> kernel_t \<Rightarrow> kernel_t outcome" where
  "set_caller_error err k =
     (if caller k \<noteq> None then set_user_error (caller k) (user_error_code err) k
      else panic ''User-level error during in-kernel call'')"

end
