(* ===== verification/F9_Thread.thy ===== *)
theory F9_Thread
  imports F9_State
begin

text \<open>
  The thread dispatcher (\<^verbatim>\<open>kernel/thread.c\<close>): the sorted map from global identifiers to thread
  control blocks, creation and destruction of threads, their address spaces and initial
  contexts, the switch to a thread and the search for a thread to run.
\<close>

section \<open>The thread map\<close>

definition map_tid :: "kernel_t \<Rightarrow> nat \<Rightarrow> u32 outcome" where
  "map_tid k i =
     bindF (array_get (thread_map k) i) (\<lambda>p.
     bindF (deref p) (\<lambda>t. Inr (GLOBALID_TO_TID (t_globalid (tcbs k t)))))"

text \<open>The loop of the binary search; the interval shrinks in every turn.\<close>

function thread_map_search_loop :: "kernel_t \<Rightarrow> u32 \<Rightarrow> nat \<Rightarrow> nat \<Rightarrow> int outcome" where
  "thread_map_search_loop k tid from to =
     (if \<not> from \<le> to then Inr (- 1)
      else let mid = from + (to - from) div 2 in
        if to - from \<le> 1 then Inr (int to)
        else bindF (map_tid k mid) (\<lambda>t.
          if t > tid then thread_map_search_loop k tid from mid
          else if t < tid then thread_map_search_loop k tid mid to
          else Inr (int mid)))"
  by pat_completeness auto
termination
  by (relation "measure (\<lambda>(k, tid, from, to). to - from)") auto

declare thread_map_search_loop.simps [simp del]

definition thread_map_search :: "kernel_t \<Rightarrow> u32 \<Rightarrow> nat \<Rightarrow> nat \<Rightarrow> int outcome" where
  "thread_map_search k globalid from to =
     (let tid = GLOBALID_TO_TID globalid in
      if to = from then Inr (int from)
      else bindF (map_tid k from) (\<lambda>t.
        if t \<ge> tid then Inr (int from) else thread_map_search_loop k tid from to))"

text \<open>The loops that make room for an entry and that close the gap of a removed one.\<close>

fun shift_up :: "nat \<Rightarrow> nat \<Rightarrow> ptr list \<Rightarrow> ptr list outcome" where
  "shift_up i 0 xs = Inr xs"
| "shift_up i (Suc j) xs =
     (if i < Suc j
      then bindF (array_get xs j) (\<lambda>p. bindF (array_set xs (Suc j) p) (shift_up i j))
      else Inr xs)"

function shift_down :: "nat \<Rightarrow> nat \<Rightarrow> ptr list \<Rightarrow> ptr list outcome" where
  "shift_down i n xs =
     (if i < n
      then bindF (array_get xs (Suc i)) (\<lambda>p. bindF (array_set xs i p) (shift_down (Suc i) n))
      else Inr xs)"
  by pat_completeness auto
termination
  by (relation "measure (\<lambda>(i, n, xs). n - i)") auto

declare shift_down.simps [simp del]

definition thread_map_insert :: "u32 \<Rightarrow> nat \<Rightarrow> kernel_t \<Rightarrow> kernel_t outcome" where
  "thread_map_insert globalid thr k =
     (if thread_count k = 0
      then bindF (array_set (thread_map k) 0 (Some thr)) (\<lambda>xs.
           Inr (k\<lparr>thread_map := xs, thread_count := thread_count k + 1\<rparr>))
      else bindF (thread_map_search k globalid 0 (nat (thread_count k))) (\<lambda>i.
           bindF (shift_up (nat i) (nat (thread_count k)) (thread_map k)) (\<lambda>xs.
           bindF (array_set xs (nat i) (Some thr)) (\<lambda>xs.
           Inr (k\<lparr>thread_map := xs, thread_count := thread_count k + 1\<rparr>)))))"

definition thread_map_delete :: "u32 \<Rightarrow> kernel_t \<Rightarrow> kernel_t outcome" where
  "thread_map_delete globalid k =
     (if thread_count k = 1 then Inr (k\<lparr>thread_count := 0\<rparr>)
      else bindF (thread_map_search k globalid 0 (nat (thread_count k))) (\<lambda>i.
           bindF (shift_down (nat i) (nat (thread_count k - 1)) (thread_map k)) (\<lambda>xs.
           Inr (k\<lparr>thread_map := xs, thread_count := thread_count k - 1\<rparr>))))"

definition thread_by_globalid :: "kernel_t \<Rightarrow> u32 \<Rightarrow> ptr outcome" where
  "thread_by_globalid k globalid =
     bindF (thread_map_search k globalid 0 (nat (thread_count k))) (\<lambda>idx.
     bindF (map_tid k (nat idx)) (\<lambda>t.
     if t \<noteq> GLOBALID_TO_TID globalid then Inr None else array_get (thread_map k) (nat idx)))"

section \<open>Predicates\<close>

definition thread_isrunnable :: "kernel_t \<Rightarrow> nat \<Rightarrow> bool" where
  "thread_isrunnable k thr \<longleftrightarrow> t_state (tcbs k thr) = T_RUNNABLE"

definition thread_current :: "kernel_t \<Rightarrow> ptr" where
  "thread_current k = current k"

definition thread_ispriviliged :: "kernel_t \<Rightarrow> nat \<Rightarrow> bool" where
  "thread_ispriviliged k thr \<longleftrightarrow> GLOBALID_TO_TID (t_globalid (tcbs k thr)) = THREAD_ROOT"

section \<open>Creation and destruction\<close>

definition thread_init :: "u32 \<Rightarrow> memptr \<Rightarrow> kernel_t \<Rightarrow> (ptr \<times> kernel_t) outcome" where
  "thread_init globalid utcb k =
     bindF (ktable_alloc_slot (thread_table k)) (\<lambda>(s, kt).
     case s of
       None \<Rightarrow> bindF (set_caller_error UE_OUT_OF_MEM (k\<lparr>thread_table := kt\<rparr>)) (\<lambda>k. Inr (None, k))
     | Some thr \<Rightarrow>
         bindF (thread_map_insert globalid thr (k\<lparr>thread_table := kt\<rparr>)) (\<lambda>k.
         let k = upd_tcb thr (\<lambda>t. t\<lparr>t_localid := 0, t_child := None, t_parent := None,
                   t_sibling := None, t_globalid := globalid\<rparr>) k;
             k = (if utcb \<noteq> 0 then write_ram (utcb + UTCB_globalid) globalid k else k) in
         Inr (Some thr, upd_tcb thr (\<lambda>t. t\<lparr>t_as := None, t_utcb := utcb, t_state := T_INACTIVE\<rparr>) k)))"

definition thread_deinit :: "nat \<Rightarrow> kernel_t \<Rightarrow> kernel_t outcome" where
  "thread_deinit thr k =
     bindF (thread_map_delete (t_globalid (tcbs k thr)) k) (\<lambda>k.
     bindF (ktable_free_slot (thread_table k) thr) (\<lambda>kt. Inr (k\<lparr>thread_table := kt\<rparr>)))"

text \<open>The walks over a chain of siblings have one step per slot of the thread table, plus one.\<close>

definition THREAD_FUEL :: nat where "THREAD_FUEL = Suc CONFIG_MAX_THREADS"

fun last_sibling :: "nat \<Rightarrow> kernel_t \<Rightarrow> nat \<Rightarrow> nat outcome" where
  "last_sibling 0 k t = Inl Diverges"
| "last_sibling (Suc n) k t =
     (case t_sibling (tcbs k t) of None \<Rightarrow> Inr t | Some s \<Rightarrow> last_sibling n k s)"

definition thread_create :: "u32 \<Rightarrow> memptr \<Rightarrow> kernel_t \<Rightarrow> (ptr \<times> kernel_t) outcome" where
  "thread_create globalid utcb k =
     (case caller k of
        None \<Rightarrow> panic ''assert''
      | Some c \<Rightarrow>
          if GLOBALID_TO_TID globalid < THREAD_SYS \<or> globalid = L4_ANYTHREAD \<or> globalid = L4_ANYLOCALTHREAD
          then bindF (set_caller_error UE_TC_NOT_AVAILABLE k) (\<lambda>k. Inr (None, k))
          else
            bindF (thread_init globalid utcb k) (\<lambda>(p, k).
            bindF (deref p) (\<lambda>thr.
            let k = upd_tcb thr (t_parent_update (\<lambda>_. Some c)) k in
            case t_child (tcbs k c) of
              Some t0 \<Rightarrow>
                bindF (last_sibling THREAD_FUEL k t0) (\<lambda>t.
                let k = upd_tcb t (t_sibling_update (\<lambda>_. Some thr)) k in
                Inr (Some thr, upd_tcb thr (t_localid_update (\<lambda>_. t_localid (tcbs k t) + push_bit 6 1)) k))
            | None \<Rightarrow>
                let k = upd_tcb c (t_child_update (\<lambda>_. Some thr)) k in
                Inr (Some thr, upd_tcb thr (t_localid_update (\<lambda>_. push_bit 6 1)) k))))"

text \<open>The sibling before \<open>thr\<close>; \<open>prev\<close> is the last one passed.\<close>

fun prev_sibling :: "nat \<Rightarrow> kernel_t \<Rightarrow> nat \<Rightarrow> ptr \<Rightarrow> ptr \<Rightarrow> ptr outcome" where
  "prev_sibling 0 k thr prev child = Inl Diverges"
| "prev_sibling (Suc n) k thr prev child =
     (if child = Some thr then Inr prev
      else bindF (deref child) (\<lambda>c. prev_sibling n k thr (Some c) (t_sibling (tcbs k c))))"

text \<open>Giving the siblings from \<open>child\<close> on a new parent; the last of them.\<close>

fun adopt :: "nat \<Rightarrow> nat \<Rightarrow> nat \<Rightarrow> kernel_t \<Rightarrow> (nat \<times> kernel_t) outcome" where
  "adopt 0 p child k = Inl Diverges"
| "adopt (Suc n) p child k =
     (let k = upd_tcb child (t_parent_update (\<lambda>_. Some p)) k in
      case t_sibling (tcbs k child) of None \<Rightarrow> Inr (child, k) | Some s \<Rightarrow> adopt n p s k)"

definition unlink_thread :: "nat \<Rightarrow> kernel_t \<Rightarrow> kernel_t outcome" where
  "unlink_thread thr k =
     bindF (deref (t_parent (tcbs k thr))) (\<lambda>parent.
     if t_child (tcbs k parent) = Some thr
     then Inr (upd_tcb parent (t_child_update (\<lambda>_. t_sibling (tcbs k thr))) k)
     else bindF (prev_sibling THREAD_FUEL k thr None (t_child (tcbs k parent))) (\<lambda>prev.
          bindF (deref prev) (\<lambda>p.
          Inr (upd_tcb p (t_sibling_update (\<lambda>_. t_sibling (tcbs k thr))) k))))"

definition thread_destroy :: "nat \<Rightarrow> kernel_t \<Rightarrow> kernel_t outcome" where
  "thread_destroy thr k =
     bindF (unlink_thread thr k) (\<lambda>k.
     bindF (case t_child (tcbs k thr) of
              None \<Rightarrow> Inr k
            | Some child \<Rightarrow>
                bindF (deref (caller k)) (\<lambda>c.
                bindF (adopt THREAD_FUEL c child k) (\<lambda>(lst, k).
                let k = upd_tcb lst (t_sibling_update (\<lambda>_. t_child (tcbs k c))) k in
                Inr (upd_tcb c (t_child_update (\<lambda>_. t_child (tcbs k thr))) k)))) (\<lambda>k.
     thread_deinit thr k))"

section \<open>Address space and context of a thread\<close>

definition thread_space :: "image_t \<Rightarrow> nat \<Rightarrow> u32 \<Rightarrow> memptr \<Rightarrow> kernel_t \<Rightarrow> kernel_t outcome" where
  "thread_space im thr spaceid utcb k =
     bindF (if GLOBALID_TO_TID (t_globalid (tcbs k thr)) = GLOBALID_TO_TID spaceid
            then bindF (as_create (t_globalid (tcbs k thr)) (mem k)) (\<lambda>(a, m).
                 let k = upd_tcb thr (t_as_update (\<lambda>_. Some a)) (upd_mem m k) in
                 bindF (map_fpage a (kip_fpage k) GRANT (mem k)) (\<lambda>(_, m).
                 bindF (map_fpage a (kip_extra_fpage k) GRANT m) (\<lambda>(_, m).
                 Inr (upd_mem m k))))
            else bindF (thread_by_globalid k spaceid) (\<lambda>p.
                 bindF (deref p) (\<lambda>space.
                 let k = upd_tcb thr (t_as_update (\<lambda>_. t_as (tcbs k space))) k in
                 bindF (deref (t_as (tcbs k space))) (\<lambda>a.
                 Inr (upd_mem (upd_as a (as_shared_update (\<lambda>s. s + 1)) (mem k)) k))))) (\<lambda>k.
     bindF (deref (t_as (tcbs k thr))) (\<lambda>dst.
     case caller k of
       Some c \<Rightarrow>
         bindF (deref (t_as (tcbs k c))) (\<lambda>src.
         bindF (map_area (im_memmap im) src dst utcb UTCB_SIZE GRANT (thread_ispriviliged k c) (mem k)) (\<lambda>(_, m).
         Inr (upd_mem m k)))
     | None \<Rightarrow>
         bindF (map_area (im_memmap im) dst dst utcb UTCB_SIZE GRANT True (mem k)) (\<lambda>(_, m).
         Inr (upd_mem m k))))"

definition thread_free_space :: "nat \<Rightarrow> kernel_t \<Rightarrow> kernel_t outcome" where
  "thread_free_space thr k =
     bindF (deref (t_as (tcbs k thr))) (\<lambda>a.
     bindF (as_destroy a (mem k)) (\<lambda>m. Inr (upd_mem m k)))"

definition stack_word :: "memptr \<Rightarrow> u32 \<Rightarrow> memptr" where
  "stack_word sp r = sp + 4 * r"

definition thread_init_ctx :: "image_t \<Rightarrow> memptr \<Rightarrow> memptr \<Rightarrow> nat \<Rightarrow> kernel_t \<Rightarrow> kernel_t" where
  "thread_init_ctx im sp pc thr k =
     (let sp = sp - RESERVED_STACK;
          k = upd_tcb thr (\<lambda>t. t\<lparr>ctx := (ctx t)\<lparr>ctx_sp := sp\<rparr>\<rparr>) k;
          user = (GLOBALID_TO_TID (t_globalid (tcbs k thr)) \<ge> THREAD_ROOT);
          k = upd_tcb thr (\<lambda>t. t\<lparr>ctx := (ctx t)\<lparr>ctx_ret := if user then 0xFFFFFFFD else 0xFFFFFFF9,
                                                ctx_ctl := if user then 0x3 else 0x0\<rparr>\<rparr>) k;
          k = write_ram (stack_word sp REG_R0) (if user then im_kip im else 0) k;
          k = write_ram (stack_word sp REG_R1) (if user then t_utcb (tcbs k thr) else 0) k;
          k = write_ram (stack_word sp REG_R2) 0 k;
          k = write_ram (stack_word sp REG_R3) 0 k;
          k = write_ram (stack_word sp REG_R12) 0 k;
          k = write_ram (stack_word sp REG_LR) 0xFFFFFFFF k;
          k = write_ram (stack_word sp REG_PC) pc k in
      write_ram (stack_word sp REG_xPSR) 0x1000000 k)"

definition thread_init_kernel_ctx :: "memptr \<Rightarrow> nat \<Rightarrow> kernel_t \<Rightarrow> kernel_t" where
  "thread_init_kernel_ctx sp thr k =
     upd_tcb thr (\<lambda>t. t\<lparr>ctx := (ctx t)\<lparr>ctx_sp := sp - RESERVED_STACK, ctx_ret := 0xFFFFFFF9, ctx_ctl := 0\<rparr>\<rparr>) k"

section \<open>Switching and selection\<close>

definition thread_switch :: "image_t \<Rightarrow> ptr \<Rightarrow> kernel_t \<Rightarrow> kernel_t outcome" where
  "thread_switch im thr k =
     (case thr of
        None \<Rightarrow> panic ''assert''
      | Some t \<Rightarrow>
          bindF (assert_impl (thread_isrunnable k t)) (\<lambda>_.
          let k = k\<lparr>current := Some t, current_utcb := t_utcb (tcbs k t)\<rparr>;
              c = tcbs k t in
          case t_as c of
            None \<Rightarrow> Inr k
          | Some a \<Rightarrow>
              bindF (as_setup_mpu (im_memmap im) a (ctx_sp (ctx c)) (ram k (stack_word (ctx_sp (ctx c)) REG_PC))
                       (stack_base c) (stack_size c) (mem k)) (\<lambda>m.
              Inr (upd_mem m k))))"

text \<open>The climb to the first ancestor with a sibling; \<open>Inr None\<close> when it meets \<open>parent\<close>.\<close>

fun climb :: "nat \<Rightarrow> kernel_t \<Rightarrow> nat \<Rightarrow> nat \<Rightarrow> ptr outcome" where
  "climb 0 k parent thr = Inl Diverges"
| "climb (Suc n) k parent thr =
     (if t_parent (tcbs k thr) = Some parent then Inr None
      else bindF (deref (t_parent (tcbs k thr))) (\<lambda>a.
        case t_sibling (tcbs k a) of None \<Rightarrow> climb n k parent a | Some s \<Rightarrow> Inr (Some s)))"

fun thread_select_loop :: "nat \<Rightarrow> kernel_t \<Rightarrow> nat \<Rightarrow> nat \<Rightarrow> ptr outcome" where
  "thread_select_loop 0 k parent thr = Inl Diverges"
| "thread_select_loop (Suc n) k parent thr =
     (if thread_isrunnable k thr then Inr (Some thr)
      else case t_child (tcbs k thr) of
        Some c \<Rightarrow> thread_select_loop n k parent c
      | None \<Rightarrow>
          (case t_sibling (tcbs k thr) of
             Some s \<Rightarrow> thread_select_loop n k parent s
           | None \<Rightarrow> bindF (climb THREAD_FUEL k parent thr) (\<lambda>r.
               case r of None \<Rightarrow> Inr None | Some s \<Rightarrow> thread_select_loop n k parent s)))"

definition thread_select :: "kernel_t \<Rightarrow> ptr \<Rightarrow> ptr outcome" where
  "thread_select k parent =
     bindF (deref parent) (\<lambda>p.
     case t_child (tcbs k p) of None \<Rightarrow> Inr None | Some t \<Rightarrow> thread_select_loop THREAD_FUEL k p t)"

definition thread_sched :: "kernel_t \<Rightarrow> ptr outcome" where
  "thread_sched k = thread_select k (root k)"

end
