(* ===== verification/F9_Sched.thy ===== *)
theory F9_Sched
  imports F9_Thread
begin

text \<open>
  The scheduler (\<^verbatim>\<open>kernel/sched.c\<close>) with its six slots in the order of their priority, the requests
  for soft interrupts (\<^verbatim>\<open>kernel/softirq.c\<close>), and the start of the thread subsystem
  (\<^verbatim>\<open>thread_init_subsys\<close> of \<^verbatim>\<open>kernel/thread.c\<close>), which installs the handler of the normal slot.
\<close>

section \<open>Scheduler slots\<close>

definition sched_init :: "kernel_t \<Rightarrow> kernel_t" where
  "sched_init k = k\<lparr>slots := map (\<lambda>s. s\<lparr>ss_scheduled := None, ss_handler := None\<rparr>) (slots k)\<rparr>"

definition upd_slot :: "sched_slot_id_t \<Rightarrow> (sched_slot_t \<Rightarrow> sched_slot_t) \<Rightarrow> kernel_t \<Rightarrow> kernel_t" where
  "upd_slot s f k = k\<lparr>slots := (slots k)[slot_index s := f (slots k ! slot_index s)]\<rparr>"

definition sched_slot_dispatch :: "sched_slot_id_t \<Rightarrow> ptr \<Rightarrow> kernel_t \<Rightarrow> kernel_t" where
  "sched_slot_dispatch s thread k = upd_slot s (ss_scheduled_update (\<lambda>_. thread)) k"

definition sched_slot_set_handler :: "sched_slot_id_t \<Rightarrow> sched_handler_t option \<Rightarrow> kernel_t \<Rightarrow> kernel_t" where
  "sched_slot_set_handler s handler k = upd_slot s (ss_handler_update (\<lambda>_. handler)) k"

primrec run_sched_handler :: "sched_handler_t \<Rightarrow> kernel_t \<Rightarrow> ptr outcome" where
  "run_sched_handler Thread_sched k = thread_sched k"

text \<open>The loop of \<^verbatim>\<open>schedule_select\<close>, over the last \<open>n\<close> slots.\<close>

fun schedule_select_loop :: "nat \<Rightarrow> kernel_t \<Rightarrow> (ptr \<times> kernel_t) outcome" where
  "schedule_select_loop 0 k = panic ''Reached end of schedule()''"
| "schedule_select_loop (Suc n) k =
     (let i = NUM_SCHED_SLOTS - Suc n; scheduled = ss_scheduled (slots k ! i) in
      if (case scheduled of None \<Rightarrow> False | Some t \<Rightarrow> thread_isrunnable k t) then Inr (scheduled, k)
      else case ss_handler (slots k ! i) of
        None \<Rightarrow> schedule_select_loop n k
      | Some h \<Rightarrow>
          bindF (run_sched_handler h k) (\<lambda>scheduled.
          if scheduled \<noteq> None
          then Inr (scheduled, k\<lparr>slots := (slots k)[i := (slots k ! i)\<lparr>ss_scheduled := scheduled\<rparr>]\<rparr>)
          else schedule_select_loop n k))"

definition schedule_select :: "kernel_t \<Rightarrow> (ptr \<times> kernel_t) outcome" where
  "schedule_select k = schedule_select_loop NUM_SCHED_SLOTS k"

definition schedule :: "image_t \<Rightarrow> kernel_t \<Rightarrow> (int \<times> kernel_t) outcome" where
  "schedule im k =
     bindF (schedule_select k) (\<lambda>(scheduled, k).
     bindF (thread_switch im scheduled k) (\<lambda>k. Inr (1, k)))"

section \<open>Soft interrupts\<close>

definition upd_softirq :: "softirq_type_t \<Rightarrow> (softirq_t \<Rightarrow> softirq_t) \<Rightarrow> kernel_t \<Rightarrow> kernel_t" where
  "upd_softirq s f k = k\<lparr>softirq := (softirq k)[softirq_index s := f (softirq k ! softirq_index s)]\<rparr>"

definition softirq_register :: "softirq_type_t \<Rightarrow> softirq_handler_t \<Rightarrow> kernel_t \<Rightarrow> kernel_t" where
  "softirq_register s handler k = upd_softirq s (\<lambda>x. x\<lparr>si_handler := Some handler, si_schedule := 0\<rparr>) k"

definition set_kernel_state :: "thread_state_t \<Rightarrow> kernel_t \<Rightarrow> kernel_t outcome" where
  "set_kernel_state st k = bindF (deref (kernel k)) (\<lambda>t. Inr (upd_tcb t (t_state_update (\<lambda>_. st)) k))"

definition softirq_schedule :: "softirq_type_t \<Rightarrow> kernel_t \<Rightarrow> kernel_t outcome" where
  "softirq_schedule s k =
     set_kernel_state T_RUNNABLE (upd_softirq s (si_schedule_update (\<lambda>old. atomic_set old 1)) k)"

section \<open>Start of the thread subsystem\<close>

definition KIP_SIZE :: u32 where "KIP_SIZE = 256"

definition thread_init_subsys :: "image_t \<Rightarrow> kernel_t \<Rightarrow> kernel_t outcome" where
  "thread_init_subsys im k =
     bindF (ktable_init (thread_table k)) (\<lambda>kt.
     let k = k\<lparr>thread_table := kt, kip_thread_info := \<lparr>user_base = THREAD_USER, system_base = THREAD_SYS\<rparr>,
               dbg := kdb_register_ktable Thread_table (dbg k)\<rparr> in
     bindF (assign_fpages_ext (im_memmap im) (- 1) None (im_kip im) KIP_SIZE (kip_fpage k) None (mem k))
       (\<lambda>(_, first, lst, m).
     bindF (assign_fpages_ext (im_memmap im) (- 1) None (im_kip_extra im) CONFIG_KIP_EXTRA_SIZE
              (kip_extra_fpage k) lst m)
       (\<lambda>(_, efirst, _, m).
     Inr (sched_slot_set_handler SSI_NORMAL_THREAD (Some Thread_sched)
            (k\<lparr>mem := m, kip_fpage := first, kip_extra_fpage := efirst\<rparr>)))))"

end
