(* ===== verification/F9_Ktimer.thy ===== *)
theory F9_Ktimer
  imports F9_Sched
begin

text \<open>
  The system tick (\<^verbatim>\<open>platform/stm32f4/systick.c\<close>) and the kernel timer with its queue of events
  (\<^verbatim>\<open>kernel/ktimer.c\<close>). Events are slots of the event table, linked in a queue in which each event
  holds the number of ticks after its predecessor. The handler that runs due events is in
  \<open>F9_Kernel\<close>, because the events call into the message passing code.
\<close>

section \<open>The system tick\<close>

definition CORE_CLOCK :: u32 where "CORE_CLOCK = 0x0a037a00"
definition SYSTICK_MAXRELOAD :: u32 where "SYSTICK_MAXRELOAD = 0x00ffffff"
definition SYSTICK_CTL :: u32 where "SYSTICK_CTL = 0xE000E010"
definition SYSTICK_RELOAD :: u32 where "SYSTICK_RELOAD = 0xE000E014"
definition SYSTICK_VAL :: u32 where "SYSTICK_VAL = 0xE000E018"

definition store_reg :: "u32 \<Rightarrow> u32 \<Rightarrow> kernel_t \<Rightarrow> kernel_t" where
  "store_reg a v k = upd_mem (store a v (mem k)) k"

definition load_reg :: "image_t \<Rightarrow> u32 \<Rightarrow> kernel_t \<Rightarrow> u32" where
  "load_reg im a k = load (im_dev im) a (mem k)"

definition init_systick :: "u32 \<Rightarrow> u32 \<Rightarrow> kernel_t \<Rightarrow> kernel_t" where
  "init_systick tick_reload tick_next_reload k =
     (let k = store_reg SYSTICK_RELOAD (tick_reload - 1) k;
          k = store_reg SYSTICK_VAL 0 k;
          k = store_reg SYSTICK_CTL 0x00000007 k in
      if tick_next_reload \<noteq> 0 then store_reg SYSTICK_RELOAD (tick_next_reload - 1) k else k)"

definition systick_disable :: "kernel_t \<Rightarrow> kernel_t" where
  "systick_disable k = store_reg SYSTICK_CTL 0x00000000 k"

definition systick_now :: "image_t \<Rightarrow> kernel_t \<Rightarrow> u32" where
  "systick_now im k = load_reg im SYSTICK_VAL k"

definition systick_flag_count :: "image_t \<Rightarrow> kernel_t \<Rightarrow> u32" where
  "systick_flag_count im k = drop_bit 16 (load_reg im SYSTICK_CTL k AND push_bit 16 1)"

section \<open>The timer\<close>

definition upd_ktimer :: "(ktimer_t \<Rightarrow> ktimer_t) \<Rightarrow> kernel_t \<Rightarrow> kernel_t" where
  "upd_ktimer f k = k\<lparr>ktimer := f (ktimer k)\<rparr>"

definition upd_event :: "nat \<Rightarrow> (ktimer_event_t \<Rightarrow> ktimer_event_t) \<Rightarrow> ktimer_t \<Rightarrow> ktimer_t" where
  "upd_event i f kt = kt\<lparr>kt_events := (kt_events kt)(i := f (kt_events kt i))\<rparr>"

definition ktimer_init :: "kernel_t \<Rightarrow> kernel_t" where
  "ktimer_init k = init_systick CONFIG_KTIMER_HEARTBEAT 0 k"

definition ktimer_disable :: "ktimer_t \<Rightarrow> ktimer_t" where
  "ktimer_disable kt = (if ktimer_enabled kt \<noteq> 0 then kt\<lparr>ktimer_enabled := 0\<rparr> else kt)"

definition ktimer_enable :: "u32 \<Rightarrow> ktimer_t \<Rightarrow> ktimer_t" where
  "ktimer_enable delta kt =
     (if ktimer_enabled kt = 0 then kt\<lparr>ktimer_delta := delta, ktimer_time := 0, ktimer_enabled := 1\<rparr> else kt)"

definition ktimer_handler :: "kernel_t \<Rightarrow> kernel_t outcome" where
  "ktimer_handler k =
     (let k = upd_ktimer (ktimer_now_update (\<lambda>n. n + 1)) k in
      if ktimer_enabled (ktimer k) \<noteq> 0 \<and> ktimer_delta (ktimer k) > 0
      then let k = upd_ktimer (\<lambda>kt. kt\<lparr>ktimer_time := ktimer_time kt + 1, ktimer_delta := ktimer_delta kt - 1\<rparr>) k in
        if ktimer_delta (ktimer k) = 0
        then softirq_schedule KTE_SOFTIRQ
               (upd_ktimer (\<lambda>kt. kt\<lparr>ktimer_enabled := 0, ktimer_time := 0, ktimer_delta := 0\<rparr>) k)
        else Inr k
      else Inr k)"

section \<open>The queue of events\<close>

text \<open>A walk along the queue has one step per slot of the event table, plus one.\<close>

definition EVENT_FUEL :: nat where "EVENT_FUEL = Suc CONFIG_MAX_KT_EVENTS"

fun ktimer_event_recalc :: "nat \<Rightarrow> ptr \<Rightarrow> u32 \<Rightarrow> ktimer_t \<Rightarrow> ktimer_t outcome" where
  "ktimer_event_recalc 0 event new_delta kt = Inl Diverges"
| "ktimer_event_recalc (Suc n) event new_delta kt =
     (case event of
        None \<Rightarrow> Inr kt
      | Some e \<Rightarrow>
          let kt = upd_event e (ev_delta_update (\<lambda>d. d - new_delta)) kt in
          ktimer_event_recalc n (ev_next (kt_events kt e)) new_delta kt)"

text \<open>The search for the place of an event: its predecessor, its successor and its delta.\<close>

fun event_search :: "nat \<Rightarrow> ktimer_t \<Rightarrow> u32 \<Rightarrow> u32 \<Rightarrow> nat \<Rightarrow> (nat \<times> ptr \<times> u32) outcome" where
  "event_search 0 kt ticks etime event = Inl Diverges"
| "event_search (Suc n) kt ticks etime event =
     (let etime = etime + ev_delta (kt_events kt event);
          delta = ticks - etime in
      case ev_next (kt_events kt event) of
        None \<Rightarrow> Inr (event, None, delta)
      | Some next \<Rightarrow>
          if ticks > etime + ev_delta (kt_events kt next) then event_search n kt ticks etime next
          else Inr (event, Some next, delta))"

definition ktimer_event_schedule :: "u32 \<Rightarrow> nat \<Rightarrow> ktimer_t \<Rightarrow> (int \<times> ktimer_t) outcome" where
  "ktimer_event_schedule ticks kte kt =
     (if ticks = 0 then Inr (- 1, kt)
      else
        let ticks = ticks - ucast (ktimer_time kt);
            kt = upd_event kte (ev_next_update (\<lambda>_. None)) kt in
        case event_queue kt of
          None \<Rightarrow>
            let kt = upd_event kte (ev_delta_update (\<lambda>_. ticks)) kt in
            Inr (0, ktimer_enable ticks (kt\<lparr>event_queue := Some kte\<rparr>))
        | Some first \<Rightarrow>
            bindF (if ticks \<ge> ev_delta (kt_events kt first)
                   then bindF (event_search EVENT_FUEL kt ticks 0 first) (\<lambda>(event, next_event, delta).
                        Inr (next_event, delta, upd_event event (ev_next_update (\<lambda>_. Some kte)) kt))
                   else Inr (Some first, ticks, ktimer_enable ticks (kt\<lparr>event_queue := Some kte\<rparr>)))
              (\<lambda>(next_event, delta, kt).
            let delta = (if sint delta < CONFIG_KTIMER_MINTICKS then 0 else delta);
                kt = upd_event kte (\<lambda>e. e\<lparr>ev_next := next_event, ev_delta := delta\<rparr>) kt in
            bindF (ktimer_event_recalc EVENT_FUEL next_event delta kt) (\<lambda>kt. Inr (0, kt))))"

definition ktimer_event_create ::
  "u32 \<Rightarrow> ktimer_event_handler_t option \<Rightarrow> ptr \<Rightarrow> kernel_t \<Rightarrow> (int \<times> kernel_t) outcome" where
  "ktimer_event_create ticks handler data k =
     (case handler of
        None \<Rightarrow> Inr (- 1, k)
      | Some h \<Rightarrow>
          bindF (ktable_alloc_slot (ktimer_event_table (ktimer k))) (\<lambda>(s, t).
          case s of
            None \<Rightarrow> Inr (- 1, upd_ktimer (ktimer_event_table_update (\<lambda>_. t)) k)
          | Some kte \<Rightarrow>
              let kt = upd_event kte (\<lambda>e. e\<lparr>ev_next := None, ev_handler := h, ev_data := data\<rparr>)
                         ((ktimer k)\<lparr>ktimer_event_table := t\<rparr>) in
              bindF (ktimer_event_schedule ticks kte kt) (\<lambda>(r, kt). Inr (r, k\<lparr>ktimer := kt\<rparr>))))"

definition ktimer_event_init :: "kernel_t \<Rightarrow> kernel_t outcome" where
  "ktimer_event_init k =
     bindF (ktable_init (ktimer_event_table (ktimer k))) (\<lambda>t.
     let k = k\<lparr>dbg := kdb_register_ktable Ktimer_event_table (dbg k)\<rparr> in
     Inr (softirq_register KTE_SOFTIRQ Ktimer_event_handler
            (ktimer_init (upd_ktimer (ktimer_event_table_update (\<lambda>_. t)) k))))"

section \<open>Tickless idling\<close>

definition CONFIG_KTIMER_TICKLESS_COMPENSATION :: u32 where "CONFIG_KTIMER_TICKLESS_COMPENSATION = 0"
definition CONFIG_KTIMER_TICKLESS_INT_COMPENSATION :: u32 where "CONFIG_KTIMER_TICKLESS_INT_COMPENSATION = 0"

definition KTIMER_MAXTICKS :: u32 where
  "KTIMER_MAXTICKS = SYSTICK_MAXRELOAD div CONFIG_KTIMER_HEARTBEAT"

text \<open>
  The registers are read twice: \<open>now0\<close> before the processor waits for an interrupt, \<open>flag\<close> and \<open>now1\<close>
  after it. The comparison \<^verbatim>\<open>reload < 0\<close> is on an unsigned variable and never holds.
\<close>

definition ktimer_enter_tickless :: "u32 \<Rightarrow> u32 \<Rightarrow> u32 \<Rightarrow> kernel_t \<Rightarrow> kernel_t" where
  "ktimer_enter_tickless now0 flag now1 k =
     (let kt = ktimer k;
          tickless_delta = (if ktimer_enabled kt \<noteq> 0 \<and> ktimer_delta kt \<le> KTIMER_MAXTICKS
                            then ktimer_delta kt else KTIMER_MAXTICKS) - 1;
          reload = CONFIG_KTIMER_HEARTBEAT * tickless_delta + (now0 - CONFIG_KTIMER_TICKLESS_COMPENSATION);
          k = (if reload > 2 then init_systick reload CONFIG_KTIMER_HEARTBEAT k else k);
          (tickless_delta, k) =
            (if flag = 0
             then let tickless_rest = now1 div CONFIG_KTIMER_HEARTBEAT in
               if tickless_rest > 0
               then let tickless_delta = tickless_delta - tickless_rest;
                        reload = now1 mod CONFIG_KTIMER_HEARTBEAT - CONFIG_KTIMER_TICKLESS_INT_COMPENSATION;
                        reload_overflow = (reload < 0);
                        reload = reload + (if reload_overflow then CONFIG_KTIMER_HEARTBEAT else 0) in
                    (if reload_overflow then tickless_delta + 1 else tickless_delta,
                     init_systick reload CONFIG_KTIMER_HEARTBEAT k)
               else (tickless_delta, k)
             else (tickless_delta, k)) in
      upd_ktimer (\<lambda>kt. kt\<lparr>ktimer_time := ktimer_time kt + ucast tickless_delta,
                           ktimer_delta := ktimer_delta kt - tickless_delta,
                           ktimer_now := ktimer_now kt + ucast tickless_delta\<rparr>) k)"

end
