(* ===== verification/F9_Irq.thy ===== *)
theory F9_Irq
  imports F9_Ktimer
begin

text \<open>
  Interrupt entry and context switch (\<^verbatim>\<open>include/platform/irq.h\<close>, \<^verbatim>\<open>platform/irq.c\<close>) and the interrupt
  controller (\<^verbatim>\<open>platform/stm32f4/nvic.c\<close>). The processor registers that the assembly macros move are
  the record \<open>cpu_t\<close>; floating point registers are off in the default configuration.
\<close>

section \<open>Interrupt controller\<close>

definition SCB_ICSR :: u32 where "SCB_ICSR = 0xE000ED04"
definition SCB_AIRCR :: u32 where "SCB_AIRCR = 0xE000ED0C"
definition SCB_SHPR :: u32 where "SCB_SHPR = 0xE000ED18"
definition NVIC_IP :: u32 where "NVIC_IP = 0xE000E400"
definition SCB_ICSR_PENDSVSET :: u32 where "SCB_ICSR_PENDSVSET = push_bit 28 1"
definition SCB_ICSR_RETTOBASE :: u32 where "SCB_ICSR_RETTOBASE = push_bit 11 1"
definition AIRCR_VECTKEY_MASK :: u32 where "AIRCR_VECTKEY_MASK = 0x05FA0000"

definition NVIC_PriorityGroup_4 :: u32 where "NVIC_PriorityGroup_4 = 0x300"

definition NVIC_PriorityGroupConfig :: "u32 \<Rightarrow> kernel_t \<Rightarrow> kernel_t" where
  "NVIC_PriorityGroupConfig g k =
     (if g \<notin> {0x700, 0x600, 0x500, 0x400, 0x300} then k
      else store_reg SCB_AIRCR (AIRCR_VECTKEY_MASK OR g) k)"

text \<open>The exception numbers that the kernel sets priorities for.\<close>

definition MemoryManagement_IRQn :: int where "MemoryManagement_IRQn = - 12"
definition BusFault_IRQn :: int where "BusFault_IRQn = - 11"
definition UsageFault_IRQn :: int where "UsageFault_IRQn = - 10"
definition SVCall_IRQn :: int where "SVCall_IRQn = - 5"
definition DebugMonitor_IRQn :: int where "DebugMonitor_IRQn = - 4"
definition PendSV_IRQn :: int where "PendSV_IRQn = - 2"
definition SysTick_IRQn :: int where "SysTick_IRQn = - 1"

text \<open>The priority byte, from the grouping that the register \<open>aircr\<close> holds.\<close>

definition nvic_priority :: "u32 \<Rightarrow> u8 \<Rightarrow> u8 \<Rightarrow> u8" where
  "nvic_priority aircr group_priority sub_priority =
     (let sub_shifts = (ucast (drop_bit 8 (0x700 - (aircr AND 0x700))) :: u8);
          group_shifts = 0x4 - sub_shifts in
      ucast (push_bit (unat group_shifts) (ucast group_priority :: u32)) OR
      (sub_priority AND ucast (drop_bit (unat sub_shifts) (0xf :: u32))))"

definition NVIC_SetPriority :: "image_t \<Rightarrow> int \<Rightarrow> u8 \<Rightarrow> u8 \<Rightarrow> kernel_t \<Rightarrow> kernel_t" where
  "NVIC_SetPriority im IRQn group_priority sub_priority k =
     (let priority = push_bit 4 (nvic_priority (load_reg im SCB_AIRCR k) group_priority sub_priority) in
      if IRQn < 0 then store_reg (SCB_SHPR + ((word_of_int IRQn AND 0xf) - 4)) (ucast priority) k
      else store_reg (NVIC_IP + word_of_int IRQn) (ucast priority) k)"

definition irq_init :: "image_t \<Rightarrow> kernel_t \<Rightarrow> kernel_t" where
  "irq_init im k =
     (let k = NVIC_PriorityGroupConfig NVIC_PriorityGroup_4 k;
          k = NVIC_SetPriority im DebugMonitor_IRQn 0x0 0 k;
          k = NVIC_SetPriority im MemoryManagement_IRQn 0x1 0 k;
          k = NVIC_SetPriority im BusFault_IRQn 0x1 0 k;
          k = NVIC_SetPriority im UsageFault_IRQn 0x1 0 k;
          k = NVIC_SetPriority im SysTick_IRQn 0x3 0 k;
          k = NVIC_SetPriority im SVCall_IRQn 0xF 0 k in
      NVIC_SetPriority im PendSV_IRQn 0xF 0 k)"

definition request_schedule :: "image_t \<Rightarrow> kernel_t \<Rightarrow> kernel_t" where
  "request_schedule im k = store_reg SCB_ICSR (load_reg im SCB_ICSR k OR SCB_ICSR_PENDSVSET) k"

definition NO_PREEMPTED_IRQ :: "image_t \<Rightarrow> kernel_t \<Rightarrow> bool" where
  "NO_PREEMPTED_IRQ im k \<longleftrightarrow> load_reg im SCB_ICSR k AND SCB_ICSR_RETTOBASE \<noteq> 0"

text \<open>An interrupt handler declared with \<^verbatim>\<open>IRQ_HANDLER\<close>: its routine, then the request of a switch.\<close>

definition IRQ_HANDLER :: "image_t \<Rightarrow> (kernel_t \<Rightarrow> kernel_t outcome) \<Rightarrow> kernel_t \<Rightarrow> kernel_t outcome" where
  "IRQ_HANDLER im sub k = bindF (sub k) (\<lambda>k. Inr (request_schedule im k))"

section \<open>Context switch\<close>

record cpu_t =
  r4_r11 :: "u32 list"
  msp :: u32
  psp :: u32
  lr :: u32
  control :: u32

text \<open>The low bits of the return code say which stack the interrupted code used.\<close>

definition on_main_stack :: "u32 \<Rightarrow> bool" where
  "on_main_stack ret \<longleftrightarrow> ret AND 0xf = 0x9"

definition irq_save :: "cpu_t \<Rightarrow> context_t \<Rightarrow> context_t" where
  "irq_save cpu c =
     c\<lparr>ctx_regs := r4_r11 cpu, ctx_sp := if on_main_stack (lr cpu) then msp cpu else psp cpu, ctx_ret := lr cpu\<rparr>"

definition irq_restore :: "context_t \<Rightarrow> cpu_t \<Rightarrow> cpu_t" where
  "irq_restore c cpu =
     (let cpu = cpu\<lparr>lr := ctx_ret c\<rparr>;
          cpu = (if on_main_stack (lr cpu) then cpu\<lparr>msp := ctx_sp c\<rparr> else cpu\<lparr>psp := ctx_sp c\<rparr>) in
      cpu\<lparr>r4_r11 := ctx_regs c, control := ctx_ctl c\<rparr>)"

text \<open>The argument \<open>from\<close> of the macro is the variable \<open>current\<close>, which the switch sets.\<close>

definition context_switch :: "image_t \<Rightarrow> ptr \<Rightarrow> cpu_t \<times> kernel_t \<Rightarrow> (cpu_t \<times> kernel_t) outcome" where
  "context_switch im to = (\<lambda>(cpu, k).
     bindF (deref (current k)) (\<lambda>from.
     bindF (thread_switch im to (upd_tcb from (ctx_update (irq_save cpu)) k)) (\<lambda>k.
     bindF (deref (current k)) (\<lambda>t. Inr (irq_restore (ctx (tcbs k t)) cpu, k)))))"

definition schedule_in_irq :: "image_t \<Rightarrow> cpu_t \<times> kernel_t \<Rightarrow> (cpu_t \<times> kernel_t) outcome" where
  "schedule_in_irq im = (\<lambda>(cpu, k).
     bindF (schedule_select k) (\<lambda>(sel, k).
     if sel \<noteq> current k then context_switch im sel (cpu, k) else Inr (cpu, k)))"

definition pendsv_handler :: "image_t \<Rightarrow> cpu_t \<times> kernel_t \<Rightarrow> (cpu_t \<times> kernel_t) outcome" where
  "pendsv_handler im s = schedule_in_irq im s"

end
