(* ===== verification/F9_Driver.thy ===== *)
theory F9_Driver
  imports F9_Irq
begin

text \<open>
  The drivers of the board: port pins (\<^verbatim>\<open>platform/stm32f4/gpio.c\<close>), serial port (\<^verbatim>\<open>platform/stm32f4/usart.c\<close>),
  clocks (\<^verbatim>\<open>platform/stm32f4/rcc.c\<close>), the free-running timer (\<^verbatim>\<open>platform/stm32f4/hwtimer.c\<close>) and the enabling of
  interrupts (\<^verbatim>\<open>include/platform/stm32f4/nvic.h\<close>), over the log of stores to device registers. A store of
  fewer than 32 bits is logged with the value extended by zeros. What a device answers depends on the
  stores before; a register that the code polls answers the value that it settles at.
\<close>

section \<open>Registers\<close>

definition PERIPH_BASE :: u32 where "PERIPH_BASE = 0x40000000"
definition APB1PERIPH_BASE :: u32 where "APB1PERIPH_BASE = PERIPH_BASE"
definition APB2PERIPH_BASE :: u32 where "APB2PERIPH_BASE = PERIPH_BASE + 0x00010000"
definition AHB1PERIPH_BASE :: u32 where "AHB1PERIPH_BASE = PERIPH_BASE + 0x00020000"
definition TIM2_BASE :: u32 where "TIM2_BASE = APB1PERIPH_BASE + 0x0000"
definition USART2_BASE :: u32 where "USART2_BASE = APB1PERIPH_BASE + 0x4400"
definition UART4_BASE :: u32 where "UART4_BASE = APB1PERIPH_BASE + 0x4C00"
definition PWR_BASE :: u32 where "PWR_BASE = APB1PERIPH_BASE + 0x7000"
definition USART1_BASE :: u32 where "USART1_BASE = APB2PERIPH_BASE + 0x1000"
definition GPIO_BASE :: "u8 \<Rightarrow> u32" where "GPIO_BASE port = AHB1PERIPH_BASE + 0x400 * ucast port"
definition RCC_BASE :: u32 where "RCC_BASE = AHB1PERIPH_BASE + 0x3800"
definition FLASH_R_BASE :: u32 where "FLASH_R_BASE = AHB1PERIPH_BASE + 0x3C00"

definition GPIO_MODER :: "u8 \<Rightarrow> u32" where "GPIO_MODER port = GPIO_BASE port + 0x00"
definition GPIO_OTYPER :: "u8 \<Rightarrow> u32" where "GPIO_OTYPER port = GPIO_BASE port + 0x04"
definition GPIO_OSPEEDR :: "u8 \<Rightarrow> u32" where "GPIO_OSPEEDR port = GPIO_BASE port + 0x08"
definition GPIO_PUPDR :: "u8 \<Rightarrow> u32" where "GPIO_PUPDR port = GPIO_BASE port + 0x0C"
definition GPIO_IDR :: "u8 \<Rightarrow> u32" where "GPIO_IDR port = GPIO_BASE port + 0x10"
definition GPIO_ODR :: "u8 \<Rightarrow> u32" where "GPIO_ODR port = GPIO_BASE port + 0x14"
definition GPIO_AFRL :: "u8 \<Rightarrow> u32" where "GPIO_AFRL port = GPIO_BASE port + 0x20"
definition GPIO_AFRH :: "u8 \<Rightarrow> u32" where "GPIO_AFRH port = GPIO_BASE port + 0x24"

definition RCC_CR :: u32 where "RCC_CR = RCC_BASE + 0x00"
definition RCC_PLLCFGR :: u32 where "RCC_PLLCFGR = RCC_BASE + 0x04"
definition RCC_CFGR :: u32 where "RCC_CFGR = RCC_BASE + 0x08"
definition RCC_CIR :: u32 where "RCC_CIR = RCC_BASE + 0x0C"
definition RCC_AHB1ENR :: u32 where "RCC_AHB1ENR = RCC_BASE + 0x30"
definition RCC_APB1ENR :: u32 where "RCC_APB1ENR = RCC_BASE + 0x40"

definition GPIO_MODER_IN :: u8 where "GPIO_MODER_IN = 0"
definition GPIO_MODER_OUT :: u8 where "GPIO_MODER_OUT = 1"
definition GPIO_MODER_ALT :: u8 where "GPIO_MODER_ALT = 2"
definition GPIO_OTYPER_PP :: u8 where "GPIO_OTYPER_PP = 0"

text \<open>A read, a change of some bits and a write of the same register.\<close>

definition modify_reg :: "image_t \<Rightarrow> u32 \<Rightarrow> (u32 \<Rightarrow> u32) \<Rightarrow> kernel_t \<Rightarrow> kernel_t" where
  "modify_reg im a f k = store_reg a (f (load_reg im a k)) k"

section \<open>Pins\<close>

record gpio_cfg =
  gpio_port :: u8
  gpio_pin :: u8
  gpio_pupd :: u8
  gpio_speed :: u8
  gpio_type :: u8
  gpio_func :: u8
  gpio_o_type :: u8

text \<open>The field of \<open>w\<close> bits at bit \<open>sh\<close> of a register set to \<open>v\<close>.\<close>

definition set_field :: "u32 \<Rightarrow> nat \<Rightarrow> u8 \<Rightarrow> u32 \<Rightarrow> u32" where
  "set_field m sh v reg = (reg AND NOT (push_bit sh m)) OR push_bit sh (ucast v)"

definition gpio_moder :: "image_t \<Rightarrow> u8 \<Rightarrow> u8 \<Rightarrow> u8 \<Rightarrow> kernel_t \<Rightarrow> kernel_t" where
  "gpio_moder im port pin type k = modify_reg im (GPIO_MODER port) (set_field 0x3 (2 * unat pin) type) k"

definition gpio_otyper :: "image_t \<Rightarrow> u8 \<Rightarrow> u8 \<Rightarrow> u8 \<Rightarrow> kernel_t \<Rightarrow> kernel_t" where
  "gpio_otyper im port pin type k = modify_reg im (GPIO_OTYPER port) (set_field 0x1 (unat pin) type) k"

definition gpio_ospeedr :: "image_t \<Rightarrow> u8 \<Rightarrow> u8 \<Rightarrow> u8 \<Rightarrow> kernel_t \<Rightarrow> kernel_t" where
  "gpio_ospeedr im port pin speed k = modify_reg im (GPIO_OSPEEDR port) (set_field 0x3 (2 * unat pin) speed) k"

definition gpio_pupdr :: "image_t \<Rightarrow> u8 \<Rightarrow> u8 \<Rightarrow> u8 \<Rightarrow> kernel_t \<Rightarrow> kernel_t" where
  "gpio_pupdr im port pin mode k = modify_reg im (GPIO_PUPDR port) (set_field 0x3 (2 * unat pin) mode) k"

definition gpio_afr :: "image_t \<Rightarrow> u8 \<Rightarrow> u8 \<Rightarrow> u8 \<Rightarrow> kernel_t \<Rightarrow> kernel_t" where
  "gpio_afr im port pin func k =
     (if pin < 8 then modify_reg im (GPIO_AFRL port) (set_field 0xF (4 * unat pin) func) k
      else modify_reg im (GPIO_AFRH port) (set_field 0xF (4 * (unat pin - 8)) func) k)"

definition gpio_config :: "image_t \<Rightarrow> gpio_cfg \<Rightarrow> kernel_t \<Rightarrow> kernel_t" where
  "gpio_config im cfg k =
     (let port = gpio_port cfg; pin = gpio_pin cfg;
          k = modify_reg im RCC_AHB1ENR (\<lambda>r. r OR push_bit (unat port) 1) k;
          k = gpio_pupdr im port pin (gpio_pupd cfg) k;
          k = gpio_moder im port pin (gpio_type cfg) k in
      if gpio_type cfg = GPIO_MODER_IN then k
      else let k = (if gpio_type cfg = GPIO_MODER_ALT then gpio_afr im port pin (gpio_func cfg) k else k);
               k = gpio_otyper im port pin (gpio_o_type cfg) k in
           gpio_ospeedr im port pin (gpio_speed cfg) k)"

definition gpio_config_output :: "image_t \<Rightarrow> u8 \<Rightarrow> u8 \<Rightarrow> u8 \<Rightarrow> u8 \<Rightarrow> kernel_t \<Rightarrow> kernel_t" where
  "gpio_config_output im port pin pupd speed k =
     gpio_config im \<lparr>gpio_port = port, gpio_pin = pin, gpio_pupd = pupd, gpio_speed = speed,
       gpio_type = GPIO_MODER_OUT, gpio_func = 0, gpio_o_type = GPIO_OTYPER_PP\<rparr>
       (modify_reg im RCC_AHB1ENR (\<lambda>r. r OR push_bit (unat port) 1) k)"

definition gpio_config_input :: "image_t \<Rightarrow> u8 \<Rightarrow> u8 \<Rightarrow> u8 \<Rightarrow> kernel_t \<Rightarrow> kernel_t" where
  "gpio_config_input im port pin pupd k =
     gpio_config im \<lparr>gpio_port = port, gpio_pin = pin, gpio_pupd = pupd, gpio_speed = 0,
       gpio_type = GPIO_MODER_IN, gpio_func = 0, gpio_o_type = 0\<rparr>
       (modify_reg im RCC_AHB1ENR (\<lambda>r. r OR push_bit (unat port) 1) k)"

definition gpio_out_high :: "image_t \<Rightarrow> u8 \<Rightarrow> u8 \<Rightarrow> kernel_t \<Rightarrow> kernel_t" where
  "gpio_out_high im port pin k = modify_reg im (GPIO_ODR port) (\<lambda>r. r OR push_bit (unat pin) 1) k"

definition gpio_out_low :: "image_t \<Rightarrow> u8 \<Rightarrow> u8 \<Rightarrow> kernel_t \<Rightarrow> kernel_t" where
  "gpio_out_low im port pin k = modify_reg im (GPIO_ODR port) (\<lambda>r. r AND NOT (push_bit (unat pin) 1)) k"

definition gpio_input_bit :: "image_t \<Rightarrow> u8 \<Rightarrow> u8 \<Rightarrow> kernel_t \<Rightarrow> u8" where
  "gpio_input_bit im port pin k =
     (if load_reg im (GPIO_IDR port) k AND push_bit (unat pin) 1 \<noteq> 0 then 1 else 0)"

section \<open>Serial port\<close>

text \<open>\<open>rcc_apbenr\<close> is the address of a register.\<close>

record usart_dev =
  u_num :: u32
  u_baud :: u32
  u_base :: u32
  rcc_apbenr :: u32
  rcc_reset :: u32
  u_tx :: gpio_cfg
  u_rx :: gpio_cfg

definition USART_SR :: u32 where "USART_SR = 0x00"
definition USART_DR :: u32 where "USART_DR = 0x04"
definition USART_BRR :: u32 where "USART_BRR = 0x08"
definition USART_CR1 :: u32 where "USART_CR1 = 0x0C"
definition USART_CR2 :: u32 where "USART_CR2 = 0x10"

definition USART_CR1_UE :: u32 where "USART_CR1_UE = push_bit 13 1"
definition USART_CR1_M9 :: u32 where "USART_CR1_M9 = push_bit 12 1"
definition USART_CR1_TE :: u32 where "USART_CR1_TE = push_bit 3 1"
definition USART_CR1_RE :: u32 where "USART_CR1_RE = push_bit 2 1"

definition USART_TC :: u32 where "USART_TC = push_bit 6 1"
definition USART_IT_TXE :: u32 where "USART_IT_TXE = 0xc00 OR 0x7"
definition USART_IT_RXNE :: u32 where "USART_IT_RXNE = 0xc00 OR 0x5"
definition USART_IT_CTS :: u32 where "USART_IT_CTS = 0x1400 OR 0xa"

definition USART_IT_ENB_REG_OFFSET :: "u32 \<Rightarrow> u32" where
  "USART_IT_ENB_REG_OFFSET it = drop_bit 8 it AND 0xff"

definition USART_IT_POSITION :: "u32 \<Rightarrow> u32" where
  "USART_IT_POSITION it = it AND 0xff"

definition usart_baud :: "u32 \<Rightarrow> u32 \<Rightarrow> u16" where
  "usart_baud base baud =
     (let clock = (if base = USART1_BASE \<or> base = USART2_BASE then 84000000 else 42000000);
          mantissa = (ucast (clock div (16 * baud)) :: u16);
          fraction = (ucast ((clock div baud) mod 16) :: u16) in
      push_bit 4 mantissa OR fraction)"

definition usart_config_interrupt :: "image_t \<Rightarrow> usart_dev \<Rightarrow> u32 \<Rightarrow> bool \<Rightarrow> kernel_t \<Rightarrow> kernel_t" where
  "usart_config_interrupt im usart it state k =
     (if it = USART_IT_CTS \<and> (u_num usart = 4 \<or> u_num usart = 5) then k
      else let it_reg = u_base usart + USART_IT_ENB_REG_OFFSET it;
               it_bit = push_bit (unat (USART_IT_POSITION it)) 1 in
           if state then modify_reg im it_reg (\<lambda>r. r OR it_bit) k
           else modify_reg im it_reg (\<lambda>r. r AND NOT it_bit) k)"

definition usart_interrupt_status :: "image_t \<Rightarrow> usart_dev \<Rightarrow> u32 \<Rightarrow> kernel_t \<Rightarrow> u32" where
  "usart_interrupt_status im usart it k =
     (if it = USART_IT_CTS \<and> (u_num usart = 4 \<or> u_num usart = 5) then 0
      else let it_reg = u_base usart + USART_IT_ENB_REG_OFFSET it;
               it_bit = push_bit (unat (USART_IT_POSITION it)) 1 in
           load_reg im it_reg k AND it_bit)"

definition usart_status :: "image_t \<Rightarrow> usart_dev \<Rightarrow> u32 \<Rightarrow> kernel_t \<Rightarrow> u32" where
  "usart_status im usart st k = load_reg im (u_base usart + USART_SR) k AND st"

text \<open>Reading the data register takes the next byte that the terminal has sent.\<close>

definition usart_getc :: "image_t \<Rightarrow> usart_dev \<Rightarrow> kernel_t \<Rightarrow> u8 \<times> kernel_t" where
  "usart_getc im usart k =
     (case uart_input (dbg k) of
        [] \<Rightarrow> (ucast (load_reg im (u_base usart + USART_DR) k AND 0xff), k)
      | c # cs \<Rightarrow> (c, k\<lparr>dbg := (dbg k)\<lparr>uart_input := cs\<rparr>\<rparr>))"

definition usart_putc :: "usart_dev \<Rightarrow> u8 \<Rightarrow> kernel_t \<Rightarrow> kernel_t" where
  "usart_putc usart c k = store_reg (u_base usart + USART_DR) (ucast c) k"

definition usart_init :: "image_t \<Rightarrow> usart_dev \<Rightarrow> kernel_t \<Rightarrow> kernel_t" where
  "usart_init im usart k =
     (let k = modify_reg im (rcc_apbenr usart) (\<lambda>r. r OR rcc_reset usart) k;
          k = gpio_config im (u_tx usart) k;
          k = gpio_config im (u_rx usart) k;
          k = modify_reg im (u_base usart + USART_CR1) (\<lambda>r. r OR USART_CR1_UE) k;
          k = modify_reg im (u_base usart + USART_CR1) (\<lambda>r. r AND NOT USART_CR1_M9) k;
          k = modify_reg im (u_base usart + USART_CR2) (\<lambda>r. r AND NOT (push_bit 12 3)) k;
          k = store_reg (u_base usart + USART_BRR) (ucast (usart_baud (u_base usart) (u_baud usart))) k in
      modify_reg im (u_base usart + USART_CR1) (\<lambda>r. r OR (USART_CR1_RE OR USART_CR1_TE)) k)"

text \<open>The console of the board (\<^verbatim>\<open>board/discoveryf4/board.c\<close>), on the fourth port.\<close>

definition af_uart4 :: u8 where "af_uart4 = 8"

definition console_pin :: "u8 \<Rightarrow> gpio_cfg" where
  "console_pin pin = \<lparr>gpio_port = 0, gpio_pin = pin, gpio_pupd = 0, gpio_speed = 2,
     gpio_type = GPIO_MODER_ALT, gpio_func = af_uart4, gpio_o_type = GPIO_OTYPER_PP\<rparr>"

definition console_uart :: usart_dev where
  "console_uart = \<lparr>u_num = 4, u_baud = 115200, u_base = UART4_BASE, rcc_apbenr = RCC_APB1ENR,
     rcc_reset = push_bit 19 1, u_tx = console_pin 0, u_rx = console_pin 1\<rparr>"

section \<open>Interrupt lines\<close>

definition NVIC_BASE :: u32 where "NVIC_BASE = 0xE000E100"

definition UART4_IRQn :: u32 where "UART4_IRQn = 52"

definition nvic_reg :: "u32 \<Rightarrow> u32 \<Rightarrow> u32" where
  "nvic_reg off IRQn = NVIC_BASE + off + 4 * drop_bit 5 IRQn"

definition nvic_bit :: "u32 \<Rightarrow> u32" where
  "nvic_bit IRQn = push_bit (unat (IRQn AND 0x1f)) 1"

definition NVIC_EnableIRQ :: "u32 \<Rightarrow> kernel_t \<Rightarrow> kernel_t" where
  "NVIC_EnableIRQ IRQn k = store_reg (nvic_reg 0x000 IRQn) (nvic_bit IRQn) k"

definition NVIC_DisableIRQ :: "u32 \<Rightarrow> kernel_t \<Rightarrow> kernel_t" where
  "NVIC_DisableIRQ IRQn k = store_reg (nvic_reg 0x080 IRQn) (nvic_bit IRQn) k"

definition NVIC_GetPendingIRQ :: "image_t \<Rightarrow> u32 \<Rightarrow> kernel_t \<Rightarrow> u32" where
  "NVIC_GetPendingIRQ im IRQn k = (if load_reg im (nvic_reg 0x100 IRQn) k AND nvic_bit IRQn \<noteq> 0 then 1 else 0)"

definition NVIC_SetPendingIRQ :: "u32 \<Rightarrow> kernel_t \<Rightarrow> kernel_t" where
  "NVIC_SetPendingIRQ IRQn k = store_reg (nvic_reg 0x100 IRQn) (nvic_bit IRQn) k"

definition NVIC_ClearPendingIRQ :: "u32 \<Rightarrow> kernel_t \<Rightarrow> kernel_t" where
  "NVIC_ClearPendingIRQ IRQn k = store_reg (nvic_reg 0x180 IRQn) (nvic_bit IRQn) k"

definition NVIC_GetActive :: "image_t \<Rightarrow> u32 \<Rightarrow> kernel_t \<Rightarrow> u32" where
  "NVIC_GetActive im IRQn k = (if load_reg im (nvic_reg 0x200 IRQn) k AND nvic_bit IRQn \<noteq> 0 then 1 else 0)"

section \<open>Clocks and timer\<close>

definition SCB_CPACR :: u32 where "SCB_CPACR = 0xE000ED88"
definition FPU_CCR :: u32 where "FPU_CCR = 0xE000EF34"
definition SCB_SHCSR :: u32 where "SCB_SHCSR = 0xE000ED24"
definition PWR_CR :: u32 where "PWR_CR = PWR_BASE + 0x00"
definition FLASH_ACR :: u32 where "FLASH_ACR = FLASH_R_BASE + 0x00"

definition RCC_CR_HSEON :: u32 where "RCC_CR_HSEON = push_bit 16 1"
definition RCC_CR_HSERDY :: u32 where "RCC_CR_HSERDY = push_bit 17 1"
definition RCC_CR_PLLON :: u32 where "RCC_CR_PLLON = push_bit 24 1"
definition RCC_CR_PLLRDY :: u32 where "RCC_CR_PLLRDY = push_bit 25 1"
definition RCC_CFGR_SWS_M :: u32 where "RCC_CFGR_SWS_M = push_bit 2 3"
definition RCC_CFGR_SWS_PLL :: u32 where "RCC_CFGR_SWS_PLL = push_bit 2 2"

text \<open>
  The registers are reset, the external oscillator is started, and the phase-locked loop and the flash
  are set up when it runs. The wait for the oscillator is bounded by a counter and stores nothing; the
  two other waits are endless when the hardware never answers.
\<close>

definition clock_reset :: "image_t \<Rightarrow> kernel_t \<Rightarrow> kernel_t" where
  "clock_reset im k =
     (let k = modify_reg im SCB_CPACR (\<lambda>r. r OR push_bit 20 0xf) k;
          k = modify_reg im FPU_CCR (\<lambda>r. r OR push_bit 31 1) k;
          k = modify_reg im RCC_CR (\<lambda>r. r OR 0x00000001) k;
          k = store_reg RCC_CFGR 0x00000000 k;
          k = modify_reg im RCC_CR (\<lambda>r. r AND 0xFEF6FFFF) k;
          k = store_reg RCC_PLLCFGR 0x24003010 k;
          k = modify_reg im RCC_CR (\<lambda>r. r AND 0xFFFBFFFF) k;
          k = store_reg RCC_CIR 0x00000000 k in
      modify_reg im RCC_CR (\<lambda>r. r OR RCC_CR_HSEON) k)"

definition clock_pll :: "image_t \<Rightarrow> kernel_t \<Rightarrow> kernel_t outcome" where
  "clock_pll im k =
     (let k = modify_reg im RCC_APB1ENR (\<lambda>r. r OR push_bit 28 1) k;
          k = modify_reg im PWR_CR (\<lambda>r. r OR push_bit 14 1) k;
          k = modify_reg im RCC_CFGR (\<lambda>r. r OR push_bit 4 0) k;
          k = modify_reg im RCC_CFGR (\<lambda>r. r OR push_bit 13 4) k;
          k = modify_reg im RCC_CFGR (\<lambda>r. r OR push_bit 10 5) k;
          k = store_reg RCC_PLLCFGR (8 OR push_bit 6 336 OR push_bit 16 0 OR push_bit 22 1 OR push_bit 24 7) k;
          k = modify_reg im RCC_CR (\<lambda>r. r OR RCC_CR_PLLON) k in
      if load_reg im RCC_CR k AND RCC_CR_PLLRDY = 0 then Inl Diverges
      else let k = store_reg FLASH_ACR 5 k;
               k = modify_reg im RCC_CFGR (\<lambda>r. r AND NOT 3) k;
               k = modify_reg im RCC_CFGR (\<lambda>r. r OR 2) k in
           if load_reg im RCC_CFGR k AND RCC_CFGR_SWS_M \<noteq> RCC_CFGR_SWS_PLL then Inl Diverges else Inr k)"

definition sys_clock_init :: "image_t \<Rightarrow> kernel_t \<Rightarrow> kernel_t outcome" where
  "sys_clock_init im k =
     (let k = clock_reset im k in
      bindF (if load_reg im RCC_CR k AND RCC_CR_HSERDY \<noteq> 0 then clock_pll im k
             else panic ''Time out for waiting HSE Ready'') (\<lambda>k.
      let k = modify_reg im RCC_AHB1ENR (\<lambda>r. r OR push_bit 20 1) k;
          k = modify_reg im SCB_SHCSR (\<lambda>r. r OR push_bit 17 1) k in
      Inr (modify_reg im SCB_SHCSR (\<lambda>r. r OR push_bit 18 1) k)))"

definition hwtimer_init :: "image_t \<Rightarrow> kernel_t \<Rightarrow> kernel_t" where
  "hwtimer_init im k =
     (let k = modify_reg im RCC_APB1ENR (\<lambda>r. r OR 0x00000001) k;
          k = store_reg (TIM2_BASE + 0x28) 0 k;
          k = store_reg (TIM2_BASE + 0x2C) 0xFFFFFFFF k in
      store_reg (TIM2_BASE + 0x00) 0x00000001 k)"

definition hwtimer_now :: "image_t \<Rightarrow> kernel_t \<Rightarrow> u32" where
  "hwtimer_now im k = load_reg im (TIM2_BASE + 0x24) k"

section \<open>What the drivers leave alone\<close>

text \<open>Device registers and the debug variables are all that differs between the two states.\<close>

definition without_io :: "kernel_t \<Rightarrow> kernel_t" where
  "without_io k = k\<lparr>mem := (mem k)\<lparr>mmio := []\<rparr>, dbg := debug_reset\<rparr>"

definition io_only :: "kernel_t \<Rightarrow> kernel_t \<Rightarrow> bool" where
  "io_only k k' \<longleftrightarrow> without_io k' = without_io k"

named_theorems io

lemma io_only_refl [simp, io]: "io_only k k"
  by (simp add: io_only_def)

lemma io_only_trans: "io_only k k1 \<Longrightarrow> io_only k1 k2 \<Longrightarrow> io_only k k2"
  by (simp add: io_only_def)

lemma io_only_store [io]: "io_only k k' \<Longrightarrow> io_only k (store_reg a v k')"
  by (simp add: io_only_def without_io_def store_reg_def store_def upd_mem_def)

lemma io_only_dbg [io]: "io_only k k' \<Longrightarrow> io_only k (k'\<lparr>dbg := d\<rparr>)"
  by (simp add: io_only_def without_io_def)

lemma io_only_eq:
  assumes "io_only k k'"
  shows "k' = k\<lparr>mem := (mem k)\<lparr>mmio := mmio (mem k')\<rparr>, dbg := dbg k'\<rparr>"
  using assms by (cases k; cases k'; cases "mem k"; cases "mem k'") (simp add: io_only_def without_io_def)

lemma io_only_modify [io]: "io_only k k' \<Longrightarrow> io_only k (modify_reg im a f k')"
  by (simp add: modify_reg_def io_only_store)

lemma io_only_gpio_config [io]: "io_only k k' \<Longrightarrow> io_only k (gpio_config im cfg k')"
  by (auto simp: gpio_config_def gpio_pupdr_def gpio_moder_def gpio_afr_def gpio_otyper_def gpio_ospeedr_def Let_def
      intro!: io)

lemma io_only_usart [io]:
  "io_only k k' \<Longrightarrow> io_only k (usart_config_interrupt im u it st k')"
  "io_only k k' \<Longrightarrow> io_only k (usart_putc u c k')"
  "io_only k k' \<Longrightarrow> io_only k (usart_init im u k')"
  "io_only k k' \<Longrightarrow> io_only k (snd (usart_getc im u k'))"
  by (auto simp: usart_config_interrupt_def usart_putc_def usart_init_def usart_getc_def Let_def
      split: list.splits intro!: io)

lemma io_only_nvic [io]:
  "io_only k k' \<Longrightarrow> io_only k (NVIC_SetPriority im i g s k')"
  "io_only k k' \<Longrightarrow> io_only k (NVIC_EnableIRQ n k')" "io_only k k' \<Longrightarrow> io_only k (NVIC_ClearPendingIRQ n k')"
  by (auto simp: NVIC_SetPriority_def NVIC_EnableIRQ_def NVIC_ClearPendingIRQ_def Let_def intro!: io)

lemma io_only_clock: "sys_clock_init im k = Inr k' \<Longrightarrow> io_only k k'"
  by (auto simp: sys_clock_init_def clock_reset_def clock_pll_def panic_def Let_def split: if_splits intro!: io)

text \<open>A pin is set up without a change to the fields of the other pins.\<close>

lemma set_field_bit:
  assumes "n < 32" "unat v < 2 ^ w" "m = mask w"
  shows "bit (set_field m sh v reg) n =
    (if sh \<le> n \<and> n < sh + w then bit v (n - sh) else bit reg n)"
proof -
  have "bit v j \<Longrightarrow> j < w" for j
    using assms(2) by (metis bit_take_bit_iff take_bit_nat_eq_self unsigned_take_bit_eq word_unat_eq_iff)
  from this [of "n - sh"] show ?thesis
    using assms(1,3) by (auto simp: set_field_def bit_or_iff bit_and_iff bit_not_iff bit_push_bit_iff bit_mask_iff bit_ucast_iff)
qed

end
