(* ===== verification/F9_Console.thy ===== *)
theory F9_Console
  imports F9_Driver
begin

text \<open>
  The debug port: the serial driver with its two queues (\<^verbatim>\<open>platform/debug_uart.c\<close>), the switch between
  debug devices (\<^verbatim>\<open>platform/debug_device.c\<close>) and leveled output (\<^verbatim>\<open>kernel/debug.c\<close>). The level set at start
  is \<^verbatim>\<open>DL_KDB\<close>: messages of every other level except \<^verbatim>\<open>DL_EMERG\<close> print nothing, so the calls that print them
  are left out of the other components.
\<close>

section \<open>The serial port\<close>

definition upd_dbg :: "(debug_t \<Rightarrow> debug_t) \<Rightarrow> kernel_t \<Rightarrow> kernel_t" where
  "upd_dbg f k = k\<lparr>dbg := f (dbg k)\<rparr>"

definition upd_uart :: "(dbg_uart_t \<Rightarrow> dbg_uart_t) \<Rightarrow> kernel_t \<Rightarrow> kernel_t" where
  "upd_uart f k = upd_dbg (\<lambda>d. d\<lparr>dbg_uart := f (dbg_uart d)\<rparr>) k"

abbreviation "tx k \<equiv> uart_tx (dbg_uart (dbg k))"
abbreviation "rx k \<equiv> uart_rx (dbg_uart (dbg k))"

definition dbg_uart_recv :: "image_t \<Rightarrow> kernel_t \<Rightarrow> kernel_t outcome" where
  "dbg_uart_recv im k =
     (let (chr, k) = usart_getc im console_uart k in
      bindF (queue_push (rx k) chr) (\<lambda>(_, q).
      softirq_schedule KDB_SOFTIRQ (upd_uart (\<lambda>u. u\<lparr>uart_rx := q\<rparr>) k)))"

definition dbg_uart_send :: "image_t \<Rightarrow> bool \<Rightarrow> kernel_t \<Rightarrow> kernel_t outcome" where
  "dbg_uart_send im avail k =
     (if avail
      then if \<not> queue_is_empty (tx k)
           then bindF (queue_pop (tx k)) (\<lambda>(_, chr, q).
                let k = upd_uart (\<lambda>u. u\<lparr>uart_tx := q\<rparr>) k;
                    k = usart_putc console_uart (case chr of None \<Rightarrow> 0 | Some c \<Rightarrow> c) k;
                    k = upd_uart (\<lambda>u. u\<lparr>uart_ready := 0\<rparr>) k in
                Inr (usart_config_interrupt im console_uart USART_IT_TXE True k))
           else let k = upd_uart (\<lambda>u. u\<lparr>uart_ready := 1\<rparr>) k in
                Inr (usart_config_interrupt im console_uart USART_IT_TXE False k)
      else Inr k)"

definition uart_irq_handler :: "image_t \<Rightarrow> kernel_t \<Rightarrow> kernel_t outcome" where
  "uart_irq_handler im k =
     (if usart_interrupt_status im console_uart USART_IT_TXE k \<noteq> 0 then dbg_uart_send im True k
      else if usart_interrupt_status im console_uart USART_IT_RXNE k \<noteq> 0 then dbg_uart_recv im k
      else Inr k)"

text \<open>
  A byte is queued while the port is busy. The loop that repeats the push ends at once, because
  \<^verbatim>\<open>queue_push\<close> does not report overflow on a well-formed queue; on any other it would spin.
\<close>

definition dbg_async_putchar :: "image_t \<Rightarrow> u8 \<Rightarrow> kernel_t \<Rightarrow> kernel_t outcome" where
  "dbg_async_putchar im chr k =
     (if uart_ready (dbg_uart (dbg k)) = 0
      then bindF (queue_push (tx k) chr) (\<lambda>(r, q).
           if r \<noteq> QUEUE_OK then Inl Diverges else Inr (upd_uart (\<lambda>u. u\<lparr>uart_tx := q\<rparr>) k))
      else let k = usart_putc console_uart chr k;
               k = upd_uart (\<lambda>u. u\<lparr>uart_ready := 0\<rparr>) k in
           Inr (usart_config_interrupt im console_uart USART_IT_TXE True k))"

definition sync_send :: "image_t \<Rightarrow> u8 \<Rightarrow> kernel_t \<Rightarrow> kernel_t outcome" where
  "sync_send im chr k =
     (let k = usart_putc console_uart chr k in
      if usart_status im console_uart USART_TC k = 0 then Inl Diverges else Inr k)"

text \<open>The recursion of the code is one level deep: a carriage return goes before a newline.\<close>

definition dbg_sync_putchar :: "image_t \<Rightarrow> u8 \<Rightarrow> kernel_t \<Rightarrow> kernel_t outcome" where
  "dbg_sync_putchar im chr k =
     bindF (if chr = 10 then sync_send im 13 k else Inr k) (\<lambda>k. sync_send im chr k)"

definition dbg_uart_getchar :: "kernel_t \<Rightarrow> (u8 \<times> kernel_t) outcome" where
  "dbg_uart_getchar k =
     bindF (queue_pop (rx k)) (\<lambda>(r, chr, q).
     let k = upd_uart (\<lambda>u. u\<lparr>uart_rx := q\<rparr>) k in
     Inr (if r = QUEUE_EMPTY then 0 else case chr of None \<Rightarrow> 0 | Some c \<Rightarrow> c, k))"

definition dbg_uart_putchar :: "image_t \<Rightarrow> u8 \<Rightarrow> kernel_t \<Rightarrow> kernel_t outcome" where
  "dbg_uart_putchar im chr k =
     (if dbg_state (dbg k) \<noteq> DBG_PANIC then dbg_async_putchar im chr k else dbg_sync_putchar im chr k)"

text \<open>The transmit queue holds fewer than \<^verbatim>\<open>SEND_BUFSIZE\<close> bytes, which bounds the loop that empties it.\<close>

fun flush_tx :: "nat \<Rightarrow> image_t \<Rightarrow> kernel_t \<Rightarrow> kernel_t outcome" where
  "flush_tx 0 im k = Inl Diverges"
| "flush_tx (Suc n) im k =
     bindF (queue_pop (tx k)) (\<lambda>(r, chr, q).
     let k = upd_uart (\<lambda>u. u\<lparr>uart_tx := q\<rparr>) k in
     if r \<noteq> QUEUE_EMPTY
     then bindF (dbg_sync_putchar im (case chr of None \<Rightarrow> 0 | Some c \<Rightarrow> c) k) (flush_tx n im)
     else Inr k)"

definition dbg_uart_start_panic :: "image_t \<Rightarrow> kernel_t \<Rightarrow> kernel_t outcome" where
  "dbg_uart_start_panic im k =
     bindF (flush_tx SEND_BUFSIZE im k) (\<lambda>k. Inr (upd_dbg (\<lambda>d. d\<lparr>dbg_state := DBG_PANIC\<rparr>) k))"

section \<open>Debug devices\<close>

definition EINVAL :: int where "EINVAL = 22"
definition ENXIO :: int where "ENXIO = 6"

definition run_getchar :: "getchar_t \<Rightarrow> kernel_t \<Rightarrow> (u8 \<times> kernel_t) outcome" where
  "run_getchar f k = (case f of Default_getchar \<Rightarrow> Inr (- 1, k) | Uart_getchar \<Rightarrow> dbg_uart_getchar k)"

definition run_putchar :: "putchar_t \<Rightarrow> image_t \<Rightarrow> u8 \<Rightarrow> kernel_t \<Rightarrow> kernel_t outcome" where
  "run_putchar f im chr k = (case f of Default_putchar \<Rightarrow> Inr k | Uart_putchar \<Rightarrow> dbg_uart_putchar im chr k)"

definition run_start_panic :: "start_panic_t \<Rightarrow> image_t \<Rightarrow> kernel_t \<Rightarrow> kernel_t outcome" where
  "run_start_panic f im k = (case f of Default_start_panic \<Rightarrow> Inr k | Uart_start_panic \<Rightarrow> dbg_uart_start_panic im k)"

definition the_function :: "'f option \<Rightarrow> 'f outcome" where
  "the_function f = (case f of None \<Rightarrow> Inl NullDeref | Some g \<Rightarrow> Inr g)"

definition dbg_getchar :: "kernel_t \<Rightarrow> (u8 \<times> kernel_t) outcome" where
  "dbg_getchar k =
     bindF (array_get (dbg_dev (dbg k)) (cur_dev (dbg k))) (\<lambda>dev.
     bindF (the_function (dev_getchar dev)) (\<lambda>f. run_getchar f k))"

definition dbg_putchar :: "image_t \<Rightarrow> u8 \<Rightarrow> kernel_t \<Rightarrow> kernel_t outcome" where
  "dbg_putchar im chr k =
     bindF (array_get (dbg_dev (dbg k)) (cur_dev (dbg k))) (\<lambda>dev.
     bindF (the_function (dev_putchar dev)) (\<lambda>f. run_putchar f im chr k))"

definition dbg_start_panic :: "image_t \<Rightarrow> kernel_t \<Rightarrow> kernel_t outcome" where
  "dbg_start_panic im k =
     bindF (array_get (dbg_dev (dbg k)) (cur_dev (dbg k))) (\<lambda>dev.
     case dev_start_panic dev of None \<Rightarrow> Inr k | Some f \<Rightarrow> run_start_panic f im k)"

definition dbg_register_device :: "dbg_dev_t option \<Rightarrow> debug_t \<Rightarrow> int \<times> debug_t" where
  "dbg_register_device device d =
     (case device of
        None \<Rightarrow> (- EINVAL, d)
      | Some dev \<Rightarrow>
          if dev_id dev \<ge> DBG_DEV_MAX then (- EINVAL, d)
          else (0, d\<lparr>dbg_dev := (dbg_dev d)[dev_id dev := dev]\<rparr>))"

definition dbg_change_device :: "nat \<Rightarrow> debug_t \<Rightarrow> int \<times> debug_t" where
  "dbg_change_device i d =
     (if i \<ge> DBG_DEV_MAX then (- EINVAL, d)
      else if dev_id (dbg_dev d ! i) = DBG_DEV_MAX then (- ENXIO, d)
      else (0, d\<lparr>cur_dev := i\<rparr>))"

definition dbg_uart_init :: "image_t \<Rightarrow> kernel_t \<Rightarrow> kernel_t" where
  "dbg_uart_init im k =
     (let k = usart_init im console_uart k;
          k = upd_uart (\<lambda>u. u\<lparr>uart_ready := 1,
                uart_tx := snd (queue_init (uart_tx u) (replicate SEND_BUFSIZE 0) (of_nat SEND_BUFSIZE)),
                uart_rx := snd (queue_init (uart_rx u) (replicate RECV_BUFSIZE 0) (of_nat RECV_BUFSIZE))\<rparr>) k;
          k = upd_dbg (\<lambda>d. d\<lparr>dbg_state := DBG_ASYNC\<rparr>) k;
          k = usart_config_interrupt im console_uart USART_IT_RXNE True k;
          k = NVIC_SetPriority im (uint UART4_IRQn) 0xf 0 k;
          k = NVIC_ClearPendingIRQ UART4_IRQn k;
          k = NVIC_EnableIRQ UART4_IRQn k in
      upd_dbg (\<lambda>d. snd (dbg_register_device (Some \<lparr>dev_id = DBG_DEV_UART, dev_getchar = Some Uart_getchar,
        dev_putchar = Some Uart_putchar, dev_start_panic = Some Uart_start_panic\<rparr>) d)) k)"

text \<open>The loop over the devices leaves out the last one.\<close>

definition default_device :: dbg_dev_t where
  "default_device = \<lparr>dev_id = DBG_DEV_MAX, dev_getchar = Some Default_getchar,
     dev_putchar = Some Default_putchar, dev_start_panic = Some Default_start_panic\<rparr>"

definition dbg_device_init :: "image_t \<Rightarrow> kernel_t \<Rightarrow> kernel_t" where
  "dbg_device_init im k =
     (let n = DBG_DEV_MAX - 1;
          k = upd_dbg (\<lambda>d. d\<lparr>dbg_dev := replicate n default_device @ drop n (dbg_dev d)\<rparr>) k in
      dbg_uart_init im k)"

definition DL_EMERG :: u32 where "DL_EMERG = 0x0000"
definition DL_KDB :: u32 where "DL_KDB = 0x4000"

definition dbg_device_init_hook :: "image_t \<Rightarrow> kernel_t \<Rightarrow> kernel_t" where
  "dbg_device_init_hook im k = upd_dbg (\<lambda>d. d\<lparr>dbg_layer := DL_KDB\<rparr>) (dbg_device_init im k)"

section \<open>Leveled output\<close>

text \<open>The characters of a string, sent one by one; \<^verbatim>\<open>__l4_putchar\<close> is \<^verbatim>\<open>dbg_putchar\<close>.\<close>

fun put_string :: "image_t \<Rightarrow> string \<Rightarrow> kernel_t \<Rightarrow> kernel_t outcome" where
  "put_string im [] k = Inr k"
| "put_string im (c # s) k = bindF (dbg_putchar im (of_char c) k) (put_string im s)"

definition dbg_puts :: "image_t \<Rightarrow> string \<Rightarrow> kernel_t \<Rightarrow> kernel_t outcome" where
  "dbg_puts im s k = put_string im (l4_puts s) k"

definition dbg_vprintf :: "image_t \<Rightarrow> u32 \<Rightarrow> string \<Rightarrow> va_list \<Rightarrow> kernel_t \<Rightarrow> kernel_t outcome" where
  "dbg_vprintf im layer fmt va k =
     (if layer \<noteq> DL_EMERG \<and> dbg_layer (dbg k) AND layer = 0 then Inr k
      else bindF (l4_vprintf fmt va) (\<lambda>s. put_string im s k))"

definition dbg_printf :: "image_t \<Rightarrow> u32 \<Rightarrow> string \<Rightarrow> va_list \<Rightarrow> kernel_t \<Rightarrow> kernel_t outcome" where
  "dbg_printf im layer fmt va k = dbg_vprintf im layer fmt va k"

section \<open>Output touches the port and the debug variables only\<close>

lemma io_only_upd [io]:
  "io_only k k' \<Longrightarrow> io_only k (upd_dbg f k')" "io_only k k' \<Longrightarrow> io_only k (upd_uart g k')"
  by (simp_all add: upd_dbg_def upd_uart_def io_only_dbg)

lemma io_only_sync: "sync_send im c k = Inr k' \<Longrightarrow> io_only k k'" "dbg_sync_putchar im c k = Inr k' \<Longrightarrow> io_only k k'"
proof -
  show send: "sync_send im c k = Inr k' \<Longrightarrow> io_only k k'" for c k k'
    by (auto simp: sync_send_def Let_def split: if_splits intro!: io)
  show "dbg_sync_putchar im c k = Inr k' \<Longrightarrow> io_only k k'"
    by (auto simp: dbg_sync_putchar_def split: if_splits dest!: send intro: io_only_trans)
qed

lemma without_io_upd [simp]: "without_io (upd_dbg f k) = without_io k" "without_io (upd_uart g k) = without_io k"
  by (simp_all add: without_io_def upd_dbg_def upd_uart_def)

lemma io_only_flush: "flush_tx n im k = Inr k' \<Longrightarrow> io_only k k'"
proof (induction n arbitrary: k)
  case (Suc n)
  then show ?case by (fastforce simp: io_only_def Let_def split: if_splits dest!: io_only_sync(2) [unfolded io_only_def])
qed simp

lemma io_only_putchar: "dbg_putchar im c k = Inr k' \<Longrightarrow> io_only k k'"
  by (auto simp: dbg_putchar_def the_function_def run_putchar_def dbg_uart_putchar_def dbg_async_putchar_def Let_def
      split: option.splits putchar_t.splits if_splits intro!: io dest: io_only_sync(2))

lemma io_only_getchar: "dbg_getchar k = Inr (c, k') \<Longrightarrow> io_only k k'"
  by (auto simp: dbg_getchar_def the_function_def run_getchar_def dbg_uart_getchar_def Let_def
      split: option.splits getchar_t.splits if_splits intro!: io)

lemma io_only_start_panic: "dbg_start_panic im k = Inr k' \<Longrightarrow> io_only k k'"
  by (auto simp: dbg_start_panic_def run_start_panic_def dbg_uart_start_panic_def
      split: option.splits start_panic_t.splits intro!: io dest: io_only_flush)

lemma io_only_put_string: "put_string im s k = Inr k' \<Longrightarrow> io_only k k'"
  by (induction s arbitrary: k) (auto dest!: io_only_putchar intro: io_only_trans)

lemma io_only_print:
  "dbg_puts im s k = Inr k' \<Longrightarrow> io_only k k'" "dbg_printf im layer fmt va k = Inr k' \<Longrightarrow> io_only k k'"
  by (auto simp: dbg_puts_def dbg_printf_def dbg_vprintf_def split: if_splits dest: io_only_put_string)

lemma io_only_send: "dbg_uart_send im avail k = Inr k' \<Longrightarrow> io_only k k'"
  by (auto simp: dbg_uart_send_def Let_def split: if_splits intro!: io)

lemma io_only_init [io]: "io_only k k' \<Longrightarrow> io_only k (dbg_device_init_hook im k')"
  by (auto simp: dbg_device_init_hook_def dbg_device_init_def dbg_uart_init_def Let_def intro!: io)

end
