(* ===== verification/F9_Ipc.thy ===== *)
theory F9_Ipc
  imports F9_Console
begin

text \<open>
  Message passing (\<^verbatim>\<open>kernel/ipc.c\<close>): the transfer of a message between two threads, the system call
  with its branches, the wake-up after a sleep, and the periodic delivery between blocked threads.
  A thread that takes part in a mapping has an address space; the model faults on a thread without
  one. Messages to the log thread are printed (\<^verbatim>\<open>kernel/user-log.c\<close>); the messages of the debug layer
  \<^verbatim>\<open>DL_IPC\<close> are not, since the layer is switched off.
\<close>

section \<open>Message registers\<close>

definition IPC_MR_COUNT :: nat where "IPC_MR_COUNT = 16"
definition IPC_TI_MAP_GRANT :: u32 where "IPC_TI_MAP_GRANT = 0x8"
definition IPC_TI_GRANT :: u32 where "IPC_TI_GRANT = 0x2"

definition tag_n_untyped :: "u32 \<Rightarrow> nat" where "tag_n_untyped tag = unat (tag AND 0x3F)"
definition tag_n_typed :: "u32 \<Rightarrow> nat" where "tag_n_typed tag = unat (drop_bit 6 tag AND 0x3F)"
definition item_header :: "u32 \<Rightarrow> u32" where "item_header item = item AND 0xF"

definition ipc_read_mr :: "kernel_t \<Rightarrow> nat \<Rightarrow> nat \<Rightarrow> u32 outcome" where
  "ipc_read_mr k from i =
     (if i \<ge> 8 then utcb_read (t_utcb (tcbs k from)) (UTCB_mr + 4 * of_nat (i - 8)) k
      else array_get (ctx_regs (ctx (tcbs k from))) i)"

definition ipc_write_mr :: "nat \<Rightarrow> nat \<Rightarrow> u32 \<Rightarrow> kernel_t \<Rightarrow> kernel_t outcome" where
  "ipc_write_mr to i data k =
     (if i \<ge> 8 then utcb_write (t_utcb (tcbs k to)) (UTCB_mr + 4 * of_nat (i - 8)) data k
      else bindF (array_set (ctx_regs (ctx (tcbs k to))) i data) (\<lambda>rs.
           Inr (upd_tcb to (\<lambda>t. t\<lparr>ctx := (ctx t)\<lparr>ctx_regs := rs\<rparr>\<rparr>) k)))"

section \<open>Transfer of a message\<close>

text \<open>Copying \<open>n\<close> words from register \<open>i\<close> on.\<close>

fun copy_untyped :: "nat \<Rightarrow> nat \<Rightarrow> nat \<Rightarrow> nat \<Rightarrow> kernel_t \<Rightarrow> kernel_t outcome" where
  "copy_untyped 0 i from to k = Inr k"
| "copy_untyped (Suc n) i from to k =
     bindF (ipc_read_mr k from i) (\<lambda>w.
     bindF (ipc_write_mr to i w k) (copy_untyped n (Suc i) from to))"

definition map_item :: "image_t \<Rightarrow> nat \<Rightarrow> nat \<Rightarrow> u32 \<Rightarrow> u32 \<Rightarrow> kernel_t \<Rightarrow> kernel_t outcome" where
  "map_item im from to item data k =
     bindF (deref (t_as (tcbs k from))) (\<lambda>src.
     bindF (deref (t_as (tcbs k to))) (\<lambda>dst.
     bindF (map_area (im_memmap im) src dst (item AND 0xFFFFFFC0) (data AND 0xFFFFFFC0)
              (if item_header item AND IPC_TI_GRANT \<noteq> 0 then GRANT else MAP) (thread_ispriviliged k from) (mem k))
       (\<lambda>(_, m). Inr (upd_mem m k))))"

text \<open>
  The typed words: \<open>item\<close> is the tag of the item in progress, \<open>None\<close> when the next word is a tag. An
  item that is not a map or grant item stays in progress to the end of the message.
\<close>

fun copy_typed :: "nat \<Rightarrow> image_t \<Rightarrow> nat \<Rightarrow> u32 option \<Rightarrow> nat \<Rightarrow> nat \<Rightarrow> kernel_t \<Rightarrow> kernel_t outcome" where
  "copy_typed 0 im i item from to k = Inr k"
| "copy_typed (Suc n) im i item from to k =
     bindF (ipc_read_mr k from i) (\<lambda>w.
     bindF (ipc_write_mr to i w k) (\<lambda>k.
     case item of
       None \<Rightarrow> copy_typed n im (Suc i) (Some w) from to k
     | Some it \<Rightarrow>
         if item_header it AND IPC_TI_MAP_GRANT \<noteq> 0
         then bindF (map_item im from to it w k) (copy_typed n im (Suc i) None from to)
         else copy_typed n im (Suc i) (Some it) from to k))"

definition set_state :: "nat \<Rightarrow> thread_state_t \<Rightarrow> kernel_t \<Rightarrow> kernel_t" where
  "set_state t st k = upd_tcb t (t_state_update (\<lambda>_. st)) k"

definition set_caller_state :: "thread_state_t \<Rightarrow> kernel_t \<Rightarrow> kernel_t outcome" where
  "set_caller_state st k = bindF (deref (caller k)) (\<lambda>c. Inr (set_state c st k))"

text \<open>The end of a transfer: who continues, who waits, and who is dispatched.\<close>

definition finish_ipc :: "nat \<Rightarrow> nat \<Rightarrow> kernel_t \<Rightarrow> kernel_t outcome" where
  "finish_ipc from to k =
     bindF (utcb_write (t_utcb (tcbs k to)) UTCB_sender (t_globalid (tcbs k from)) k) (\<lambda>k.
     let k = upd_tcb to (\<lambda>t. t\<lparr>t_state := T_RUNNABLE, ipc_from := L4_NILTHREAD\<rparr>) k;
         k = write_ram (stack_word (ctx_sp (ctx (tcbs k to))) REG_R0) (t_globalid (tcbs k from)) k;
         from_recv_tid = ram k (stack_word (ctx_sp (ctx (tcbs k from))) REG_R1);
         k = (if from_recv_tid = L4_NILTHREAD then set_state from T_RUNNABLE k
              else upd_tcb from (\<lambda>t. t\<lparr>t_state := T_RECV_BLOCKED, ipc_from := from_recv_tid\<rparr>) k);
         k = sched_slot_dispatch SSI_NORMAL_THREAD (Some from) k in
     Inr (sched_slot_dispatch SSI_IPC_THREAD (Some to) k))"

definition do_ipc :: "image_t \<Rightarrow> nat \<Rightarrow> nat \<Rightarrow> kernel_t \<Rightarrow> kernel_t outcome" where
  "do_ipc im from to k =
     bindF (ipc_read_mr k from 0) (\<lambda>tag.
     let untyped_last = tag_n_untyped tag + 1; typed_last = untyped_last + tag_n_typed tag in
     if typed_last > IPC_MR_COUNT
     then bindF (set_user_error (Some from)
                   (user_error_code UE_IPC_MSG_OVERFLOW OR user_error_code UE_IPC_PHASE_SEND) k) (\<lambda>k.
          set_user_error (Some to)
            (user_error_code UE_IPC_MSG_OVERFLOW OR user_error_code UE_IPC_PHASE_RECV) k)
     else
       bindF (ipc_write_mr to 0 tag k) (\<lambda>k.
       bindF (copy_untyped (tag_n_untyped tag) 1 from to k) (\<lambda>k.
       bindF (copy_typed (tag_n_typed tag) im untyped_last None from to k) (\<lambda>k.
       if ctx_sp (ctx (tcbs k to)) = 0 \<or> ctx_sp (ctx (tcbs k from)) = 0 then set_caller_state T_RUNNABLE k
       else finish_ipc from to k))))"

section \<open>The log of user threads\<close>

text \<open>
  A string in flash or memory. The length of a string is not bounded in the code; a string without an end
  within \<open>LOG_FUEL\<close> bytes counts as endless.
\<close>

definition load8 :: "image_t \<Rightarrow> memptr \<Rightarrow> kernel_t \<Rightarrow> u8" where
  "load8 im a k = (if a < 0x20000000 then im_text im a
     else ucast (drop_bit (8 * unat (a AND 3)) (ram k (a AND NOT 3))))"

definition LOG_FUEL :: nat where "LOG_FUEL = 4096"

fun load_string :: "nat \<Rightarrow> image_t \<Rightarrow> memptr \<Rightarrow> kernel_t \<Rightarrow> string outcome" where
  "load_string 0 im a k = Inl Diverges"
| "load_string (Suc n) im a k =
     (if load8 im a k = 0 then Inr []
      else bindF (load_string n im (a + 1) k) (\<lambda>s. Inr (char_of (unat (load8 im a k)) # s)))"

text \<open>
  The arguments that \<^verbatim>\<open>__l4_vprintf\<close> takes from a \<^verbatim>\<open>va_list\<close>, a pointer to words: the format says how many
  there are and of which type. A double word is aligned to eight bytes.
\<close>

definition takes_number :: "char \<Rightarrow> bool" where "takes_number c \<longleftrightarrow> c \<in> set ''dDxX''"

definition takes_word :: "char \<Rightarrow> nat \<Rightarrow> bool" where "takes_word c sz \<longleftrightarrow> c \<in> set ''cpt'' \<or> takes_number c \<and> sz = 32"

definition log_size :: "char \<Rightarrow> nat \<Rightarrow> nat" where "log_size c sz = (if c = CHR ''l'' \<or> c = CHR ''L'' then 64 else sz)"

fun log_args :: "image_t \<Rightarrow> kernel_t \<Rightarrow> string \<Rightarrow> bool \<Rightarrow> nat \<Rightarrow> memptr \<Rightarrow> va_list outcome" where
  "log_args im k [] mode sz va = Inr []"
| "log_args im k (c # fmt) mode sz va =
     (if c = CHR ''%'' then log_args im k fmt True 32 va
      else if \<not> mode then log_args im k fmt mode sz va
      else if c = CHR ''s''
      then bindF (load_string LOG_FUEL im (ram k va) k) (\<lambda>s.
           bindF (log_args im k fmt False sz (va + 4)) (\<lambda>as. Inr (Str s # as)))
      else if takes_word c sz
      then bindF (log_args im k fmt False sz (va + 4)) (\<lambda>as. Inr (Word (ram k va) # as))
      else if takes_number c
      then let va = (va + 7) AND NOT 7 in
           bindF (log_args im k fmt False sz (va + 8)) (\<lambda>as.
           Inr (Dword (ucast (ram k va) OR push_bit 32 (ucast (ram k (va + 4)))) # as))
      else log_args im k fmt True (log_size c sz) va)"

definition user_log :: "image_t \<Rightarrow> nat \<Rightarrow> kernel_t \<Rightarrow> kernel_t outcome" where
  "user_log im from k =
     bindF (array_get (ctx_regs (ctx (tcbs k from))) 1) (\<lambda>format.
     bindF (array_get (ctx_regs (ctx (tcbs k from))) 2) (\<lambda>va.
     if dbg_layer (dbg k) AND DL_KDB = 0 then Inr k
     else bindF (load_string LOG_FUEL im format k) (\<lambda>fmt.
          bindF (log_args im k fmt False 16 (ram k va)) (\<lambda>as. dbg_vprintf im DL_KDB fmt as k))))"

lemma io_only_user_log: "user_log im from k = Inr k' \<Longrightarrow> io_only k k'"
  by (auto simp: user_log_def split: if_splits intro: io_only_print(2) [unfolded dbg_printf_def])

section \<open>The system call\<close>

text \<open>
  The sleeping time in ticks. The period is the low half-word: a mantissa of 10 bits and an exponent
  of 5 bits, shifted as a signed integer; one tick is taken as 390 microseconds.
\<close>

definition time_m :: "u32 \<Rightarrow> u32" where "time_m raw = raw AND 0x3FF"
definition time_e :: "u32 \<Rightarrow> nat" where "time_e raw = unat (drop_bit 10 raw AND 0x1F)"

definition TICK_MICROS :: int where
  "TICK_MICROS = 1000000 div (uint CORE_CLOCK div uint CONFIG_KTIMER_HEARTBEAT)"

definition sleep_ticks :: "u32 \<Rightarrow> u32" where
  "sleep_ticks timeout =
     (let us = sint (push_bit (time_e timeout) (time_m timeout)) in
      word_of_int (if us < 0 then - ((- us) div TICK_MICROS) else us div TICK_MICROS))"

definition ipc_sleep :: "nat \<Rightarrow> u32 \<Rightarrow> kernel_t \<Rightarrow> kernel_t outcome" where
  "ipc_sleep c timeout k =
     bindF (ktimer_event_create (sleep_ticks timeout) (Some Ipc_timeout) (Some c) (set_state c T_INACTIVE k))
       (\<lambda>(_, k). Inr k)"

text \<open>Starting an inactive thread: the message holds the program counter, the stack pointer and the stack size.\<close>

definition thread_start :: "image_t \<Rightarrow> nat \<Rightarrow> nat \<Rightarrow> kernel_t \<Rightarrow> kernel_t outcome" where
  "thread_start im c to k =
     bindF (ipc_read_mr k c 2) (\<lambda>sp.
     bindF (ipc_read_mr k c 3) (\<lambda>size.
     bindF (ipc_read_mr k c 1) (\<lambda>pc.
     let k = upd_tcb to (\<lambda>t. t\<lparr>stack_base := sp - size, stack_size := size\<rparr>) k;
         k = thread_init_ctx im sp pc to k;
         k = set_state c T_RUNNABLE k in
     Inr (set_state to T_RUNNABLE k))))"

definition sys_ipc :: "image_t \<Rightarrow> memptr \<Rightarrow> kernel_t \<Rightarrow> kernel_t outcome" where
  "sys_ipc im param1 k =
     bindF (deref (caller k)) (\<lambda>c.
     let to_tid = ram k (stack_word param1 REG_R0);
         from_tid = ram k (stack_word param1 REG_R1);
         timeout = ram k (stack_word param1 REG_R2) in
     if to_tid = L4_NILTHREAD \<and> timeout \<noteq> 0 then ipc_sleep c timeout k
     else if to_tid \<noteq> L4_NILTHREAD
     then bindF (thread_by_globalid k to_tid) (\<lambda>to_thr.
       if to_tid = TID_TO_GLOBALID THREAD_LOG then bindF (user_log im c k) (\<lambda>k. Inr (set_state c T_RUNNABLE k))
       else if (case to_thr of None \<Rightarrow> False | Some t \<Rightarrow> t_state (tcbs k t) = T_RECV_BLOCKED)
               \<or> to_tid = t_globalid (tcbs k c)
       then bindF (deref to_thr) (\<lambda>to. do_ipc im c to k)
       else
         bindF (case to_thr of
                  None \<Rightarrow> Inr False
                | Some t \<Rightarrow>
                    if t_state (tcbs k t) = T_INACTIVE
                    then bindF (utcb_read (t_utcb (tcbs k t)) UTCB_pager k) (\<lambda>pager.
                         Inr (GLOBALID_TO_TID pager = GLOBALID_TO_TID (t_globalid (tcbs k c))))
                    else Inr False) (\<lambda>pages.
         if pages
         then bindF (deref to_thr) (\<lambda>to.
              bindF (ipc_read_mr k c 0) (\<lambda>mr0.
              if mr0 = 0x00000003 then thread_start im c to k
              else bindF (do_ipc im c to k) (\<lambda>k. Inr (set_state to T_INACTIVE k))))
         else
           let k = set_state c T_SEND_BLOCKED k in
           utcb_write (t_utcb (tcbs k c)) UTCB_intended_receiver to_tid k))
     else if from_tid \<noteq> L4_NILTHREAD
     then Inr (upd_tcb c (\<lambda>t. t\<lparr>t_state := T_RECV_BLOCKED, ipc_from := from_tid\<rparr>) k)
     else Inr (set_state c T_SEND_BLOCKED k))"

section \<open>Timer events\<close>

definition ipc_timeout :: "nat \<Rightarrow> kernel_t \<Rightarrow> (u32 \<times> kernel_t) outcome" where
  "ipc_timeout event k =
     bindF (deref (ev_data (kt_events (ktimer k) event))) (\<lambda>from_thr.
     Inr (0, sched_slot_dispatch SSI_NORMAL_THREAD (Some from_thr) (set_state from_thr T_RUNNABLE k)))"

definition ipc_deliver_step :: "image_t \<Rightarrow> nat \<Rightarrow> kernel_t \<Rightarrow> kernel_t outcome" where
  "ipc_deliver_step im i k =
     bindF (array_get (thread_map k) i) (\<lambda>p.
     bindF (deref p) (\<lambda>thr.
     case t_state (tcbs k thr) of
       T_RECV_BLOCKED \<Rightarrow>
         (if ipc_from (tcbs k thr) \<noteq> L4_NILTHREAD \<and> ipc_from (tcbs k thr) \<noteq> L4_ANYTHREAD
          then bindF (thread_by_globalid k (ipc_from (tcbs k thr))) (\<lambda>q.
               bindF (deref q) (\<lambda>from_thr.
               if t_state (tcbs k from_thr) = T_SEND_BLOCKED then do_ipc im from_thr thr k else Inr k))
          else Inr k)
     | T_SEND_BLOCKED \<Rightarrow>
         bindF (utcb_read (t_utcb (tcbs k thr)) UTCB_intended_receiver k) (\<lambda>receiver.
         if receiver \<noteq> L4_NILTHREAD \<and> receiver \<noteq> L4_ANYTHREAD
         then bindF (thread_by_globalid k receiver) (\<lambda>q.
              bindF (deref q) (\<lambda>to_thr.
              if t_state (tcbs k to_thr) = T_RECV_BLOCKED then do_ipc im thr to_thr k else Inr k))
         else Inr k)
     | _ \<Rightarrow> Inr k))"

text \<open>The loop over the last \<open>n\<close> entries of the thread map.\<close>

fun ipc_deliver_loop :: "nat \<Rightarrow> image_t \<Rightarrow> kernel_t \<Rightarrow> kernel_t outcome" where
  "ipc_deliver_loop 0 im k = Inr k"
| "ipc_deliver_loop (Suc n) im k =
     bindF (ipc_deliver_step im (nat (thread_count k) - Suc n) k) (ipc_deliver_loop n im)"

definition ipc_deliver :: "image_t \<Rightarrow> kernel_t \<Rightarrow> (u32 \<times> kernel_t) outcome" where
  "ipc_deliver im k = bindF (ipc_deliver_loop (nat (thread_count k - 1)) im k) (\<lambda>k. Inr (4096, k))"

primrec run_event_handler :: "ktimer_event_handler_t \<Rightarrow> image_t \<Rightarrow> nat \<Rightarrow> kernel_t \<Rightarrow> (u32 \<times> kernel_t) outcome" where
  "run_event_handler Ipc_timeout im event k = ipc_timeout event k"
| "run_event_handler Ipc_deliver im event k = ipc_deliver im k"

end
