(* ===== verification/F9_Kprobe.thy ===== *)
theory F9_Kprobe
  imports F9_Console
begin

text \<open>
  Probes (\<^verbatim>\<open>kernel/kprobes.c\<close>, \<^verbatim>\<open>platform/kprobes-arch.c\<close>) and the breakpoints they use
  (\<^verbatim>\<open>platform/breakpoint.c\<close>, \<^verbatim>\<open>platform/breakpoint-hard.c\<close>, \<^verbatim>\<open>platform/breakpoint-soft.c\<close>), with the handler of the
  sampling probe (\<^verbatim>\<open>kernel/sampling-kdb.c\<close>). A pointer to a breakpoint is its index in \<open>breakpoints\<close>, a pointer to
  a probe an index of \<open>kprobes\<close>. A halfword below \<open>0x20000000\<close> is code in flash, any other lies in \<open>ram\<close>.
\<close>

section \<open>Registers and code\<close>

definition FPB_CTRL :: u32 where "FPB_CTRL = 0xE0002000"
definition FPB_COMP :: u32 where "FPB_COMP = 0xE0002008"
definition FPB_CTRL_ENABLE :: u32 where "FPB_CTRL_ENABLE = push_bit 0 1"
definition FPB_CTRL_KEY :: u32 where "FPB_CTRL_KEY = push_bit 1 1"
definition FPB_COMP_ENABLE :: u32 where "FPB_COMP_ENABLE = push_bit 0 1"
definition FPB_COMP_REPLACE_LOWER :: u32 where "FPB_COMP_REPLACE_LOWER = push_bit 30 1"
definition FPB_COMP_REPLACE_UPPER :: u32 where "FPB_COMP_REPLACE_UPPER = push_bit 30 2"
definition FPB_COMP_ADDR_MASK :: u32 where "FPB_COMP_ADDR_MASK = 0x1FFFFFFC"

definition SCB_HFSR :: u32 where "SCB_HFSR = 0xE000ED2C"
definition SCB_DFSR :: u32 where "SCB_DFSR = 0xE000ED30"
definition DCB_DEMCR :: u32 where "DCB_DEMCR = 0xE000EDFC"
definition SCB_HFSR_DEBUGEVT :: u32 where "SCB_HFSR_DEBUGEVT = push_bit 31 1"
definition SCB_DFSR_HALTED :: u32 where "SCB_DFSR_HALTED = push_bit 0 1"
definition SCB_DFSR_BKPT :: u32 where "SCB_DFSR_BKPT = push_bit 1 1"
definition SCB_DFSR_DWTTRAP :: u32 where "SCB_DFSR_DWTTRAP = push_bit 2 1"
definition DCB_DEMCR_MON_EN :: u32 where "DCB_DEMCR_MON_EN = push_bit 16 1"
definition DCB_DEMCR_MON_STEP :: u32 where "DCB_DEMCR_MON_STEP = push_bit 18 1"
definition DCB_DEMCR_TRCENA :: u32 where "DCB_DEMCR_TRCENA = push_bit 24 1"

definition half_shift :: "memptr \<Rightarrow> nat" where
  "half_shift a = (if a AND 2 = 0 then 0 else 16)"

definition load16 :: "image_t \<Rightarrow> memptr \<Rightarrow> kernel_t \<Rightarrow> u16" where
  "load16 im a k =
     (if a < 0x20000000 then ucast (im_text im a) OR push_bit 8 (ucast (im_text im (a + 1)))
      else ucast (drop_bit (half_shift a) (ram k (a AND NOT 3))))"

definition store16 :: "memptr \<Rightarrow> u16 \<Rightarrow> kernel_t \<Rightarrow> kernel_t" where
  "store16 a v k =
     (let w = a AND NOT 3; sh = half_shift a in
      write_ram w ((ram k w AND NOT (push_bit sh 0xFFFF)) OR push_bit sh (ucast v)) k)"

section \<open>Breakpoints\<close>

definition upd_bkpt :: "nat \<Rightarrow> (breakpoint \<Rightarrow> breakpoint) \<Rightarrow> kernel_t \<Rightarrow> kernel_t" where
  "upd_bkpt b f k = upd_dbg (\<lambda>d. d\<lparr>breakpoints := (breakpoints d)[b := f (breakpoints d ! b)]\<rparr>) k"

definition upd_hard :: "nat \<Rightarrow> int \<Rightarrow> kernel_t \<Rightarrow> kernel_t" where
  "upd_hard h v k = upd_dbg (\<lambda>d. d\<lparr>hard_breakpoints := (hard_breakpoints d)[h := v]\<rparr>) k"

definition breakpoint_type_by_addr :: "memptr \<Rightarrow> bkpt_type" where
  "breakpoint_type_by_addr addr = (if addr < 0x20000000 then BKPT_HARD else BKPT_SOFT)"

text \<open>The pointer one past the last breakpoint passes the check of the code.\<close>

definition get_breakpoint_id :: "nat \<Rightarrow> int" where
  "get_breakpoint_id b = (if b \<le> BKPT_MAX_NUM then int b else - 1)"

fun first_index :: "('a \<Rightarrow> bool) \<Rightarrow> 'a list \<Rightarrow> nat \<Rightarrow> int" where
  "first_index P [] i = - 1"
| "first_index P (x # xs) i = (if P x then int i else first_index P xs (i + 1))"

definition get_avail_hard_breakpoint :: "kernel_t \<Rightarrow> int" where
  "get_avail_hard_breakpoint k = first_index (\<lambda>v. v = - 1) (hard_breakpoints (dbg k)) 0"

definition enable_all_hard_breakpoints :: "kernel_t \<Rightarrow> kernel_t" where
  "enable_all_hard_breakpoints k = store_reg FPB_CTRL (FPB_CTRL_KEY OR FPB_CTRL_ENABLE) k"

fun reset_comparators :: "nat list \<Rightarrow> kernel_t \<Rightarrow> kernel_t" where
  "reset_comparators [] k = k"
| "reset_comparators (i # is) k = reset_comparators is (store_reg (FPB_COMP + 4 * of_nat i) 0 (upd_hard i (- 1) k))"

definition hard_breakpoint_pool_init :: "image_t \<Rightarrow> kernel_t \<Rightarrow> kernel_t" where
  "hard_breakpoint_pool_init im k =
     (let k = store_reg FPB_CTRL (FPB_CTRL_KEY OR FPB_CTRL_ENABLE) k;
          k = modify_reg im DCB_DEMCR (\<lambda>r. r OR (DCB_DEMCR_TRCENA OR DCB_DEMCR_MON_EN)) k;
          k = store_reg SCB_HFSR SCB_HFSR_DEBUGEVT k;
          k = store_reg SCB_DFSR SCB_DFSR_BKPT k;
          k = store_reg SCB_DFSR SCB_DFSR_HALTED k;
          k = store_reg SCB_DFSR SCB_DFSR_DWTTRAP k;
          k = reset_comparators [0..<FPB_MAX_COMP] k in
      enable_all_hard_breakpoints k)"

definition hard_breakpoint_config :: "memptr \<Rightarrow> nat \<Rightarrow> kernel_t \<Rightarrow> ptr \<times> kernel_t" where
  "hard_breakpoint_config addr b k =
     (if breakpoint_type_by_addr addr = BKPT_HARD
      then let h = get_avail_hard_breakpoint k; breakpoint_id = get_breakpoint_id b in
           if breakpoint_id \<ge> 0 \<and> h \<ge> 0
           then (Some b, upd_bkpt b (\<lambda>x. x\<lparr>bk_type := BKPT_HARD, bk_addr := addr, bk_data := of_int h,
                   bk_ops := Some Hard_ops\<rparr>) (upd_hard (nat h) breakpoint_id k))
           else (None, k)
      else (None, k))"

definition comp_reg :: "nat \<Rightarrow> kernel_t \<Rightarrow> u32" where
  "comp_reg b k = FPB_COMP + 4 * ucast (bk_data (breakpoints (dbg k) ! b))"

definition hard_breakpoint_enable :: "nat \<Rightarrow> kernel_t \<Rightarrow> kernel_t" where
  "hard_breakpoint_enable b k =
     (let addr = bk_addr (breakpoints (dbg k) ! b) in
      if addr AND 0x2 \<noteq> 0
      then store_reg (comp_reg b k) (FPB_COMP_REPLACE_UPPER OR (addr AND FPB_COMP_ADDR_MASK) OR FPB_COMP_ENABLE) k
      else store_reg (comp_reg b k) (FPB_COMP_REPLACE_LOWER OR (addr AND FPB_COMP_ADDR_MASK) OR FPB_COMP_ENABLE) k)"

definition hard_breakpoint_disable :: "image_t \<Rightarrow> nat \<Rightarrow> kernel_t \<Rightarrow> kernel_t" where
  "hard_breakpoint_disable im b k = modify_reg im (comp_reg b k) (\<lambda>r. r AND NOT FPB_COMP_ENABLE) k"

definition hard_breakpoint_release :: "image_t \<Rightarrow> nat \<Rightarrow> kernel_t \<Rightarrow> kernel_t" where
  "hard_breakpoint_release im b k =
     (let h = unat (bk_data (breakpoints (dbg k) ! b));
          k = modify_reg im (comp_reg b k) (\<lambda>r. r AND NOT FPB_COMP_ENABLE) k in
      upd_bkpt b (\<lambda>x. x\<lparr>bk_type := BKPT_NONE\<rparr>) (upd_hard h (- 1) k))"

definition soft_breakpoint_config :: "image_t \<Rightarrow> memptr \<Rightarrow> nat \<Rightarrow> kernel_t \<Rightarrow> ptr \<times> kernel_t" where
  "soft_breakpoint_config im addr b k =
     (if breakpoint_type_by_addr addr = BKPT_SOFT
      then (Some b, upd_bkpt b (\<lambda>x. x\<lparr>bk_type := BKPT_SOFT, bk_addr := addr, bk_data := load16 im addr k,
              bk_ops := Some Soft_ops\<rparr>) k)
      else (None, k))"

definition soft_breakpoint_enable :: "nat \<Rightarrow> kernel_t \<Rightarrow> kernel_t" where
  "soft_breakpoint_enable b k = store16 (bk_addr (breakpoints (dbg k) ! b)) 0xbe11 k"

definition soft_breakpoint_disable :: "nat \<Rightarrow> kernel_t \<Rightarrow> kernel_t" where
  "soft_breakpoint_disable b k =
     store16 (bk_addr (breakpoints (dbg k) ! b)) (bk_data (breakpoints (dbg k) ! b)) k"

definition soft_breakpoint_release :: "nat \<Rightarrow> kernel_t \<Rightarrow> kernel_t" where
  "soft_breakpoint_release b k = upd_bkpt b (\<lambda>x. x\<lparr>bk_type := BKPT_NONE\<rparr>) k"

definition breakpoint_config :: "image_t \<Rightarrow> nat \<Rightarrow> memptr \<Rightarrow> kernel_t \<Rightarrow> ptr \<times> kernel_t" where
  "breakpoint_config im b addr k =
     (case breakpoint_type_by_addr addr of
        BKPT_HARD \<Rightarrow> hard_breakpoint_config addr b k
      | BKPT_SOFT \<Rightarrow> soft_breakpoint_config im addr b k
      | BKPT_NONE \<Rightarrow> (None, k))"

definition get_avail_breakpoint :: "image_t \<Rightarrow> memptr \<Rightarrow> kernel_t \<Rightarrow> ptr \<times> kernel_t" where
  "get_avail_breakpoint im addr k =
     (let i = first_index (\<lambda>b. bk_type b = BKPT_NONE) (breakpoints (dbg k)) 0 in
      if i < 0 then (None, k) else breakpoint_config im (nat i) addr k)"

text \<open>The pool has ten breakpoints, but the loop over it runs to the number of comparators.\<close>

definition breakpoint_pool_init :: "image_t \<Rightarrow> kernel_t \<Rightarrow> kernel_t" where
  "breakpoint_pool_init im k =
     hard_breakpoint_pool_init im (foldl (\<lambda>k i. upd_bkpt i (\<lambda>x. x\<lparr>bk_type := BKPT_NONE, bk_addr := 0, bk_data := 0\<rparr>) k)
       k [0..<FPB_MAX_COMP])"

definition breakpoint_install :: "image_t \<Rightarrow> memptr \<Rightarrow> kernel_t \<Rightarrow> ptr \<times> kernel_t" where
  "breakpoint_install im addr k = get_avail_breakpoint im addr k"

text \<open>The function pointers of a breakpoint that was never set up are NULL.\<close>

definition bkpt_call :: "ptr \<Rightarrow> (bkpt_ops \<Rightarrow> nat \<Rightarrow> kernel_t) \<Rightarrow> kernel_t \<Rightarrow> kernel_t outcome" where
  "bkpt_call p f k =
     bindF (deref p) (\<lambda>b.
     bindF (array_get (breakpoints (dbg k)) b) (\<lambda>x.
     bindF (the_function (bk_ops x)) (\<lambda>ops. Inr (f ops b))))"

definition breakpoint_uninstall :: "image_t \<Rightarrow> ptr \<Rightarrow> kernel_t \<Rightarrow> kernel_t outcome" where
  "breakpoint_uninstall im p k =
     bkpt_call p (\<lambda>ops b. case ops of Hard_ops \<Rightarrow> hard_breakpoint_release im b k | Soft_ops \<Rightarrow> soft_breakpoint_release b k) k"

definition enable_breakpoint :: "ptr \<Rightarrow> kernel_t \<Rightarrow> kernel_t outcome" where
  "enable_breakpoint p k =
     bkpt_call p (\<lambda>ops b. case ops of Hard_ops \<Rightarrow> hard_breakpoint_enable b k | Soft_ops \<Rightarrow> soft_breakpoint_enable b k) k"

definition disable_breakpoint :: "image_t \<Rightarrow> ptr \<Rightarrow> kernel_t \<Rightarrow> kernel_t outcome" where
  "disable_breakpoint im p k =
     bkpt_call p (\<lambda>ops b. case ops of Hard_ops \<Rightarrow> hard_breakpoint_disable im b k | Soft_ops \<Rightarrow> soft_breakpoint_disable b k) k"

section \<open>The list of probes\<close>

text \<open>A bound on the length of the list, for loops along it; a cyclic list makes them run forever.\<close>

definition PROBE_FUEL :: nat where "PROBE_FUEL = 256"

definition upd_kprobe :: "nat \<Rightarrow> (kprobe_t \<Rightarrow> kprobe_t) \<Rightarrow> kernel_t \<Rightarrow> kernel_t" where
  "upd_kprobe p f k = upd_dbg (\<lambda>d. d\<lparr>kprobes := (kprobes d)(p := f (kprobes d p))\<rparr>) k"

abbreviation "kprobe_at k p \<equiv> kprobes (dbg k) p"

fun kplist_search_loop :: "nat \<Rightarrow> memptr \<Rightarrow> ptr \<Rightarrow> kernel_t \<Rightarrow> ptr outcome" where
  "kplist_search_loop 0 addr cur k = Inl Diverges"
| "kplist_search_loop (Suc n) addr cur k =
     (case cur of
        None \<Rightarrow> Inr None
      | Some p \<Rightarrow> if kp_addr (kprobe_at k p) = addr then Inr (Some p)
                  else kplist_search_loop n addr (kp_next (kprobe_at k p)) k)"

definition kplist_search :: "memptr \<Rightarrow> kernel_t \<Rightarrow> ptr outcome" where
  "kplist_search addr k = kplist_search_loop PROBE_FUEL addr (kp_list (dbg k)) k"

definition kplist_add :: "nat \<Rightarrow> kernel_t \<Rightarrow> kernel_t" where
  "kplist_add kp k =
     upd_dbg (\<lambda>d. d\<lparr>kp_list := Some kp\<rparr>) (upd_kprobe kp (\<lambda>x. x\<lparr>kp_next := kp_list (dbg k)\<rparr>) k)"

fun kplist_del_loop :: "nat \<Rightarrow> nat \<Rightarrow> ptr \<Rightarrow> kernel_t \<Rightarrow> kernel_t outcome" where
  "kplist_del_loop 0 kp cur k = Inl Diverges"
| "kplist_del_loop (Suc n) kp cur k =
     (case cur of
        None \<Rightarrow> Inr k
      | Some p \<Rightarrow> if kp_next (kprobe_at k p) = Some kp
                  then Inr (upd_kprobe p (\<lambda>x. x\<lparr>kp_next := kp_next (kprobe_at k kp)\<rparr>) k)
                  else kplist_del_loop n kp (kp_next (kprobe_at k p)) k)"

definition kplist_del :: "nat \<Rightarrow> kernel_t \<Rightarrow> kernel_t outcome" where
  "kplist_del kp k =
     (if kp_list (dbg k) = Some kp then Inr (upd_dbg (\<lambda>d. d\<lparr>kp_list := kp_next (kprobe_at k kp)\<rparr>) k)
      else kplist_del_loop PROBE_FUEL kp (kp_list (dbg k)) k)"

definition kprobe_arch_init :: "image_t \<Rightarrow> kernel_t \<Rightarrow> kernel_t" where
  "kprobe_arch_init im k = breakpoint_pool_init im k"

definition kprobe_init :: "image_t \<Rightarrow> kernel_t \<Rightarrow> kernel_t" where
  "kprobe_init im k = kprobe_arch_init im (upd_dbg (\<lambda>d. d\<lparr>kp_list := None\<rparr>) k)"

definition kprobe_arch_add :: "image_t \<Rightarrow> nat \<Rightarrow> kernel_t \<Rightarrow> (int \<times> kernel_t) outcome" where
  "kprobe_arch_add im kp k =
     bindF (kplist_search (kp_addr (kprobe_at k kp)) k) (\<lambda>found.
     case found of
       None \<Rightarrow>
         (let (b, k) = breakpoint_install im (kp_addr (kprobe_at k kp)) k in
          if b \<noteq> None
          then bindF (enable_breakpoint b (upd_kprobe kp (\<lambda>x. x\<lparr>kp_bkpt := b\<rparr>) k)) (\<lambda>k. Inr (0, k))
          else Inr (- 1, k))
     | Some p \<Rightarrow> Inr (0, upd_kprobe kp (\<lambda>x. x\<lparr>kp_bkpt := kp_bkpt (kprobe_at k p)\<rparr>) k))"

definition kprobe_arch_del :: "image_t \<Rightarrow> nat \<Rightarrow> kernel_t \<Rightarrow> (int \<times> kernel_t) outcome" where
  "kprobe_arch_del im kp k =
     bindF (kplist_search (kp_addr (kprobe_at k kp)) k) (\<lambda>found.
     if found = None then bindF (breakpoint_uninstall im (kp_bkpt (kprobe_at k kp)) k) (\<lambda>k. Inr (0, k))
     else Inr (0, k))"

definition is_thumb32 :: "u16 \<Rightarrow> bool" where
  "is_thumb32 inst \<longleftrightarrow> inst \<ge> 0xe800"

definition kprobe_register :: "image_t \<Rightarrow> nat \<Rightarrow> kernel_t \<Rightarrow> (int \<times> kernel_t) outcome" where
  "kprobe_register im kp k =
     (let addr = kp_addr (kprobe_at k kp) AND NOT 1;
          step = (if is_thumb32 (load16 im addr k) then addr + 4 else addr + 2);
          k = upd_kprobe kp (\<lambda>x. x\<lparr>kp_addr := addr, kp_step_addr := step\<rparr>) k in
      bindF (kprobe_arch_add im kp k) (\<lambda>(ret, k).
      if ret < 0 then Inr (- 1, k) else Inr (0, kplist_add kp k)))"

definition kprobe_unregister :: "image_t \<Rightarrow> nat \<Rightarrow> kernel_t \<Rightarrow> (int \<times> kernel_t) outcome" where
  "kprobe_unregister im kp k =
     bindF (kplist_del kp k) (\<lambda>k. bindF (kprobe_arch_del im kp k) (\<lambda>(_, k). Inr (0, k)))"

section \<open>Probe handlers\<close>

definition kretprobe_register :: "image_t \<Rightarrow> nat \<Rightarrow> kernel_t \<Rightarrow> (int \<times> kernel_t) outcome" where
  "kretprobe_register im rp k =
     kprobe_register im rp
       (upd_kprobe rp (\<lambda>x. x\<lparr>kp_pre_handler := Some Kretprobe_pre_handler, kp_post_handler := None\<rparr>) k)"

definition kretprobe_unregister :: "image_t \<Rightarrow> nat \<Rightarrow> kernel_t \<Rightarrow> (int \<times> kernel_t) outcome" where
  "kretprobe_unregister im rp k = kprobe_unregister im rp k"

definition kretprobe_post_handler :: "image_t \<Rightarrow> nat \<Rightarrow> kernel_t \<Rightarrow> kernel_t outcome" where
  "kretprobe_post_handler im kp k =
     bindF (kprobe_unregister im kp k) (\<lambda>(_, k).
     bindF (kretprobe_register im kp (upd_kprobe kp (\<lambda>x. x\<lparr>kp_addr := rp_backup_addr x\<rparr>) k)) (\<lambda>(_, k). Inr k))"

definition kretprobe_pre_handler :: "image_t \<Rightarrow> nat \<Rightarrow> memptr \<Rightarrow> kernel_t \<Rightarrow> kernel_t outcome" where
  "kretprobe_pre_handler im kp stack k =
     bindF (kprobe_unregister im kp k) (\<lambda>(_, k).
     let k = upd_kprobe kp (\<lambda>x. x\<lparr>rp_backup_addr := kp_addr x, kp_addr := ram k (stack_word stack REG_LR),
               kp_pre_handler := rp_handler x, kp_post_handler := Some Kretprobe_post_handler\<rparr>) k in
     bindF (kprobe_register im kp k) (\<lambda>(_, k). Inr k))"

definition sampling_handler :: "u32 \<Rightarrow> memptr \<Rightarrow> kernel_t \<Rightarrow> kernel_t outcome" where
  "sampling_handler PSP stack k =
     (let target_stack = (if ram k (stack_word stack REG_LR) AND 0x4 \<noteq> 0 then PSP else stack + 4 * 8) in
      bindF (sampled_pcpush (ram k (stack_word target_stack REG_PC)) (profile (dbg k))) (\<lambda>s.
      Inr (upd_dbg (\<lambda>d. d\<lparr>profile := s\<rparr>) k)))"

definition run_kprobe_handler ::
  "kprobe_handler_t \<Rightarrow> image_t \<Rightarrow> u32 \<Rightarrow> nat \<Rightarrow> memptr \<Rightarrow> kernel_t \<Rightarrow> kernel_t outcome" where
  "run_kprobe_handler h im PSP kp stack k =
     (case h of
        Sampling_handler \<Rightarrow> sampling_handler PSP stack k
      | Kretprobe_pre_handler \<Rightarrow> kretprobe_pre_handler im kp stack k
      | Kretprobe_post_handler \<Rightarrow> kretprobe_post_handler im kp k)"

fun prebreak_loop :: "nat \<Rightarrow> image_t \<Rightarrow> u32 \<Rightarrow> memptr \<Rightarrow> ptr \<Rightarrow> kernel_t \<Rightarrow> kernel_t outcome" where
  "prebreak_loop 0 im PSP stack kp k = Inl Diverges"
| "prebreak_loop (Suc n) im PSP stack kp k =
     (case kp of
        None \<Rightarrow> Inr k
      | Some p \<Rightarrow>
          bindF (if kp_addr (kprobe_at k p) = ram k (stack_word stack REG_PC)
                 then case kp_pre_handler (kprobe_at k p) of
                        None \<Rightarrow> Inr k
                      | Some h \<Rightarrow> run_kprobe_handler h im PSP p stack k
                 else Inr k)
            (\<lambda>k. prebreak_loop n im PSP stack (kp_next (kprobe_at k p)) k))"

fun postbreak_loop :: "nat \<Rightarrow> image_t \<Rightarrow> u32 \<Rightarrow> memptr \<Rightarrow> ptr \<Rightarrow> kernel_t \<Rightarrow> kernel_t outcome" where
  "postbreak_loop 0 im PSP stack kp k = Inl Diverges"
| "postbreak_loop (Suc n) im PSP stack kp k =
     (case kp of
        None \<Rightarrow> Inr k
      | Some p \<Rightarrow>
          bindF (if kp_step_addr (kprobe_at k p) = ram k (stack_word stack REG_PC)
                 then case kp_post_handler (kprobe_at k p) of
                        None \<Rightarrow> Inr k
                      | Some h \<Rightarrow> run_kprobe_handler h im PSP p stack k
                 else Inr k)
            (\<lambda>k. postbreak_loop n im PSP stack (kp_next (kprobe_at k p)) k))"

definition kprobe_prebreak :: "image_t \<Rightarrow> u32 \<Rightarrow> memptr \<Rightarrow> kernel_t \<Rightarrow> kernel_t outcome" where
  "kprobe_prebreak im PSP stack k = prebreak_loop PROBE_FUEL im PSP stack (kp_list (dbg k)) k"

definition kprobe_postbreak :: "image_t \<Rightarrow> u32 \<Rightarrow> memptr \<Rightarrow> kernel_t \<Rightarrow> kernel_t outcome" where
  "kprobe_postbreak im PSP stack k = postbreak_loop PROBE_FUEL im PSP stack (kp_list (dbg k)) k"

fun bkpt_enable_loop :: "nat \<Rightarrow> memptr \<Rightarrow> ptr \<Rightarrow> kernel_t \<Rightarrow> kernel_t outcome" where
  "bkpt_enable_loop 0 stack kp k = Inl Diverges"
| "bkpt_enable_loop (Suc n) stack kp k =
     (case kp of
        None \<Rightarrow> Inr k
      | Some p \<Rightarrow>
          bindF (if kp_step_addr (kprobe_at k p) = ram k (stack_word stack REG_PC)
                 then enable_breakpoint (kp_bkpt (kprobe_at k p)) k else Inr k)
            (\<lambda>k. bkpt_enable_loop n stack (kp_next (kprobe_at k p)) k))"

fun bkpt_disable_loop :: "nat \<Rightarrow> image_t \<Rightarrow> memptr \<Rightarrow> ptr \<Rightarrow> kernel_t \<Rightarrow> kernel_t outcome" where
  "bkpt_disable_loop 0 im stack kp k = Inl Diverges"
| "bkpt_disable_loop (Suc n) im stack kp k =
     (case kp of
        None \<Rightarrow> Inr k
      | Some p \<Rightarrow>
          bindF (if kp_addr (kprobe_at k p) = ram k (stack_word stack REG_PC)
                 then disable_breakpoint im (kp_bkpt (kprobe_at k p)) k else Inr k)
            (\<lambda>k. bkpt_disable_loop n im stack (kp_next (kprobe_at k p)) k))"

definition kprobe_breakpoint_enable :: "memptr \<Rightarrow> kernel_t \<Rightarrow> kernel_t outcome" where
  "kprobe_breakpoint_enable stack k = bkpt_enable_loop PROBE_FUEL stack (kp_list (dbg k)) k"

definition kprobe_breakpoint_disable :: "image_t \<Rightarrow> memptr \<Rightarrow> kernel_t \<Rightarrow> kernel_t outcome" where
  "kprobe_breakpoint_disable im stack k = bkpt_disable_loop PROBE_FUEL im stack (kp_list (dbg k)) k"

definition cpu_enable_single_step :: "image_t \<Rightarrow> kernel_t \<Rightarrow> kernel_t" where
  "cpu_enable_single_step im k = modify_reg im DCB_DEMCR (\<lambda>r. r OR DCB_DEMCR_MON_STEP) k"

definition cpu_disable_single_step :: "image_t \<Rightarrow> kernel_t \<Rightarrow> kernel_t" where
  "cpu_disable_single_step im k = modify_reg im DCB_DEMCR (\<lambda>r. r AND NOT DCB_DEMCR_MON_STEP) k"

text \<open>The saved registers that the code passes along are not used by any handler of the source.\<close>

definition arch_kprobe_handler :: "image_t \<Rightarrow> u32 \<Rightarrow> memptr \<Rightarrow> kernel_t \<Rightarrow> kernel_t outcome" where
  "arch_kprobe_handler im PSP stack k =
     (let dfsr = load_reg im SCB_DFSR k in
      if dfsr AND SCB_DFSR_DWTTRAP \<noteq> 0 then panic ''DWT Watchpoint hit''
      else if dfsr AND SCB_DFSR_BKPT \<noteq> 0
      then bindF (kprobe_prebreak im PSP stack k) (\<lambda>k.
           let k = store_reg SCB_DFSR SCB_DFSR_BKPT k in
           kprobe_breakpoint_disable im stack (cpu_enable_single_step im k))
      else if dfsr AND SCB_DFSR_HALTED \<noteq> 0
      then bindF (kprobe_postbreak im PSP stack k) (\<lambda>k.
           let k = store_reg SCB_DFSR SCB_DFSR_HALTED k in
           kprobe_breakpoint_enable stack (cpu_disable_single_step im k))
      else Inr k)"

text \<open>The entry in assembly: the return code says which stack the interrupted code used.\<close>

definition debugmon_handler :: "image_t \<Rightarrow> cpu_t \<Rightarrow> kernel_t \<Rightarrow> kernel_t outcome" where
  "debugmon_handler im cpu k =
     arch_kprobe_handler im (psp cpu) (if lr cpu AND 4 = 0 then msp cpu else psp cpu) k"

section \<open>What probes and breakpoints leave alone\<close>

text \<open>Device registers, the debug variables and the memory that holds code may differ.\<close>

definition without_probes :: "kernel_t \<Rightarrow> kernel_t" where
  "without_probes k = k\<lparr>mem := (mem k)\<lparr>mmio := []\<rparr>, ram := \<lambda>_. 0, dbg := debug_reset\<rparr>"

definition probe_only :: "kernel_t \<Rightarrow> kernel_t \<Rightarrow> bool" where
  "probe_only k k' \<longleftrightarrow> without_probes k' = without_probes k"

lemma without_probes_simps [simp]:
  "without_probes (upd_dbg f k) = without_probes k"
  "without_probes (store_reg a v k) = without_probes k"
  "without_probes (modify_reg im a g k) = without_probes k"
  "without_probes (write_ram w v k) = without_probes k"
  by (simp_all add: without_probes_def upd_dbg_def modify_reg_def store_reg_def store_def upd_mem_def write_ram_def)

lemma without_probes_bkpt [simp]:
  "without_probes (upd_bkpt b f k) = without_probes k"
  "without_probes (upd_hard h v k) = without_probes k"
  "without_probes (upd_kprobe p g k) = without_probes k"
  "without_probes (store16 a w k) = without_probes k"
  "without_probes (kplist_add kp k) = without_probes k"
  by (simp_all add: upd_bkpt_def upd_hard_def upd_kprobe_def store16_def kplist_add_def Let_def)

lemma without_probes_ops [simp]:
  "without_probes (hard_breakpoint_enable b k) = without_probes k"
  "without_probes (hard_breakpoint_disable im b k) = without_probes k"
  "without_probes (hard_breakpoint_release im b k) = without_probes k"
  "without_probes (soft_breakpoint_enable b k) = without_probes k"
  "without_probes (soft_breakpoint_disable b k) = without_probes k"
  "without_probes (soft_breakpoint_release b k) = without_probes k"
  by (simp_all add: hard_breakpoint_enable_def hard_breakpoint_disable_def hard_breakpoint_release_def
      soft_breakpoint_enable_def soft_breakpoint_disable_def soft_breakpoint_release_def Let_def)

lemma probe_only_refl [simp]: "probe_only k k"
  by (simp add: probe_only_def)

lemma probe_only_trans: "probe_only k k1 \<Longrightarrow> probe_only k1 k2 \<Longrightarrow> probe_only k k2"
  by (simp add: probe_only_def)

lemma io_probe: "io_only k k' \<Longrightarrow> probe_only k k'"
proof -
  have "without_probes k = (without_io k)\<lparr>ram := \<lambda>_. 0\<rparr>" for k
    by (simp add: without_probes_def without_io_def)
  then show "io_only k k' \<Longrightarrow> probe_only k k'" by (simp add: io_only_def probe_only_def)
qed

lemma probe_only_bkpt:
  "enable_breakpoint p k = Inr k' \<Longrightarrow> probe_only k k'"
  "disable_breakpoint im p k = Inr k' \<Longrightarrow> probe_only k k'"
  "breakpoint_uninstall im p k = Inr k' \<Longrightarrow> probe_only k k'"
  by (auto simp: enable_breakpoint_def disable_breakpoint_def breakpoint_uninstall_def bkpt_call_def probe_only_def
      split: bkpt_ops.splits)

lemma probe_only_install: "breakpoint_install im addr k = (b, k') \<Longrightarrow> probe_only k k'"
  by (auto simp: breakpoint_install_def get_avail_breakpoint_def breakpoint_config_def hard_breakpoint_config_def
      soft_breakpoint_config_def probe_only_def Let_def split: if_splits bkpt_type.splits)

lemma probe_only_del_loop: "kplist_del_loop n kp cur k = Inr k' \<Longrightarrow> probe_only k k'"
  by (induction n arbitrary: cur) (auto simp: probe_only_def split: option.splits if_splits)

lemma probe_only_register: "kprobe_register im kp k = Inr (r, k') \<Longrightarrow> probe_only k k'"
  by (auto simp: kprobe_register_def kprobe_arch_add_def Let_def probe_only_def split: option.splits prod.splits if_splits
      dest!: probe_only_bkpt(1) [unfolded probe_only_def] probe_only_install [unfolded probe_only_def])

lemma probe_only_unregister: "kprobe_unregister im kp k = Inr (r, k') \<Longrightarrow> probe_only k k'"
  by (auto simp: kprobe_unregister_def kplist_del_def kprobe_arch_del_def probe_only_def split: if_splits
      dest!: probe_only_bkpt(3) [unfolded probe_only_def] probe_only_del_loop [unfolded probe_only_def])

lemma probe_only_handler: "run_kprobe_handler h im PSP kp stack k = Inr k' \<Longrightarrow> probe_only k k'"
  by (auto simp: run_kprobe_handler_def sampling_handler_def kretprobe_pre_handler_def kretprobe_post_handler_def
      kretprobe_register_def probe_only_def Let_def split: kprobe_handler_t.splits
      dest!: probe_only_register [unfolded probe_only_def] probe_only_unregister [unfolded probe_only_def])

lemma probe_only_loops:
  "prebreak_loop n im PSP stack kp k = Inr k' \<Longrightarrow> probe_only k k'"
  "postbreak_loop n im PSP stack kp k = Inr k' \<Longrightarrow> probe_only k k'"
  "bkpt_enable_loop n stack kp k = Inr k' \<Longrightarrow> probe_only k k'"
  "bkpt_disable_loop n im stack kp k = Inr k' \<Longrightarrow> probe_only k k'"
  by (induction n arbitrary: kp k; auto simp: probe_only_def split: option.splits if_splits
      dest!: probe_only_handler [unfolded probe_only_def] probe_only_bkpt [unfolded probe_only_def])+

lemma probe_only_debugmon: "debugmon_handler im cpu k = Inr k' \<Longrightarrow> probe_only k k'"
  by (auto simp: debugmon_handler_def arch_kprobe_handler_def kprobe_prebreak_def kprobe_postbreak_def panic_def
      kprobe_breakpoint_enable_def kprobe_breakpoint_disable_def cpu_enable_single_step_def cpu_disable_single_step_def
      probe_only_def Let_def split: if_splits dest!: probe_only_loops [unfolded probe_only_def])

lemma probe_only_init: "probe_only k (kprobe_init im k)"
proof -
  have "without_probes (reset_comparators is k) = without_probes k" for "is" k
    by (induction "is" arbitrary: k) simp_all
  moreover have "without_probes (foldl (\<lambda>k i. upd_bkpt i f k) k is) = without_probes k" for f "is" k
    by (induction "is" arbitrary: k) simp_all
  ultimately show ?thesis
    by (simp add: probe_only_def kprobe_init_def kprobe_arch_init_def breakpoint_pool_init_def hard_breakpoint_pool_init_def
        enable_all_hard_breakpoints_def Let_def)
qed

end
