(* ===== verification/F9_Kdb.thy ===== *)
theory F9_Kdb
  imports F9_Kprobe
begin

text \<open>
  The kernel debugger (\<^verbatim>\<open>kernel/kdb.c\<close>) with the dumps that the other components provide: kernel tables
  (\<^verbatim>\<open>kernel/lib/ktable.c\<close>), timer (\<^verbatim>\<open>kernel/ktimer.c\<close>), soft interrupts (\<^verbatim>\<open>kernel/softirq.c\<close>), threads
  (\<^verbatim>\<open>kernel/thread.c\<close>), memory pools and address spaces (\<^verbatim>\<open>kernel/memory.c\<close>), and samples
  (\<^verbatim>\<open>kernel/sampling-kdb.c\<close>); and what a panic prints (\<^verbatim>\<open>kernel/error.c\<close>). Every dump is the sequence of its
  calls of the debug port.
\<close>

abbreviation "kprint im fmt va k \<equiv> dbg_printf im DL_KDB fmt va k"

text \<open>The calls of \<open>f\<close> on the elements of a list, one after the other.\<close>

fun for_each :: "('a \<Rightarrow> kernel_t \<Rightarrow> kernel_t outcome) \<Rightarrow> 'a list \<Rightarrow> kernel_t \<Rightarrow> kernel_t outcome" where
  "for_each f [] k = Inr k"
| "for_each f (x # xs) k = bindF (f x k) (for_each f xs)"

text \<open>The same for the allocated elements of a table, as \<^verbatim>\<open>for_each_in_ktable\<close>.\<close>

definition for_each_in_ktable ::
  "(kernel_t \<Rightarrow> ktable) \<Rightarrow> (nat \<Rightarrow> kernel_t \<Rightarrow> kernel_t outcome) \<Rightarrow> kernel_t \<Rightarrow> kernel_t outcome" where
  "for_each_in_ktable kt f k =
     for_each (\<lambda>i k. bindF (bitmap_get_bit (bitmap (kt k)) i) (\<lambda>b. if b = 1 then f i k else Inr k))
       [0..<unat (kt_num (kt k))] k"

section \<open>Dumps\<close>

primrec kdb_ktable :: "kdb_table \<Rightarrow> kernel_t \<Rightarrow> ktable" where
  "kdb_ktable Fpage_table k = fpage_table (mem k)"
| "kdb_ktable As_table k = as_table (mem k)"
| "kdb_ktable Thread_table k = thread_table k"
| "kdb_ktable Ktimer_event_table k = ktimer_event_table (ktimer k)"

definition dump_bit :: "image_t \<Rightarrow> kdb_table \<Rightarrow> nat \<Rightarrow> kernel_t \<Rightarrow> kernel_t outcome" where
  "dump_bit im t j k =
     bindF (if j mod 64 = 0 then kprint im ''%5d: '' [Word (of_nat j)] k else Inr k) (\<lambda>k.
     bindF (bitmap_get_bit (bitmap (kdb_ktable t k)) j) (\<lambda>b.
     bindF (dbg_putchar im (if b \<noteq> 0 then of_char (CHR ''X'') else of_char (CHR ''-'')) k) (\<lambda>k.
     if (j + 1) mod 64 = 0 then dbg_puts im [newline] k else Inr k)))"

definition dump_ktable :: "image_t \<Rightarrow> kdb_table \<Rightarrow> kernel_t \<Rightarrow> kernel_t outcome" where
  "dump_ktable im t k =
     (let kt = kdb_ktable t k in
      bindF (kprint im ([newline] @ ''KT: %s'' @ [newline] @ ''bitmap:%p, data:%p, num: %d size: %d'' @ [newline])
        [Str (tname kt), Word (im_bitmap_addr im t), Word (kt_data kt), Word (kt_num kt), Word (kt_size kt)] k) (\<lambda>k.
      for_each (dump_bit im t) [0..<unat (kt_num kt)] k))"

definition kdb_dump_ktable :: "image_t \<Rightarrow> kernel_t \<Rightarrow> kernel_t outcome" where
  "kdb_dump_ktable im k = for_each (dump_ktable im) (kdb_ktables (dbg k)) k"

fun dump_events_loop :: "nat \<Rightarrow> image_t \<Rightarrow> ptr \<Rightarrow> kernel_t \<Rightarrow> kernel_t outcome" where
  "dump_events_loop 0 im event k = Inl Diverges"
| "dump_events_loop (Suc n) im event k =
     (case event of
        None \<Rightarrow> Inr k
      | Some e \<Rightarrow>
          bindF (kprint im (''%p %12d'' @ [newline])
            [Word (ktable_elem (ktimer_event_table (ktimer k)) e), Word (ev_delta (kt_events (ktimer k) e))] k)
            (\<lambda>k. dump_events_loop n im (ev_next (kt_events (ktimer k) e)) k))"

definition kdb_dump_events :: "image_t \<Rightarrow> kernel_t \<Rightarrow> kernel_t outcome" where
  "kdb_dump_events im k =
     bindF (dbg_puts im ([newline] @ ''ktimer events: '' @ [newline]) k) (\<lambda>k.
     bindF (kprint im (''%8s %12s'' @ [newline]) [Str ''EVENT'', Str ''DELTA''] k) (\<lambda>k.
     dump_events_loop EVENT_FUEL im (event_queue (ktimer k)) k))"

definition kdb_show_ktimer :: "image_t \<Rightarrow> kernel_t \<Rightarrow> kernel_t outcome" where
  "kdb_show_ktimer im k =
     bindF (kprint im (''Now is %ld'' @ [newline]) [Dword (ktimer_now (ktimer k))] k) (\<lambda>k.
     if ktimer_enabled (ktimer k) \<noteq> 0
     then kprint im (''Ktimer T=%d D=%d'' @ [newline])
            [Dword (ktimer_time (ktimer k)), Word (ktimer_delta (ktimer k))] k
     else Inr k)"

primrec softirq_name :: "softirq_type_t \<Rightarrow> string" where
  "softirq_name KTE_SOFTIRQ = ''Kernel timer events''"
| "softirq_name ASYNC_SOFTIRQ = ''Asynchronous events''"
| "softirq_name SYSCALL_SOFTIRQ = ''System calls''"
| "softirq_name KDB_SOFTIRQ = ''KDB enters''"

definition kdb_dump_softirq :: "image_t \<Rightarrow> kernel_t \<Rightarrow> kernel_t outcome" where
  "kdb_dump_softirq im k =
     for_each (\<lambda>s k. kprint im (''%32s %s'' @ [newline])
       [Str (softirq_name s),
        Str (if atomic_get (si_schedule (softirq k ! softirq_index s)) \<noteq> 0 then ''scheduled'' else ''not scheduled'')] k)
       [KTE_SOFTIRQ, ASYNC_SOFTIRQ, SYSCALL_SOFTIRQ, KDB_SOFTIRQ] k"

definition kdb_get_thread_type :: "tcb_t \<Rightarrow> string" where
  "kdb_get_thread_type thr =
     (let i = GLOBALID_TO_TID (t_globalid thr) in
      if i = THREAD_KERNEL then ''KERN''
      else if i = THREAD_ROOT then ''ROOT''
      else if i = THREAD_IDLE then ''IDLE''
      else if i \<ge> THREAD_USER then ''[USR]''
      else if i \<ge> THREAD_SYS then ''[SYS]''
      else ''???'')"

primrec thread_state_name :: "thread_state_t \<Rightarrow> string" where
  "thread_state_name T_INACTIVE = ''FREE''"
| "thread_state_name T_RUNNABLE = ''RUN''"
| "thread_state_name T_SVC_BLOCKED = ''SVC''"
| "thread_state_name T_RECV_BLOCKED = ''RECV''"
| "thread_state_name T_SEND_BLOCKED = ''SEND''"

definition dump_thread :: "image_t \<Rightarrow> nat \<Rightarrow> kernel_t \<Rightarrow> kernel_t outcome" where
  "dump_thread im i k =
     (let thr = tcbs k i in
      kprint im (''%5s %t %t %6s %t'' @ [newline])
        [Str (kdb_get_thread_type thr), Word (t_globalid thr), Word (t_localid thr), Str (thread_state_name (t_state thr)),
         Word (case t_parent thr of None \<Rightarrow> 0 | Some p \<Rightarrow> t_globalid (tcbs k p))] k)"

definition kdb_dump_threads :: "image_t \<Rightarrow> kernel_t \<Rightarrow> kernel_t outcome" where
  "kdb_dump_threads im k =
     bindF (kprint im (''%5s %8s %8s %6s %s'' @ [newline])
       [Str ''type'', Str ''global'', Str ''local'', Str ''state'', Str ''parent''] k) (\<lambda>k.
     for_each_in_ktable thread_table (dump_thread im) k)"

definition kdb_mempool_prop :: "mempool_t \<Rightarrow> string" where
  "kdb_mempool_prop mp =
     (let has = (\<lambda>flag. mp_flags mp AND flag \<noteq> 0); c = (\<lambda>flag ch. if has flag then ch else CHR ''-'') in
      [c MP_KR (CHR ''r''), c MP_KW (CHR ''w''), c MP_KX (CHR ''x''), CHR '' '',
       c MP_UR (CHR ''r''), c MP_UW (CHR ''w''), c MP_UX (CHR ''x''), CHR '' '',
       if has MP_DEVICES then CHR ''D'' else if has MP_MEMPOOL then CHR ''M''
       else if has MP_AHB_RAM then CHR ''A'' else if has MP_SRAM then CHR ''S'' else CHR ''N''])"

definition kdb_dump_mempool :: "image_t \<Rightarrow> kernel_t \<Rightarrow> kernel_t outcome" where
  "kdb_dump_mempool im k =
     bindF (kprint im (''%10s %10s [%8s:%8s] %10s'' @ [newline])
       [Str ''NAME'', Str ''SIZE'', Str ''START'', Str ''END'', Str ''FLAGS''] k) (\<lambda>k.
     for_each (\<lambda>mp k. kprint im (''%10s %10d [%p:%p] %10s'' @ [newline])
       [Str (mp_name mp), Word (mp_end mp - mp_start mp), Word (mp_start mp), Word (mp_end mp), Str (kdb_mempool_prop mp)] k)
       (im_memmap im) k)"

section \<open>Address spaces\<close>

definition set_used :: "nat \<Rightarrow> int \<Rightarrow> kernel_t \<Rightarrow> kernel_t" where
  "set_used f v k = upd_mem (upd_fpage f (fp_used_update (\<lambda>_. v)) (mem k)) k"

fun clear_used :: "nat \<Rightarrow> ptr \<Rightarrow> kernel_t \<Rightarrow> kernel_t outcome" where
  "clear_used 0 fpage k = Inl Diverges"
| "clear_used (Suc n) fpage k =
     (case fpage of
        None \<Rightarrow> Inr k
      | Some f \<Rightarrow> clear_used n (as_next (fpages (mem k) f)) (set_used f 0 k))"

text \<open>\<open>n\<close> is the number of pages still to mark, 8 less the counter \<^verbatim>\<open>i\<close> of the code.\<close>

fun mark_used :: "nat \<Rightarrow> ptr \<Rightarrow> kernel_t \<Rightarrow> nat \<times> kernel_t" where
  "mark_used 0 fpage k = (0, k)"
| "mark_used (Suc n) fpage k =
     (case fpage of
        None \<Rightarrow> (Suc n, k)
      | Some f \<Rightarrow> mark_used n (mpu_next (fpages (mem k) f)) (set_used f 1 k))"

text \<open>
  The wait for a key polls the receive queue. Between two polls the interrupt of the port runs, as long
  as the terminal has bytes to send; when it has none the wait is endless. \<open>WAIT_FUEL\<close> bounds the number of
  interrupts: the transmit queue and the receive queue together hold fewer bytes.
\<close>

definition WAIT_FUEL :: nat where "WAIT_FUEL = 4096"

fun wait_key :: "nat \<Rightarrow> image_t \<Rightarrow> kernel_t \<Rightarrow> kernel_t outcome" where
  "wait_key 0 im k = Inl Diverges"
| "wait_key (Suc n) im k =
     bindF (dbg_getchar k) (\<lambda>(c, k).
     if c \<noteq> 0 then Inr k
     else if uart_input (dbg k) = [] then Inl Diverges
     else bindF (uart_irq_handler im k) (wait_key n im))"

fun dump_pages :: "nat \<Rightarrow> image_t \<Rightarrow> nat \<Rightarrow> ptr \<Rightarrow> kernel_t \<Rightarrow> kernel_t outcome" where
  "dump_pages 0 im nl fpage k = Inl Diverges"
| "dump_pages (Suc n) im nl fpage k =
     (case fpage of
        None \<Rightarrow> Inr k
      | Some f \<Rightarrow>
          bindF (array_get (im_memmap im) (unat (fp_mpid (fpages (mem k) f)))) (\<lambda>mp.
          bindF (kprint im (''MEM: %c fpage %5s [b:%p, sz:2**%d]'' @ [newline])
            [Word (of_char (if fp_used (fpages (mem k) f) \<noteq> 0 then CHR ''o'' else CHR '' '')), Str (mp_name mp),
             Word (fp_base (fpages (mem k) f)), Word (ucast (fp_shift (fpages (mem k) f)))] k) (\<lambda>k.
          let fpage = as_next (fpages (mem k) f); nl = nl + 1 in
          if dbg_state (dbg k) \<noteq> DBG_PANIC \<and> nl = 12
          then bindF (dbg_puts im (''Press any key...'' @ [newline]) k) (\<lambda>k.
               bindF (wait_key WAIT_FUEL im k) (dump_pages n im 0 fpage))
          else dump_pages n im nl fpage k)))"

definition dump_as :: "image_t \<Rightarrow> nat \<Rightarrow> kernel_t \<Rightarrow> kernel_t outcome" where
  "dump_as im a k =
     bindF (kprint im (''Address Space %p'' @ [newline]) [Word (as_spaceid (ases (mem k) a))] k) (\<lambda>k.
     bindF (clear_used WALK_FUEL (as_first (ases (mem k) a)) k) (\<lambda>k.
     let (n, k) = mark_used 8 (mpu_stack_first (ases (mem k) a)) k;
         (n, k) = mark_used n (mpu_first (ases (mem k) a)) k in
     dump_pages WALK_FUEL im 0 (as_first (ases (mem k) a)) k))"

definition kdb_dump_as :: "image_t \<Rightarrow> kernel_t \<Rightarrow> kernel_t outcome" where
  "kdb_dump_as im k = for_each_in_ktable (\<lambda>k. as_table (mem k)) (dump_as im) k"

section \<open>Samples\<close>

text \<open>\<^verbatim>\<open>sampling_init\<close> with its message, and the static probe of \<^verbatim>\<open>kdb_show_sampling\<close>.\<close>

definition kdb_sampling_init :: "image_t \<Rightarrow> kernel_t \<Rightarrow> kernel_t outcome" where
  "kdb_sampling_init im k =
     (let syms = symbols (dbg k) in
      if ksym_total syms > MAX_KSYM
      then kprint im (''ksym %d > MAX_KSYM'' @ [newline]) [Word (of_nat (ksym_total syms))] k
      else Inr (upd_dbg (\<lambda>d. d\<lparr>profile := sampling_init syms (profile d)\<rparr>) k))"

definition SAMPLING_PROBE :: nat where "SAMPLING_PROBE = 0"

fun show_hits :: "image_t \<Rightarrow> nat list \<Rightarrow> kernel_t \<Rightarrow> kernel_t outcome" where
  "show_hits im [] k = Inr k"
| "show_hits im (i # is) k =
     bindF (array_get (ksymid_sortedlist (profile (dbg k))) i) (\<lambda>symid.
     bindF (array_get (ksym_hitcount (profile (dbg k))) (nat symid)) (\<lambda>hits.
     if hits = 0 then Inr k
     else bindF (ksym_id2name (nat symid) (symbols (dbg k))) (\<lambda>name.
          bindF (kprint im (''%5d [ %24s ]'' @ [newline]) [Word (word_of_int hits), Str name] k) (show_hits im is))))"

definition kdb_show_sampling :: "image_t \<Rightarrow> kernel_t \<Rightarrow> kernel_t outcome" where
  "kdb_show_sampling im k =
     (if sampling_inited (dbg k) = 0
      then bindF (kprint im (''Init sampling...'' @ [newline]) [] k) (\<lambda>k.
           bindF (kdb_sampling_init im k) (\<lambda>k.
           let k = upd_dbg (\<lambda>d. d\<lparr>profile := sampling_enable (profile d), sampling_inited := sampling_inited d + 1\<rparr>) k;
               k = upd_kprobe SAMPLING_PROBE (\<lambda>x. x\<lparr>kp_addr := im_ktimer_handler im,
                     kp_pre_handler := Some Sampling_handler, kp_post_handler := None\<rparr>) k in
           bindF (kprobe_register im SAMPLING_PROBE k) (\<lambda>(_, k). Inr k)))
      else bindF (sampling_stats (symbols (dbg k)) (sampling_disable (profile (dbg k)))) (\<lambda>(syms, s).
           let k = upd_dbg (\<lambda>d. d\<lparr>symbols := syms, profile := s\<rparr>) k in
           bindF (show_hits im [0..<ksym_total syms] k) (\<lambda>k.
           Inr (upd_dbg (\<lambda>d. d\<lparr>profile := sampling_enable (profile d)\<rparr>) k))))"

section \<open>Commands\<close>

datatype kdb_function_t =
  Kdb_dump_ktable | Kdb_dump_events | Kdb_show_ktimer | Kdb_dump_softirq | Kdb_dump_threads | Kdb_dump_mempool
  | Kdb_dump_as | Kdb_show_sampling

primrec run_kdb_function :: "kdb_function_t \<Rightarrow> image_t \<Rightarrow> kernel_t \<Rightarrow> kernel_t outcome" where
  "run_kdb_function Kdb_dump_ktable im k = kdb_dump_ktable im k"
| "run_kdb_function Kdb_dump_events im k = kdb_dump_events im k"
| "run_kdb_function Kdb_show_ktimer im k = kdb_show_ktimer im k"
| "run_kdb_function Kdb_dump_softirq im k = kdb_dump_softirq im k"
| "run_kdb_function Kdb_dump_threads im k = kdb_dump_threads im k"
| "run_kdb_function Kdb_dump_mempool im k = kdb_dump_mempool im k"
| "run_kdb_function Kdb_dump_as im k = kdb_dump_as im k"
| "run_kdb_function Kdb_show_sampling im k = kdb_show_sampling im k"

record kdb_t =
  kdb_option :: char
  kdb_name :: string
  kdb_menuentry :: string
  kdb_function :: kdb_function_t

definition kdb_functions :: "kdb_t list" where
  "kdb_functions =
     [\<lparr>kdb_option = CHR ''K'', kdb_name = ''KTABLES'', kdb_menuentry = ''print kernel tables'', kdb_function = Kdb_dump_ktable\<rparr>,
      \<lparr>kdb_option = CHR ''e'', kdb_name = ''KTIMER'', kdb_menuentry = ''dump ktimer events'', kdb_function = Kdb_dump_events\<rparr>,
      \<lparr>kdb_option = CHR ''n'', kdb_name = ''NOW'', kdb_menuentry = ''show timer (now)'', kdb_function = Kdb_show_ktimer\<rparr>,
      \<lparr>kdb_option = CHR ''s'', kdb_name = ''SOFTIRQ'', kdb_menuentry = ''show softirqs'', kdb_function = Kdb_dump_softirq\<rparr>,
      \<lparr>kdb_option = CHR ''t'', kdb_name = ''THREADS'', kdb_menuentry = ''dump threads'', kdb_function = Kdb_dump_threads\<rparr>,
      \<lparr>kdb_option = CHR ''m'', kdb_name = ''MEMPOOLS'', kdb_menuentry = ''dump memory pools'', kdb_function = Kdb_dump_mempool\<rparr>,
      \<lparr>kdb_option = CHR ''a'', kdb_name = ''AS'', kdb_menuentry = ''dump address spaces'', kdb_function = Kdb_dump_as\<rparr>,
      \<lparr>kdb_option = CHR ''p'', kdb_name = ''TOP'', kdb_menuentry = ''show sampling'', kdb_function = Kdb_show_sampling\<rparr>]"

definition kdb_print_menu :: "image_t \<Rightarrow> kernel_t \<Rightarrow> kernel_t outcome" where
  "kdb_print_menu im k =
     bindF (kprint im (''commands: '' @ [newline]) [] k) (\<lambda>k.
     for_each (\<lambda>f k. kprint im (''%c: %s'' @ [newline]) [Word (of_char (kdb_option f)), Str (kdb_menuentry f)] k)
       kdb_functions k)"

definition run_kdb_entry :: "image_t \<Rightarrow> kdb_t \<Rightarrow> kernel_t \<Rightarrow> kernel_t outcome" where
  "run_kdb_entry im f k =
     bindF (kprint im (''-------%s------'' @ [newline]) [Str (kdb_name f)] k) (run_kdb_function (kdb_function f) im)"

definition kdb_handler :: "image_t \<Rightarrow> char \<Rightarrow> kernel_t \<Rightarrow> (int \<times> kernel_t) outcome" where
  "kdb_handler im c k =
     bindF (kprint im ([newline, newline] @ ''## KDB ##'' @ [newline]) [] k) (\<lambda>k.
     let ok = (\<lambda>k. bindF (kprint im (''----------------'' @ [newline]) [] k) (\<lambda>k. Inr (0, k))) in
     case find (\<lambda>f. kdb_option f = c) kdb_functions of
       Some f \<Rightarrow> bindF (run_kdb_entry im f k) ok
     | None \<Rightarrow> if c = CHR ''?'' then bindF (kdb_print_menu im k) ok else Inr (1, k))"

definition kdb_dump_error :: "image_t \<Rightarrow> kernel_t \<Rightarrow> (int \<times> kernel_t) outcome" where
  "kdb_dump_error im k = bindF (for_each (run_kdb_entry im) kdb_functions k) (\<lambda>k. Inr (0, k))"

definition debug_kdb_handler :: "image_t \<Rightarrow> kernel_t \<Rightarrow> kernel_t outcome" where
  "debug_kdb_handler im k =
     bindF (dbg_getchar k) (\<lambda>(c, k). bindF (kdb_handler im (char_of (unat c)) k) (\<lambda>(_, k). Inr k))"

section \<open>Panic\<close>

text \<open>
  The words above the stack pointer, up to and including the one at the end of the kernel stack; the loop
  ends after as many words as lie between the pointer and the end.
\<close>

fun dump_stack_loop :: "image_t \<Rightarrow> nat \<Rightarrow> u32 \<Rightarrow> nat \<Rightarrow> kernel_t \<Rightarrow> kernel_t outcome" where
  "dump_stack_loop im 0 sp word k = Inr k"
| "dump_stack_loop im (Suc n) sp word k =
     bindF (dbg_printf im DL_EMERG ''%p '' [Word (ram k (sp + 4))] k) (\<lambda>k.
     bindF (if (word + 1) mod 8 = 0 then dbg_putchar im 10 k else Inr k) (dump_stack_loop im n (sp + 4) (word + 1)))"

definition panic_dump_stack :: "image_t \<Rightarrow> u32 \<Rightarrow> kernel_t \<Rightarrow> kernel_t outcome" where
  "panic_dump_stack im sp k =
     bindF (dbg_puts im ([newline, newline] @ ''Stack dump:'' @ [newline]) k)
       (dump_stack_loop im ((unat (im_kernel_stack_end im) - unat sp + 3) div 4) sp 0)"

text \<open>The state in which a panic spins; \<open>sp\<close> is the main stack pointer.\<close>

definition panic_impl :: "image_t \<Rightarrow> u32 \<Rightarrow> string \<Rightarrow> va_list \<Rightarrow> kernel_t \<Rightarrow> kernel_t outcome" where
  "panic_impl im sp fmt va k =
     bindF (dbg_start_panic im k) (\<lambda>k.
     bindF (dbg_vprintf im DL_EMERG fmt va k) (\<lambda>k.
     bindF (kdb_dump_error im k) (\<lambda>(_, k). panic_dump_stack im sp k)))"

section \<open>What the debugger leaves alone\<close>

lemma io_only_for_each:
  assumes "for_each f xs k = Inr k'" "\<And>x k k'. f x k = Inr k' \<Longrightarrow> io_only k k'"
  shows "io_only k k'"
  using assms(1) by (induction xs arbitrary: k) (auto dest!: assms(2) intro: io_only_trans)

lemma io_only_in_ktable:
  assumes "for_each_in_ktable kt f k = Inr k'" "\<And>x k k'. f x k = Inr k' \<Longrightarrow> io_only k k'"
  shows "io_only k k'"
  using assms(1) unfolding for_each_in_ktable_def
  by (rule io_only_for_each) (auto split: if_splits dest: assms(2))

lemma io_only_events: "dump_events_loop n im event k = Inr k' \<Longrightarrow> io_only k k'"
  by (induction n arbitrary: event k)
    (auto split: option.splits simp: io_only_def dest!: io_only_print(2) [unfolded io_only_def])

lemma io_only_dump_ktable: "dump_ktable im t k = Inr k' \<Longrightarrow> io_only k k'"
proof -
  have bit: "dump_bit im t j k = Inr k' \<Longrightarrow> io_only k k'" for j k k'
    by (auto simp: dump_bit_def io_only_def split: if_splits
        dest!: io_only_print [unfolded io_only_def] io_only_putchar [unfolded io_only_def])
  show "dump_ktable im t k = Inr k' \<Longrightarrow> io_only k k'"
    by (auto simp: dump_ktable_def Let_def dest!: io_only_print(2) io_only_for_each [OF _ bit] intro: io_only_trans)
qed

lemma io_only_dumps:
  "kdb_dump_ktable im k = Inr k' \<Longrightarrow> io_only k k'"
  "kdb_dump_events im k = Inr k' \<Longrightarrow> io_only k k'"
  "kdb_show_ktimer im k = Inr k' \<Longrightarrow> io_only k k'"
  "kdb_dump_softirq im k = Inr k' \<Longrightarrow> io_only k k'"
  "kdb_dump_threads im k = Inr k' \<Longrightarrow> io_only k k'"
  "kdb_dump_mempool im k = Inr k' \<Longrightarrow> io_only k k'"
  "kdb_print_menu im k = Inr k' \<Longrightarrow> io_only k k'"
proof -
  note pr = io_only_print [unfolded io_only_def]
  note fe = io_only_for_each [unfolded io_only_def]
  show "kdb_dump_ktable im k = Inr k' \<Longrightarrow> io_only k k'"
    unfolding kdb_dump_ktable_def by (erule io_only_for_each) (erule io_only_dump_ktable)
  show "kdb_dump_events im k = Inr k' \<Longrightarrow> io_only k k'"
    by (auto simp: kdb_dump_events_def io_only_def dest!: pr io_only_events [unfolded io_only_def])
  show "kdb_show_ktimer im k = Inr k' \<Longrightarrow> io_only k k'"
    by (auto simp: kdb_show_ktimer_def io_only_def split: if_splits dest!: pr)
  show "kdb_dump_softirq im k = Inr k' \<Longrightarrow> io_only k k'"
    unfolding kdb_dump_softirq_def by (erule io_only_for_each) (erule io_only_print)
  show "kdb_dump_threads im k = Inr k' \<Longrightarrow> io_only k k'"
    unfolding kdb_dump_threads_def
    by (elim bindF_eq_InrE, drule io_only_print(2), erule io_only_trans, erule io_only_in_ktable)
      (simp add: dump_thread_def Let_def io_only_print(2))
  show "kdb_dump_mempool im k = Inr k' \<Longrightarrow> io_only k k'" "kdb_print_menu im k = Inr k' \<Longrightarrow> io_only k k'"
    unfolding kdb_dump_mempool_def kdb_print_menu_def
    by (elim bindF_eq_InrE, drule io_only_print(2), erule io_only_trans, erule io_only_for_each, erule io_only_print)+
qed

lemma io_only_show_hits: "show_hits im is k = Inr k' \<Longrightarrow> io_only k k'"
  by (induction "is" arbitrary: k)
    (auto simp: io_only_def split: if_splits dest!: io_only_print(2) [unfolded io_only_def])

lemma probe_only_sampling: "kdb_show_sampling im k = Inr k' \<Longrightarrow> probe_only k k'"
proof -
  note pr = io_probe [OF io_only_print(2), unfolded probe_only_def]
  have init: "kdb_sampling_init im k = Inr k' \<Longrightarrow> probe_only k k'" for k k'
    by (auto simp: kdb_sampling_init_def probe_only_def Let_def split: if_splits dest!: pr)
  show "kdb_show_sampling im k = Inr k' \<Longrightarrow> probe_only k k'"
    by (auto simp: kdb_show_sampling_def probe_only_def Let_def split: if_splits prod.splits
        dest!: pr init [unfolded probe_only_def] probe_only_register [unfolded probe_only_def]
          io_probe [OF io_only_show_hits, unfolded probe_only_def])
qed

end
