(* ===== verification/F9_Kernel.thy ===== *)
theory F9_Kernel
  imports F9_Ipc F9_Kdb
begin

text \<open>
  The kernel as a whole: the handler of timer events (\<^verbatim>\<open>kernel/ktimer.c\<close>), system calls
  (\<^verbatim>\<open>kernel/syscall.c\<close>), the execution of soft interrupts (\<^verbatim>\<open>kernel/softirq.c\<close>), the system threads
  (\<^verbatim>\<open>kernel/systhread.c\<close>) and the start of the system (\<^verbatim>\<open>kernel/init.c\<close>, \<^verbatim>\<open>kernel/start.c\<close>).
\<close>

section \<open>Due timer events\<close>

text \<open>The first event behind \<open>e\<close> that is not due at the same time.\<close>

fun due_end :: "nat \<Rightarrow> ktimer_t \<Rightarrow> nat \<Rightarrow> ptr outcome" where
  "due_end 0 kt e = Inl Diverges"
| "due_end (Suc n) kt e =
     (case ev_next (kt_events kt e) of
        None \<Rightarrow> Inr None
      | Some x \<Rightarrow> if ev_delta (kt_events kt x) = 0 then due_end n kt x else Inr (Some x))"

fun run_events :: "nat \<Rightarrow> image_t \<Rightarrow> ptr \<Rightarrow> nat \<Rightarrow> kernel_t \<Rightarrow> kernel_t outcome" where
  "run_events 0 im last_event event k = Inl Diverges"
| "run_events (Suc n) im last_event event k =
     bindF (run_event_handler (ev_handler (kt_events (ktimer k) event)) im event k) (\<lambda>(h_retvalue, k).
     let next_event = ev_next (kt_events (ktimer k) event) in
     bindF (if h_retvalue \<noteq> 0
            then bindF (ktimer_event_schedule h_retvalue event (ktimer k)) (\<lambda>(_, kt). Inr (k\<lparr>ktimer := kt\<rparr>))
            else bindF (ktable_free_slot (ktimer_event_table (ktimer k)) event) (\<lambda>t.
                 Inr (upd_ktimer (ktimer_event_table_update (\<lambda>_. t)) k))) (\<lambda>k.
     case next_event of
       None \<Rightarrow> Inr k
     | Some e \<Rightarrow> if Some e \<noteq> last_event then run_events n im last_event e k else Inr k))"

definition ktimer_event_handler :: "image_t \<Rightarrow> kernel_t \<Rightarrow> kernel_t outcome" where
  "ktimer_event_handler im k =
     (case event_queue (ktimer k) of
        None \<Rightarrow> Inr (upd_ktimer ktimer_disable k)
      | Some event \<Rightarrow>
          bindF (due_end EVENT_FUEL (ktimer k) event) (\<lambda>last_event.
          let k = upd_ktimer (event_queue_update (\<lambda>_. last_event)) k in
          bindF (run_events EVENT_FUEL im last_event event k) (\<lambda>k.
          Inr (case event_queue (ktimer k) of
                 None \<Rightarrow> k
               | Some e \<Rightarrow> upd_ktimer (ktimer_enable (ev_delta (kt_events (ktimer k) e))) k))))"

section \<open>System calls\<close>

definition SYS_THREAD_CONTROL :: u8 where "SYS_THREAD_CONTROL = 2"
definition SYS_IPC :: u8 where "SYS_IPC = 6"

definition svc_handler :: "kernel_t \<Rightarrow> kernel_t outcome" where
  "svc_handler k =
     (if thread_current k = kernel k then Inr k
      else
        let k = k\<lparr>caller := thread_current k\<rparr> in
        bindF (set_caller_state T_SVC_BLOCKED k) (softirq_schedule SYSCALL_SOFTIRQ))"

definition syscall_init :: "kernel_t \<Rightarrow> kernel_t" where
  "syscall_init k = softirq_register SYSCALL_SOFTIRQ Syscall_handler k"

definition sys_thread_control :: "image_t \<Rightarrow> memptr \<Rightarrow> u32 list \<Rightarrow> kernel_t \<Rightarrow> kernel_t outcome" where
  "sys_thread_control im param1 param2 k =
     (let dest = ram k (stack_word param1 REG_R0);
          space = ram k (stack_word param1 REG_R1);
          pager = ram k (stack_word param1 REG_R3) in
      if space \<noteq> L4_NILTHREAD
      then
        bindF (array_get param2 0) (\<lambda>utcb.
        let p = mempool_getbyid (mempool_search (im_memmap im) utcb UTCB_SIZE) in
        bindF (case p of
                 None \<Rightarrow> Inr False
               | Some _ \<Rightarrow> bindF (mempool_deref (im_memmap im) p) (\<lambda>mp. Inr (mp_flags mp AND (MP_UR OR MP_UW) \<noteq> 0)))
          (\<lambda>ok.
        if \<not> ok then Inr k
        else
          bindF (thread_create dest utcb k) (\<lambda>(t, k).
          bindF (deref t) (\<lambda>thr.
          bindF (thread_space im thr space utcb k) (\<lambda>k.
          bindF (utcb_write (t_utcb (tcbs k thr)) UTCB_pager pager k) (\<lambda>k.
          Inr (write_ram (stack_word param1 REG_R0) 1 k)))))))
      else
        bindF (thread_by_globalid k dest) (\<lambda>t.
        bindF (deref t) (\<lambda>thr.
        bindF (thread_free_space thr k) (thread_destroy thr))))"

definition syscall_handler :: "image_t \<Rightarrow> kernel_t \<Rightarrow> kernel_t outcome" where
  "syscall_handler im k =
     bindF (deref (caller k)) (\<lambda>c.
     let svc_param1 = ctx_sp (ctx (tcbs k c));
         svc_num = im_text im (ram k (stack_word svc_param1 REG_PC) - 2);
         svc_param2 = ctx_regs (ctx (tcbs k c)) in
     if svc_num = SYS_THREAD_CONTROL
     then bindF (sys_thread_control im svc_param1 svc_param2 k) (set_caller_state T_RUNNABLE)
     else if svc_num = SYS_IPC then sys_ipc im svc_param1 k
     else set_caller_state T_RUNNABLE k)"

section \<open>Execution of soft interrupts\<close>

primrec run_softirq_handler :: "softirq_handler_t \<Rightarrow> image_t \<Rightarrow> kernel_t \<Rightarrow> kernel_t outcome" where
  "run_softirq_handler Ktimer_event_handler im k = ktimer_event_handler im k"
| "run_softirq_handler Syscall_handler im k = syscall_handler im k"
| "run_softirq_handler Debug_kdb_handler im k = debug_kdb_handler im k"

text \<open>One pass over the soft interrupts \<open>is\<close>, and the result of all their requests.\<close>

fun softirq_pass :: "softirq_type_t list \<Rightarrow> image_t \<Rightarrow> u32 \<Rightarrow> kernel_t \<Rightarrow> (u32 \<times> kernel_t) outcome" where
  "softirq_pass [] im executed k = Inr (executed, k)"
| "softirq_pass (s # ss) im executed k =
     (let q = softirq k ! softirq_index s in
      if atomic_get (si_schedule q) \<noteq> 0 \<and> si_handler q \<noteq> None
      then bindF (run_softirq_handler (the (si_handler q)) im k) (\<lambda>k.
           softirq_pass ss im 1 (upd_softirq s (si_schedule_update (\<lambda>old. atomic_set old 0)) k))
      else softirq_pass ss im executed k)"

definition all_softirqs :: "softirq_type_t list" where
  "all_softirqs = [KTE_SOFTIRQ, ASYNC_SOFTIRQ, SYSCALL_SOFTIRQ, KDB_SOFTIRQ]"

definition pending :: "kernel_t \<Rightarrow> u32" where
  "pending k = foldl (\<lambda>acc s. acc OR si_schedule (softirq k ! softirq_index s)) 0 all_softirqs"

text \<open>The passes are repeated while a request is left; \<open>fuel\<close> bounds their number.\<close>

fun softirq_execute :: "nat \<Rightarrow> image_t \<Rightarrow> u32 \<Rightarrow> kernel_t \<Rightarrow> (u32 \<times> kernel_t) outcome" where
  "softirq_execute 0 im executed k = Inl Diverges"
| "softirq_execute (Suc fuel) im executed k =
     bindF (softirq_pass all_softirqs im executed k) (\<lambda>(executed, k).
     let schedule = pending k in
     bindF (set_kernel_state (if schedule \<noteq> 0 then T_RUNNABLE else T_INACTIVE) k) (\<lambda>k.
     if schedule \<noteq> 0 then softirq_execute fuel im executed k else Inr (executed, k)))"

section \<open>System threads\<close>

definition create_root_thread :: "image_t \<Rightarrow> kernel_t \<Rightarrow> kernel_t outcome" where
  "create_root_thread im k =
     bindF (thread_init (TID_TO_GLOBALID THREAD_ROOT) (im_root_utcb im) k) (\<lambda>(p, k).
     let k = k\<lparr>root := p\<rparr> in
     bindF (deref p) (\<lambda>t.
     bindF (thread_space im t (TID_TO_GLOBALID THREAD_ROOT) (im_root_utcb im) k) (\<lambda>k.
     bindF (deref (t_as (tcbs k t))) (\<lambda>a.
     bindF (as_map_user (im_memmap im) a (mem k)) (\<lambda>m.
     let k = thread_init_ctx im (im_root_stack_end im) (im_root_thread im) t (upd_mem m k);
         k = upd_tcb t (\<lambda>x. x\<lparr>stack_base := im_root_stack_start im,
                               stack_size := im_root_stack_end im - im_root_stack_start im\<rparr>) k;
         k = sched_slot_dispatch SSI_ROOT_THREAD p k in
     Inr (set_state t T_RUNNABLE k))))))"

definition create_kernel_thread :: "image_t \<Rightarrow> kernel_t \<Rightarrow> kernel_t outcome" where
  "create_kernel_thread im k =
     bindF (thread_init (TID_TO_GLOBALID THREAD_KERNEL) 0 k) (\<lambda>(p, k).
     let k = k\<lparr>kernel := p\<rparr> in
     bindF (deref p) (\<lambda>t.
     let k = thread_init_kernel_ctx (im_kernel_stack_end im) t k;
         k = sched_slot_dispatch SSI_SOFTIRQ p k in
     Inr (set_state t T_RUNNABLE k)))"

definition create_idle_thread :: "image_t \<Rightarrow> kernel_t \<Rightarrow> kernel_t outcome" where
  "create_idle_thread im k =
     bindF (thread_init (TID_TO_GLOBALID THREAD_IDLE) 0 k) (\<lambda>(p, k).
     let k = k\<lparr>idle := p\<rparr> in
     bindF (deref p) (\<lambda>t.
     let k = thread_init_ctx im (im_idle_stack_end im) (im_idle_thread im) t k;
         k = sched_slot_dispatch SSI_IDLE p k in
     Inr (set_state t T_RUNNABLE k)))"

text \<open>The state in which the processor enters the kernel thread.\<close>

definition switch_to_kernel :: "image_t \<Rightarrow> kernel_t \<Rightarrow> kernel_t outcome" where
  "switch_to_kernel im k = bindF (create_kernel_thread im k) (\<lambda>k. Inr (k\<lparr>current := kernel k\<rparr>))"

section \<open>Start of the system\<close>

record init_struct =
  hook_level :: u32
  hook :: "kernel_t \<Rightarrow> kernel_t outcome"

definition INIT_LEVEL_EARLIEST :: u32 where "INIT_LEVEL_EARLIEST = 1"
definition INIT_LEVEL_PLATFORM_EARLY :: u32 where "INIT_LEVEL_PLATFORM_EARLY = 0x1000"
definition INIT_LEVEL_PLATFORM :: u32 where "INIT_LEVEL_PLATFORM = 0x2000"
definition INIT_LEVEL_KERNEL_EARLY :: u32 where "INIT_LEVEL_KERNEL_EARLY = 0x3000"
definition INIT_LEVEL_KERNEL :: u32 where "INIT_LEVEL_KERNEL = 0x4000"
definition INIT_LEVEL_LAST :: u32 where "INIT_LEVEL_LAST = 0xFFFFFFFF"

lemmas init_level_defs = INIT_LEVEL_EARLIEST_def INIT_LEVEL_PLATFORM_EARLY_def INIT_LEVEL_PLATFORM_def
  INIT_LEVEL_KERNEL_EARLY_def INIT_LEVEL_KERNEL_def INIT_LEVEL_LAST_def

text \<open>The loop over the hooks, in the order of the section that the linker builds.\<close>

fun run_hooks :: "u32 \<Rightarrow> u32 \<Rightarrow> init_struct list \<Rightarrow> u32 \<Rightarrow> kernel_t \<Rightarrow> (u32 \<times> kernel_t) outcome" where
  "run_hooks last_level level [] max_called k = Inr (max_called, k)"
| "run_hooks last_level level (h # hs) max_called k =
     (if hook_level h > last_level \<and> hook_level h \<le> level
      then bindF (hook h k) (\<lambda>k. run_hooks last_level level hs (max max_called (hook_level h)) k)
      else run_hooks last_level level hs max_called k)"

text \<open>The value returned is also the new \<^verbatim>\<open>last_level\<close>.\<close>

definition run_init_hook :: "init_struct list \<Rightarrow> u32 \<Rightarrow> u32 \<Rightarrow> kernel_t \<Rightarrow> (u32 \<times> kernel_t) outcome" where
  "run_init_hook hs level last_level k = run_hooks last_level level hs last_level k"

text \<open>
  The hooks of the default configuration. \<^verbatim>\<open>memory_init\<close> also fills the memory descriptors of the
  kernel information page.
\<close>

definition register_ktable :: "kdb_table \<Rightarrow> kernel_t \<Rightarrow> kernel_t" where
  "register_ktable t k = k\<lparr>dbg := kdb_register_ktable t (dbg k)\<rparr>"

definition memory_init_hook :: "image_t \<Rightarrow> kernel_t \<Rightarrow> kernel_t outcome" where
  "memory_init_hook im k =
     bindF (memory_init (im_memmap im) (im_dev im) (im_kip im) (im_kip_extra im) (mem k))
       (\<lambda>(m, _, _). Inr (register_ktable As_table (register_ktable Fpage_table (upd_mem m k))))"

definition kdb_init :: "image_t \<Rightarrow> kernel_t \<Rightarrow> kernel_t outcome" where
  "kdb_init im k =
     dbg_puts im (''Press '' @ [CHR 0x27] @ ''?'' @ [CHR 0x27] @ '' to print KDB menu'' @ [newline])
       (softirq_register KDB_SOFTIRQ Debug_kdb_handler k)"

definition ksym_init_hook :: "image_t \<Rightarrow> kernel_t \<Rightarrow> kernel_t" where
  "ksym_init_hook im k = upd_dbg (\<lambda>d. d\<lparr>symbols := ksym_init (im_symtab im) (symbols d)\<rparr>) k"

definition kernel_hooks :: "image_t \<Rightarrow> init_struct list" where
  "kernel_hooks im =
     [\<lparr>hook_level = INIT_LEVEL_PLATFORM, hook = (\<lambda>k. Inr (dbg_device_init_hook im k))\<rparr>,
      \<lparr>hook_level = INIT_LEVEL_KERNEL, hook = thread_init_subsys im\<rparr>,
      \<lparr>hook_level = INIT_LEVEL_KERNEL, hook = ktimer_event_init\<rparr>,
      \<lparr>hook_level = INIT_LEVEL_KERNEL_EARLY, hook = (\<lambda>k. Inr (sched_init k))\<rparr>,
      \<lparr>hook_level = INIT_LEVEL_KERNEL_EARLY, hook = memory_init_hook im\<rparr>,
      \<lparr>hook_level = INIT_LEVEL_KERNEL_EARLY, hook = (\<lambda>k. Inr (ksym_init_hook im k))\<rparr>,
      \<lparr>hook_level = INIT_LEVEL_KERNEL, hook = kdb_init im\<rparr>,
      \<lparr>hook_level = INIT_LEVEL_KERNEL, hook = (\<lambda>k. Inr (kprobe_init im k))\<rparr>,
      \<lparr>hook_level = INIT_LEVEL_KERNEL, hook = (\<lambda>k. Inr (syscall_init k))\<rparr>]"

definition print_banner :: "image_t \<Rightarrow> kernel_t \<Rightarrow> kernel_t outcome" where
  "print_banner im k = bindF (l4_printf ''%s'' [Str (im_banner im)]) (\<lambda>s. put_string im s k)"

lemma io_only_banner: "print_banner im k = Inr k' \<Longrightarrow> io_only k k'"
  by (auto simp: print_banner_def dest: io_only_put_string)

text \<open>\<^verbatim>\<open>main\<close> up to the entry of the kernel thread, from the hooks \<open>hs\<close> and the level reached before.\<close>

definition main :: "image_t \<Rightarrow> init_struct list \<Rightarrow> u32 \<Rightarrow> kernel_t \<Rightarrow> kernel_t outcome" where
  "main im hs last_level k =
     bindF (run_init_hook hs INIT_LEVEL_PLATFORM_EARLY last_level k) (\<lambda>(l, k).
     bindF (run_init_hook hs INIT_LEVEL_PLATFORM l (irq_init im k)) (\<lambda>(l, k).
     bindF (print_banner im k) (\<lambda>k.
     bindF (run_init_hook hs INIT_LEVEL_KERNEL_EARLY l k) (\<lambda>(l, k).
     bindF (run_init_hook hs INIT_LEVEL_KERNEL l k) (\<lambda>(l, k).
     bindF (create_idle_thread im k) (\<lambda>k.
     bindF (create_root_thread im k) (\<lambda>k.
     bindF (ktimer_event_create 64 (Some Ipc_deliver) None k) (\<lambda>(_, k).
     let k = upd_mem (mpu_enable MPU_ENABLED (mem k)) k in
     bindF (run_init_hook hs INIT_LEVEL_LAST l k) (\<lambda>(l, k).
     switch_to_kernel im k)))))))))"

end
