(* ===== verification/F9_Thread_Map.thy ===== *)
theory F9_Thread_Map
  imports F9_Thread F9_Fpage_Spec
begin

text \<open>
  Correctness of the thread map: the binary search over the sorted array finds the place of an
  identifier, insertion and deletion keep the array sorted, and a lookup finds every thread that
  is in the map. The lookup of a thread that is not in the map reads one entry past the end.
\<close>

section \<open>Contents of the map\<close>

definition slot_tid :: "kernel_t \<Rightarrow> nat \<Rightarrow> u32" where
  "slot_tid k t = GLOBALID_TO_TID (t_globalid (tcbs k t))"

text \<open>The first entries of the array are the threads \<open>es\<close>, in the order of their identifiers.\<close>

definition map_holds :: "kernel_t \<Rightarrow> nat list \<Rightarrow> bool" where
  "map_holds k es \<longleftrightarrow> length (thread_map k) = CONFIG_MAX_THREADS \<and> thread_count k = int (length es) \<and>
     take (length es) (thread_map k) = map Some es \<and> sorted (map (slot_tid k) es)"

lemma map_holds_length: "map_holds k es \<Longrightarrow> length es \<le> CONFIG_MAX_THREADS"
  unfolding map_holds_def by (metis length_map length_take min.cobounded1)

lemma map_holds_nth: "map_holds k es \<Longrightarrow> i < length es \<Longrightarrow> thread_map k ! i = Some (es ! i)"
  unfolding map_holds_def by (metis nth_map nth_take)

lemma map_tid_holds: "map_holds k es \<Longrightarrow> i < length es \<Longrightarrow> map_tid k i = Inr (slot_tid k (es ! i))"
  using map_holds_length [of k es] map_holds_nth [of k es i]
  by (simp add: map_tid_def slot_tid_def map_holds_def)

lemma map_holds_sorted:
  "map_holds k es \<Longrightarrow> i \<le> j \<Longrightarrow> j < length es \<Longrightarrow> slot_tid k (es ! i) \<le> slot_tid k (es ! j)"
  unfolding map_holds_def using sorted_nth_mono [of "map (slot_tid k) es" i j] by simp

section \<open>The search\<close>

text \<open>Position \<open>i\<close> splits the threads into those not above and those not below \<open>tid\<close>.\<close>

definition splits_at :: "kernel_t \<Rightarrow> nat list \<Rightarrow> u32 \<Rightarrow> nat \<Rightarrow> bool" where
  "splits_at k es tid i \<longleftrightarrow> i \<le> length es \<and> (\<forall>j<i. slot_tid k (es ! j) \<le> tid) \<and>
     (\<forall>j<length es. i \<le> j \<longrightarrow> tid \<le> slot_tid k (es ! j)) \<and>
     (tid \<in> slot_tid k ` set es \<longrightarrow> i < length es \<and> slot_tid k (es ! i) = tid)"

lemma splits_at_found:
  "map_holds k es \<Longrightarrow> i < length es \<Longrightarrow> slot_tid k (es ! i) = tid \<Longrightarrow> splits_at k es tid i"
  unfolding splits_at_def by (auto intro: map_holds_sorted)

lemma splits_at_gap:
  assumes h: "map_holds k es" and "i < length es" and lo: "slot_tid k (es ! i) < tid"
    and hi: "Suc i < length es \<Longrightarrow> tid < slot_tid k (es ! Suc i)"
  shows "splits_at k es tid (Suc i)"
proof -
  have below: "slot_tid k (es ! j) < tid" if "j < Suc i" for j
    using map_holds_sorted [OF h, of j i] that assms(2) lo by auto
  have above: "tid < slot_tid k (es ! j)" if "Suc i \<le> j" "j < length es" for j
    using map_holds_sorted [OF h, of "Suc i" j] that hi by auto
  have "tid \<notin> slot_tid k ` set es"
  proof
    assume "tid \<in> slot_tid k ` set es"
    then obtain j where "j < length es" "slot_tid k (es ! j) = tid" by (auto simp: in_set_conv_nth)
    then show False using below [of j] above [of j] by (cases "j < Suc i") auto
  qed
  then show ?thesis using below above assms(2) unfolding splits_at_def by (auto intro: less_imp_le)
qed

lemma thread_map_search_loop_spec:
  assumes "map_holds k es" "from < to" "to \<le> length es" "slot_tid k (es ! from) < tid"
    "to < length es \<Longrightarrow> tid < slot_tid k (es ! to)"
  shows "\<exists>i. thread_map_search_loop k tid from to = Inr (int i) \<and> splits_at k es tid i"
  using assms
proof (induction k tid "from" to rule: thread_map_search_loop.induct)
  case (1 k tid "from" to)
  let ?mid = "from + (to - from) div 2"
  show ?case
  proof (cases "to - from \<le> 1")
    case True
    with \<open>from < to\<close> have "to = Suc from" by simp
    moreover have "splits_at k es tid (Suc from)"
      using "1.prems" \<open>to = Suc from\<close> by (intro splits_at_gap) auto
    ultimately show ?thesis
      by (intro exI [of _ "Suc from"]) (subst thread_map_search_loop.simps, simp)
  next
    case False
    then have mid: "from < ?mid" "?mid < to" by simp_all
    then have "?mid < length es" using "1.prems"(3) by simp
    note t = map_tid_holds [OF "1.prems"(1) this]
    have step: "thread_map_search_loop k tid from to =
        (if slot_tid k (es ! ?mid) > tid then thread_map_search_loop k tid from ?mid
         else if slot_tid k (es ! ?mid) < tid then thread_map_search_loop k tid ?mid to
         else Inr (int ?mid))"
      using False \<open>from < to\<close> t by (subst thread_map_search_loop.simps) (simp add: Let_def)
    consider "slot_tid k (es ! ?mid) > tid" | "slot_tid k (es ! ?mid) < tid" | "slot_tid k (es ! ?mid) = tid"
      by fastforce
    then show ?thesis
    proof cases
      case 1
      have "\<exists>i. thread_map_search_loop k tid from ?mid = Inr (int i) \<and> splits_at k es tid i"
        using "1.IH"(1) [OF _ refl False t 1] "1.prems" mid 1 by (auto simp: not_le)
      then show ?thesis using 1 step by simp
    next
      case 2
      have "\<exists>i. thread_map_search_loop k tid ?mid to = Inr (int i) \<and> splits_at k es tid i"
        using "1.IH"(2) [OF _ refl False t _ 2] "1.prems" mid 2 by (auto simp: not_le)
      moreover from 2 have "\<not> tid < slot_tid k (es ! ?mid)" by simp
      ultimately show ?thesis unfolding step using 2 by (simp only: if_False if_True)
    next
      case 3
      then show ?thesis using step splits_at_found [OF "1.prems"(1) \<open>?mid < length es\<close>]
        by (intro exI [of _ ?mid]) simp
    qed
  qed
qed

lemma thread_map_search_spec:
  assumes "map_holds k es"
  obtains i where "thread_map_search k g 0 (nat (thread_count k)) = Inr (int i)"
    "splits_at k es (GLOBALID_TO_TID g) i"
proof -
  have n: "nat (thread_count k) = length es" using assms by (simp add: map_holds_def)
  let ?tid = "GLOBALID_TO_TID g"
  have "\<exists>i. thread_map_search k g 0 (length es) = Inr (int i) \<and> splits_at k es ?tid i"
  proof (cases "es = []")
    case True
    then show ?thesis by (simp add: thread_map_search_def splits_at_def)
  next
    case False
    then have t: "map_tid k 0 = Inr (slot_tid k (es ! 0))" using map_tid_holds [OF assms] by simp
    show ?thesis
    proof (cases "slot_tid k (es ! 0) \<ge> ?tid")
      case True
      have "splits_at k es ?tid 0"
      proof -
        have "?tid \<le> slot_tid k (es ! j)" if "j < length es" for j
          using map_holds_sorted [OF assms, of 0 j] that True by simp
        moreover have "slot_tid k (es ! 0) = ?tid" if "?tid \<in> slot_tid k ` set es"
          using that True map_holds_sorted [OF assms, of 0] by (force simp: in_set_conv_nth)
        ultimately show ?thesis using False by (auto simp: splits_at_def)
      qed
      then show ?thesis using False True t by (simp add: thread_map_search_def)
    next
      case lt: False
      then show ?thesis using False t thread_map_search_loop_spec [OF assms, of 0 "length es" ?tid]
        by (simp add: thread_map_search_def)
    qed
  qed
  then show thesis using that n by auto
qed

section \<open>Insertion and deletion\<close>

lemma shift_up_spec:
  assumes "n < length xs"
  shows "\<exists>ys. shift_up i n xs = Inr ys \<and> length ys = length xs \<and>
    (\<forall>j. ys ! j = (if i < j \<and> j \<le> n then xs ! (j - 1) else xs ! j))"
  using assms
proof (induction n arbitrary: xs)
  case (Suc n)
  show ?case
  proof (cases "i < Suc n")
    case True
    let ?xs = "xs[Suc n := xs ! n]"
    obtain ys where ys: "shift_up i n ?xs = Inr ys" "length ys = length xs"
      "\<forall>j. ys ! j = (if i < j \<and> j \<le> n then ?xs ! (j - 1) else ?xs ! j)"
      using Suc.IH [of ?xs] Suc.prems by auto
    have "ys ! j = (if i < j \<and> j \<le> Suc n then xs ! (j - 1) else xs ! j)" for j
      using ys(3) True Suc.prems by (auto simp: nth_list_update le_Suc_eq)
    then show ?thesis using ys True Suc.prems by auto
  next
    case False
    then show ?thesis by (intro exI [of _ xs]) auto
  qed
next
  case 0
  then show ?case by (intro exI [of _ xs]) auto
qed

lemma shift_down_spec:
  assumes "n < length xs"
  shows "\<exists>ys. shift_down i n xs = Inr ys \<and> length ys = length xs \<and>
    (\<forall>j. ys ! j = (if i \<le> j \<and> j < n then xs ! Suc j else xs ! j))"
  using assms
proof (induction i n xs rule: shift_down.induct)
  case (1 i n xs)
  show ?case
  proof (cases "i < n")
    case True
    let ?xs = "xs[i := xs ! Suc i]"
    obtain ys where ys: "shift_down (Suc i) n ?xs = Inr ys" "length ys = length xs"
      "\<forall>j. ys ! j = (if Suc i \<le> j \<and> j < n then ?xs ! Suc j else ?xs ! j)"
      using "1.IH" [OF True, of "xs ! Suc i" ?xs] "1.prems" True by auto
    have "ys ! j = (if i \<le> j \<and> j < n then xs ! Suc j else xs ! j)" for j
      using ys(3) True "1.prems" by (auto simp: nth_list_update Suc_le_eq)
    moreover have "shift_down i n xs = shift_down (Suc i) n ?xs"
      using True "1.prems" by (subst shift_down.simps) simp
    ultimately show ?thesis using ys by auto
  qed (subst shift_down.simps, auto)
qed

definition insert_at :: "nat \<Rightarrow> 'a \<Rightarrow> 'a list \<Rightarrow> 'a list" where
  "insert_at i x xs = take i xs @ x # drop i xs"

definition remove_at :: "nat \<Rightarrow> 'a list \<Rightarrow> 'a list" where
  "remove_at i xs = take i xs @ drop (Suc i) xs"

lemma length_insert_at [simp]: "length (insert_at i x xs) = Suc (length xs)"
  by (simp add: insert_at_def)

lemma nth_insert_at:
  "i \<le> length xs \<Longrightarrow> j \<le> length xs \<Longrightarrow>
    insert_at i x xs ! j = (if j < i then xs ! j else if j = i then x else xs ! (j - 1))"
  by (auto simp: insert_at_def nth_append nth_Cons' min_def)

lemma set_insert_at [simp]: "set (insert_at i x xs) = insert x (set xs)"
  by (metis insert_at_def Un_insert_right append_take_drop_id list.simps(15) set_append)

lemma length_remove_at [simp]: "i < length xs \<Longrightarrow> length (remove_at i xs) = length xs - 1"
  by (simp add: remove_at_def)

lemma nth_remove_at:
  "i < length xs \<Longrightarrow> Suc j < length xs \<Longrightarrow> remove_at i xs ! j = (if j < i then xs ! j else xs ! Suc j)"
  by (auto simp: remove_at_def nth_append min_def)

lemma sorted_remove_at: "sorted (map f xs) \<Longrightarrow> sorted (map f (remove_at i xs))"
proof -
  assume s: "sorted (map f xs)"
  have "set (drop (Suc i) xs) \<subseteq> set (drop i xs)" by (simp add: set_drop_subset_set_drop)
  moreover have "sorted (map f (take i xs) @ map f (drop i xs))"
    using s by (simp flip: map_append)
  ultimately show ?thesis
    using s sorted_wrt_drop [of "(\<le>)" "map f xs" "Suc i"]
    by (auto simp: remove_at_def sorted_append drop_map)
qed

lemma sorted_insert_at:
  assumes "sorted (map (slot_tid k) es)" "splits_at k es (slot_tid k t) i"
  shows "sorted (map (slot_tid k) (insert_at i t es))"
proof -
  have "\<forall>x\<in>set (take i es). slot_tid k x \<le> slot_tid k t" "\<forall>x\<in>set (drop i es). slot_tid k t \<le> slot_tid k x"
    using assms(2) by (auto simp: splits_at_def in_set_conv_nth)
  moreover have "sorted (map (slot_tid k) (take i es))" "sorted (map (slot_tid k) (drop i es))"
    using assms(1) by (simp_all flip: take_map drop_map add: sorted_wrt_take sorted_wrt_drop)
  ultimately show ?thesis
    by (auto simp: insert_at_def sorted_append dest: order_trans)
qed

lemma take_map_Some:
  "n = length es \<Longrightarrow> n \<le> length xs \<Longrightarrow> (\<And>j. j < n \<Longrightarrow> xs ! j = Some (es ! j)) \<Longrightarrow> take n xs = map Some es"
  by (rule nth_equalityI) auto

lemma thread_map_insert_spec:
  assumes h: "map_holds k es" and room: "length es < CONFIG_MAX_THREADS"
  obtains i xs where
    "thread_map_insert g t k = Inr (k\<lparr>thread_map := xs, thread_count := int (Suc (length es))\<rparr>)"
    "splits_at k es (GLOBALID_TO_TID g) i" "length xs = CONFIG_MAX_THREADS"
    "take (Suc (length es)) xs = map Some (insert_at i t es)"
proof (cases "es = []")
  case True
  then have "thread_count k = 0" "0 < length (thread_map k)" "splits_at k es (GLOBALID_TO_TID g) 0"
    using h room by (simp_all add: map_holds_def splits_at_def)
  then show thesis
    using that [of "(thread_map k)[0 := Some t]" 0] h True
    by (cases "thread_map k") (simp_all add: thread_map_insert_def map_holds_def insert_at_def)
next
  case False
  let ?n = "length es"
  have len: "length (thread_map k) = CONFIG_MAX_THREADS" and n: "thread_count k = int ?n"
    using h by (simp_all add: map_holds_def)
  obtain i where i: "thread_map_search k g 0 ?n = Inr (int i)" "splits_at k es (GLOBALID_TO_TID g) i"
    using thread_map_search_spec [OF h] n by (metis nat_int)
  then have "i \<le> ?n" by (simp add: splits_at_def)
  obtain ys where ys: "shift_up i ?n (thread_map k) = Inr ys" "length ys = CONFIG_MAX_THREADS"
    "\<forall>j. ys ! j = (if i < j \<and> j \<le> ?n then thread_map k ! (j - 1) else thread_map k ! j)"
    using shift_up_spec [of ?n "thread_map k" i] len room by metis
  have "take (Suc ?n) (ys[i := Some t]) = map Some (insert_at i t es)"
    using \<open>i \<le> ?n\<close> ys(2,3) room map_holds_nth [OF h]
    by (intro take_map_Some) (auto simp: nth_list_update nth_insert_at)
  then show thesis
    using that [of "ys[i := Some t]" i] i ys(1,2) n False \<open>i \<le> ?n\<close> room
    by (simp add: thread_map_insert_def)
qed

text \<open>Deleting an identifier that is in the map removes an entry that carries it.\<close>

lemma thread_map_delete_spec:
  assumes h: "map_holds k es" and t: "GLOBALID_TO_TID g \<in> slot_tid k ` set es"
  obtains i xs where
    "thread_map_delete g k = Inr (k\<lparr>thread_map := xs, thread_count := int (length es - 1)\<rparr>)"
    "i < length es" "slot_tid k (es ! i) = GLOBALID_TO_TID g" "length xs = CONFIG_MAX_THREADS"
    "take (length es - 1) xs = map Some (remove_at i es)" "xs ! (length es - 1) = Some (last es)"
proof -
  let ?n = "length es"
  have len: "length (thread_map k) = CONFIG_MAX_THREADS" and n: "thread_count k = int ?n"
    using h by (simp_all add: map_holds_def)
  from t have "es \<noteq> []" by auto
  then have last: "thread_map k ! (?n - 1) = Some (last es)"
    using map_holds_nth [OF h, of "?n - 1"] by (simp add: last_conv_nth)
  obtain i where i: "thread_map_search k g 0 ?n = Inr (int i)" "splits_at k es (GLOBALID_TO_TID g) i"
    using thread_map_search_spec [OF h] n by (metis nat_int)
  then have "i < ?n" "slot_tid k (es ! i) = GLOBALID_TO_TID g" using t by (auto simp: splits_at_def)
  show thesis
  proof (cases "?n = 1")
    case True
    have "k\<lparr>thread_count := 0\<rparr> = k\<lparr>thread_map := thread_map k, thread_count := int (?n - 1)\<rparr>"
      using True by simp
    then show thesis
      using that [of "thread_map k" i] True n len last \<open>i < ?n\<close> \<open>slot_tid k (es ! i) = _\<close>
      by (simp add: thread_map_delete_def remove_at_def)
  next
    case False
    have lt: "?n - 1 < length (thread_map k)"
      using len map_holds_length [OF h] \<open>es \<noteq> []\<close> by (cases es) auto
    obtain ys where ys: "shift_down i (?n - 1) (thread_map k) = Inr ys" "length ys = CONFIG_MAX_THREADS"
      "\<forall>j. ys ! j = (if i \<le> j \<and> j < ?n - 1 then thread_map k ! Suc j else thread_map k ! j)"
      using shift_down_spec [OF lt, of i] len by metis
    have "take (?n - 1) ys = map Some (remove_at i es)"
      using \<open>i < ?n\<close> ys(2,3) lt len map_holds_nth [OF h]
      by (intro take_map_Some) (auto simp: nth_remove_at)
    moreover have "thread_map_delete g k = Inr (k\<lparr>thread_map := ys, thread_count := int (?n - 1)\<rparr>)"
    proof -
      have "int ?n - 1 = int (?n - 1)" "int ?n \<noteq> 1" using \<open>i < ?n\<close> False by auto
      then show ?thesis by (simp only: thread_map_delete_def n nat_int i(1) ys(1) if_False bindF_simps)
    qed
    moreover have "ys ! (?n - 1) = Some (last es)" using ys(3) last by simp
    ultimately show thesis using that \<open>i < ?n\<close> \<open>slot_tid k (es ! i) = _\<close> ys(2) by metis
  qed
qed

section \<open>Lookup\<close>

lemma thread_by_globalid_present:
  assumes h: "map_holds k es" and t: "GLOBALID_TO_TID g \<in> slot_tid k ` set es"
  obtains t where "thread_by_globalid k g = Inr (Some t)" "t \<in> set es" "slot_tid k t = GLOBALID_TO_TID g"
proof -
  obtain i where i: "thread_map_search k g 0 (nat (thread_count k)) = Inr (int i)"
    "splits_at k es (GLOBALID_TO_TID g) i"
    using thread_map_search_spec [OF h] by metis
  with t have i': "i < length es" "slot_tid k (es ! i) = GLOBALID_TO_TID g" by (auto simp: splits_at_def)
  then have "thread_by_globalid k g = Inr (Some (es ! i))"
    using i(1) map_tid_holds [OF h i'(1)] map_holds_nth [OF h i'(1)] h map_holds_length [OF h]
    by (simp add: thread_by_globalid_def map_holds_def)
  then show thesis using that i' by auto
qed

section \<open>Threads in the table and in the map\<close>

text \<open>The map lists exactly the allocated thread control blocks.\<close>

definition threads_ok :: "kernel_t \<Rightarrow> nat list \<Rightarrow> bool" where
  "threads_ok k es \<longleftrightarrow> map_holds k es \<and> distinct es \<and> set es = ktable_used (thread_table k) \<and>
     ktable_ok (thread_table k) \<and> ktable_cap (thread_table k) = CONFIG_MAX_THREADS"

lemma map_holds_cong:
  assumes "thread_map k' = thread_map k" "thread_count k' = thread_count k"
    "\<And>t. t \<in> set es \<Longrightarrow> slot_tid k' t = slot_tid k t"
  shows "map_holds k' es = map_holds k es"
proof -
  have "map (slot_tid k') es = map (slot_tid k) es" using assms(3) by simp
  then show ?thesis using assms(1,2) by (simp only: map_holds_def)
qed

lemma splits_at_cong:
  "(\<And>t. t \<in> set es \<Longrightarrow> slot_tid k' t = slot_tid k t) \<Longrightarrow> splits_at k' es tid i = splits_at k es tid i"
  unfolding splits_at_def by (simp add: image_def cong: conj_cong)

lemma threads_ok_full: "threads_ok k es \<Longrightarrow> length es = card (ktable_used (thread_table k))"
  unfolding threads_ok_def by (metis distinct_card)

text \<open>A new thread, with the fields that \<^verbatim>\<open>thread_init\<close> sets; the others keep their stale values.\<close>

definition init_tcb :: "u32 \<Rightarrow> memptr \<Rightarrow> tcb_t \<Rightarrow> tcb_t" where
  "init_tcb globalid utcb t =
     t\<lparr>t_localid := 0, t_child := None, t_parent := None, t_sibling := None, t_globalid := globalid,
       t_as := None, t_utcb := utcb, t_state := T_INACTIVE\<rparr>"

definition init_ram :: "u32 \<Rightarrow> memptr \<Rightarrow> (memptr \<Rightarrow> u32) \<Rightarrow> memptr \<Rightarrow> u32" where
  "init_ram globalid utcb r = (if utcb \<noteq> 0 then r(utcb + UTCB_globalid := globalid) else r)"

lemma thread_init_spec:
  assumes ok: "threads_ok k es" and room: "length es < CONFIG_MAX_THREADS"
  obtains t i kt xs where
    "thread_init g u k = Inr (Some t, k\<lparr>thread_table := kt, thread_map := xs,
       thread_count := int (Suc (length es)), tcbs := (tcbs k)(t := init_tcb g u (tcbs k t)),
       ram := init_ram g u (ram k)\<rparr>)"
    "t \<notin> set es" "t < CONFIG_MAX_THREADS" "splits_at k es (GLOBALID_TO_TID g) i"
    "ktable_ok kt" "ktable_cap kt = CONFIG_MAX_THREADS" "ktable_used kt = insert t (set es)"
    "length xs = CONFIG_MAX_THREADS" "take (Suc (length es)) xs = map Some (insert_at i t es)"
proof -
  have kt: "ktable_ok (thread_table k)" "ktable_cap (thread_table k) = CONFIG_MAX_THREADS"
    "ktable_used (thread_table k) = set es" and h: "map_holds k es"
    using ok by (simp_all add: threads_ok_def)
  have card: "card (ktable_used (thread_table k)) < ktable_cap (thread_table k)"
    using threads_ok_full [OF ok] room kt(2) by simp
  obtain t kt' where a: "ktable_alloc_slot (thread_table k) = Inr (Some t, kt')"
    "t < ktable_cap (thread_table k)" "t \<notin> ktable_used (thread_table k)"
    "ktable_used kt' = insert t (ktable_used (thread_table k))" "ktable_ok kt'"
    "ktable_cap kt' = ktable_cap (thread_table k)"
    by (rule kt.alloc_room [OF kt(1) card]) blast
  let ?k = "k\<lparr>thread_table := kt'\<rparr>"
  have h': "map_holds ?k es" using h map_holds_cong [of ?k k es] by (simp add: slot_tid_def)
  obtain i xs where ins: "thread_map_insert g t ?k =
      Inr (?k\<lparr>thread_map := xs, thread_count := int (Suc (length es))\<rparr>)"
    and i: "splits_at ?k es (GLOBALID_TO_TID g) i" "length xs = CONFIG_MAX_THREADS"
      "take (Suc (length es)) xs = map Some (insert_at i t es)"
    using thread_map_insert_spec [OF h' room, where g = g and t = t] by metis
  have "splits_at k es (GLOBALID_TO_TID g) i" using i(1) by (simp add: splits_at_def slot_tid_def)
  moreover have "thread_init g u k = Inr (Some t, k\<lparr>thread_table := kt', thread_map := xs,
       thread_count := int (Suc (length es)), tcbs := (tcbs k)(t := init_tcb g u (tcbs k t)),
       ram := init_ram g u (ram k)\<rparr>)"
    unfolding thread_init_def a(1) bindF_simps prod.case option.case ins
    by (simp add: upd_tcb_def write_ram_def init_tcb_def init_ram_def Let_def)
  ultimately show thesis using that i(2,3) a kt by metis
qed

lemma thread_init_ok:
  assumes ok: "threads_ok k es" and room: "length es < CONFIG_MAX_THREADS"
  obtains t i k' where "thread_init g u k = Inr (Some t, k')" "t \<notin> set es" "t < CONFIG_MAX_THREADS"
    "tcbs k' = (tcbs k)(t := init_tcb g u (tcbs k t))" "threads_ok k' (insert_at i t es)"
    "caller k' = caller k"
proof -
  obtain t i kt xs where init: "thread_init g u k = Inr (Some t, k\<lparr>thread_table := kt, thread_map := xs,
       thread_count := int (Suc (length es)), tcbs := (tcbs k)(t := init_tcb g u (tcbs k t)),
       ram := init_ram g u (ram k)\<rparr>)"
    and t: "t \<notin> set es" "splits_at k es (GLOBALID_TO_TID g) i" "t < CONFIG_MAX_THREADS"
    and kt: "ktable_ok kt" "ktable_cap kt = CONFIG_MAX_THREADS" "ktable_used kt = insert t (set es)"
    and xs: "length xs = CONFIG_MAX_THREADS" "take (Suc (length es)) xs = map Some (insert_at i t es)"
    using thread_init_spec [OF ok room, where g = g and u = u] by metis
  let ?k = "k\<lparr>thread_table := kt, thread_map := xs, thread_count := int (Suc (length es)),
     tcbs := (tcbs k)(t := init_tcb g u (tcbs k t)), ram := init_ram g u (ram k)\<rparr>"
  have tids: "slot_tid ?k s = slot_tid k s" if "s \<in> set es" for s
    using that t by (auto simp: slot_tid_def)
  have tid: "slot_tid ?k t = GLOBALID_TO_TID g" by (simp add: slot_tid_def init_tcb_def)
  have le: "i \<le> length es" using t(2) by (simp add: splits_at_def)
  have "splits_at ?k es (slot_tid ?k t) i" using splits_at_cong [OF tids] t(2) tid by metis
  moreover have "map (slot_tid ?k) es = map (slot_tid k) es" using tids by simp
  then have "sorted (map (slot_tid ?k) es)" using ok by (simp only: threads_ok_def map_holds_def)
  ultimately have "sorted (map (slot_tid ?k) (insert_at i t es))" by (intro sorted_insert_at)
  then have h: "map_holds ?k (insert_at i t es)" using xs le by (simp add: map_holds_def)
  have "distinct (insert_at i t es)"
    using ok t(1) by (auto simp: insert_at_def threads_ok_def set_take_disj_set_drop_if_distinct
        dest: in_set_takeD in_set_dropD)
  then have "threads_ok ?k (insert_at i t es)" using h kt by (simp add: threads_ok_def)
  then show thesis using that [OF init t(1,3)] by simp
qed

lemma remove_at_remove1: "distinct es \<Longrightarrow> i < length es \<Longrightarrow> remove_at i es = remove1 (es ! i) es"
proof (induction es arbitrary: i)
  case (Cons e es)
  then show ?case by (cases i) (auto simp: remove_at_def)
qed simp

lemma thread_deinit_spec:
  assumes ok: "threads_ok k es" and t: "t \<in> set es" and inj: "inj_on (slot_tid k) (set es)"
  obtains k' where "thread_deinit t k = Inr k'" "threads_ok k' (remove1 t es)" "tcbs k' = tcbs k"
    "thread_map k' ! (length es - 1) = Some (last es)"
proof -
  have h: "map_holds k es" "distinct es" and kt: "ktable_ok (thread_table k)"
    "ktable_cap (thread_table k) = CONFIG_MAX_THREADS" "ktable_used (thread_table k) = set es"
    using ok by (simp_all add: threads_ok_def)
  have gt: "GLOBALID_TO_TID (t_globalid (tcbs k t)) = slot_tid k t" by (simp add: slot_tid_def)
  obtain i xs where del: "thread_map_delete (t_globalid (tcbs k t)) k =
      Inr (k\<lparr>thread_map := xs, thread_count := int (length es - 1)\<rparr>)"
    and i: "i < length es" "slot_tid k (es ! i) = slot_tid k t" and len: "length xs = CONFIG_MAX_THREADS"
    and xs: "take (length es - 1) xs = map Some (remove_at i es)" "xs ! (length es - 1) = Some (last es)"
    using thread_map_delete_spec [OF h(1), of "t_globalid (tcbs k t)", unfolded gt, OF imageI [OF t]] by metis
  have "es ! i = t" using inj_onD [OF inj i(2)] i(1) t by simp
  then have rem: "remove_at i es = remove1 t es" using remove_at_remove1 [OF h(2) i(1)] by simp
  have "t < ktable_cap (thread_table k)" using kt.used_bound [OF kt(1)] kt(3) t by auto
  then obtain kt' where f: "ktable_free_slot (thread_table k) t = Inr kt'" "ktable_used kt' = set es - {t}"
    "ktable_ok kt'" "ktable_cap kt' = CONFIG_MAX_THREADS"
    using kt.free_slot [OF kt(1), of t] kt(2,3) by auto
  let ?k = "k\<lparr>thread_map := xs, thread_count := int (length es - 1), thread_table := kt'\<rparr>"
  have "slot_tid ?k = slot_tid k" by (simp add: slot_tid_def [abs_def])
  then have "sorted (map (slot_tid ?k) (remove1 t es))"
    using sorted_remove_at [of "slot_tid k" es i] h(1) rem by (simp add: map_holds_def)
  then have "map_holds ?k (remove1 t es)" using xs(1) len rem t by (simp add: map_holds_def length_remove1)
  then have "threads_ok ?k (remove1 t es)" using h(2) f by (simp add: threads_ok_def)
  moreover have "thread_deinit t k = Inr ?k" using del f(1) by (simp add: thread_deinit_def)
  ultimately show thesis using that [of ?k] xs(2) by simp
qed

text \<open>An identifier above all those in the map: the search ends one past the last entry.\<close>

lemma thread_map_search_above:
  assumes h: "map_holds k es" and above: "\<And>s. s \<in> set es \<Longrightarrow> slot_tid k s < GLOBALID_TO_TID g"
  shows "thread_map_search k g 0 (nat (thread_count k)) = Inr (int (length es))"
proof -
  obtain i where i: "thread_map_search k g 0 (nat (thread_count k)) = Inr (int i)"
    "splits_at k es (GLOBALID_TO_TID g) i"
    using thread_map_search_spec [OF h] by metis
  have "\<not> i < length es"
  proof
    assume "i < length es"
    then have "GLOBALID_TO_TID g \<le> slot_tid k (es ! i)" using i(2) by (simp add: splits_at_def)
    then show False using above [of "es ! i"] \<open>i < length es\<close> by simp
  qed
  then show ?thesis using i by (simp add: splits_at_def)
qed

section \<open>A state with five threads\<close>

text \<open>
  The three system threads and two children of the root thread; used for concrete runs. Slots 0
  to 4 are the root, kernel and idle threads and the user threads 256 and 257.
\<close>

definition demo_tcb :: "u32 \<Rightarrow> thread_state_t \<Rightarrow> ptr \<Rightarrow> ptr \<Rightarrow> ptr \<Rightarrow> tcb_t" where
  "demo_tcb tid st parent sibling child =
     \<lparr>t_globalid = TID_TO_GLOBALID tid, t_localid = 0, t_state = st, stack_base = 0, stack_size = 0,
      ctx = \<lparr>ctx_sp = 0x20004000 + 0x100 * tid, ctx_ret = 0, ctx_ctl = 0, ctx_regs = replicate 8 0\<rparr>,
      t_as = None, t_utcb = 0x20008000 + 0x80 * tid, ipc_from = 0, t_sibling = sibling,
      t_parent = parent, t_child = child\<rparr>"

definition demo_kernel :: kernel_t where
  "demo_kernel =
     \<lparr>mem = demo_mem,
      thread_table = (DECLARE_KTABLE ''thread_table'' 0x20000400 96 CONFIG_MAX_THREADS)\<lparr>bitmap := [0x1F]\<rparr>,
      tcbs = (\<lambda>i. if i = 0 then demo_tcb 2 T_RECV_BLOCKED None None (Some 3)
                  else if i = 1 then demo_tcb 1 T_INACTIVE None None None
                  else if i = 2 then demo_tcb 0 T_RUNNABLE None None None
                  else if i = 3 then demo_tcb 256 T_RECV_BLOCKED (Some 0) (Some 4) None
                  else if i = 4 then demo_tcb 257 T_RUNNABLE (Some 0) None None
                  else demo_tcb 0 T_INACTIVE None None None),
      thread_map = [Some 2, Some 1, Some 0, Some 3, Some 4] @ replicate 27 None,
      thread_count = 5, current = Some 4, current_utcb = 0, caller = Some 0,
      idle = Some 2, kernel = Some 1, root = Some 0,
      slots = replicate NUM_SCHED_SLOTS \<lparr>ss_scheduled = None, ss_handler = None\<rparr>,
      softirq = replicate NR_SOFTIRQ \<lparr>si_schedule = 0, si_handler = None\<rparr>,
      ktimer = \<lparr>ktimer_event_table = DECLARE_KTABLE ''ktimer_event_table'' 0x20002000 16 CONFIG_MAX_KT_EVENTS,
                kt_events = (\<lambda>_. \<lparr>ev_next = None, ev_handler = Ipc_timeout, ev_delta = 0, ev_data = None\<rparr>),
                event_queue = None, ktimer_now = 0, ktimer_enabled = 0, ktimer_delta = 0, ktimer_time = 0\<rparr>,
      kip_fpage = None, kip_extra_fpage = None,
      kip_thread_info = \<lparr>user_base = 0, system_base = 0\<rparr>, ram = (\<lambda>_. 0), dbg = debug_reset\<rparr>"

text \<open>An image at the concrete link addresses, whose devices read as 0.\<close>

definition demo_image :: image_t where
  "demo_image =
     \<lparr>im_memmap = memmap demo_link, im_dev = (\<lambda>_ _. 0), im_kip = 0x20000000, im_kip_extra = 0x20000100,
      im_root_utcb = 0x20000180, im_text = (\<lambda>_. 6), im_root_stack_start = 0x20003000,
      im_root_stack_end = 0x20003400, im_kernel_stack_end = 0x20003800, im_idle_stack_end = 0x20003A00,
      im_root_thread = 0x08010000, im_idle_thread = 0x08000400,
      im_symtab = \<lparr>symtab_magic = 0, symtab_count = 0, symtab_tbl = [], symtab_strings = []\<rparr>, im_banner = [],
      im_bitmap_addr = (\<lambda>_. 0x10000000), im_ktimer_handler = 0x08000801\<rparr>"

lemma bit_0x1F: "bit (0x1F :: u32) n \<longleftrightarrow> n < 5"
proof -
  have "(0x1F :: u32) = mask 5" by (simp add: mask_eq_exp_minus_1)
  moreover have "bit (mask 5 :: u32) n \<longleftrightarrow> n < 5" by (auto simp: bit_mask_iff simp del: mask_numeral)
  ultimately show ?thesis by argo
qed

lemma demo_kernel_ok: "threads_ok demo_kernel [2, 1, 0, 3, 4]"
proof -
  have "ktable_used (thread_table demo_kernel) = {0, 1, 2, 3, 4}"
    by (auto simp: ktable_used_def demo_kernel_def DECLARE_KTABLE_def CONFIG_MAX_THREADS_def bm_has_def
        bit_0x1F simp del: bit_numeral_word_iff)
  moreover have "ktable_ok (thread_table demo_kernel)" "ktable_cap (thread_table demo_kernel) = CONFIG_MAX_THREADS"
    by (simp_all add: ktable_ok_def ktable_cap_def demo_kernel_def DECLARE_KTABLE_def CONFIG_MAX_THREADS_def
        bm_room_def)
  moreover have "map_holds demo_kernel [2, 1, 0, 3, 4]"
    by (simp add: map_holds_def demo_kernel_def CONFIG_MAX_THREADS_def slot_tid_def demo_tcb_def
        GLOBALID_TO_TID_def TID_TO_GLOBALID_def)
  ultimately show ?thesis by (auto simp: threads_ok_def)
qed

section \<open>Properties\<close>

text \<open>
  C11: creating a thread control block for an identifier that is not in use takes a free slot,
  sets its identifier and leaves every other block alone; the thread map stays sorted and lists
  exactly the allocated blocks, and a lookup of the identifier finds the new thread.
\<close>

theorem thread_init_registers:
  assumes ok: "threads_ok k es" and room: "length es < CONFIG_MAX_THREADS"
    and new: "GLOBALID_TO_TID g \<notin> slot_tid k ` set es"
  shows "\<exists>t k' i. thread_init g u k = Inr (Some t, k') \<and> t \<notin> set es \<and>
    tcbs k' = (tcbs k)(t := init_tcb g u (tcbs k t)) \<and> threads_ok k' (insert_at i t es) \<and>
    thread_by_globalid k' g = Inr (Some t)"
proof -
  obtain t i k' where init: "thread_init g u k = Inr (Some t, k')" "t \<notin> set es"
    "tcbs k' = (tcbs k)(t := init_tcb g u (tcbs k t))" "threads_ok k' (insert_at i t es)"
    using thread_init_ok [OF ok room, where g = g and u = u] by metis
  have tids: "slot_tid k' s = slot_tid k s" if "s \<in> set es" for s
    using that init(2,3) by (auto simp: slot_tid_def)
  have tid: "slot_tid k' t = GLOBALID_TO_TID g" using init(3) by (simp add: slot_tid_def init_tcb_def)
  have h: "map_holds k' (insert_at i t es)" using init(4) by (simp add: threads_ok_def)
  obtain s where s: "thread_by_globalid k' g = Inr (Some s)" "s \<in> set (insert_at i t es)"
    "slot_tid k' s = GLOBALID_TO_TID g"
    using thread_by_globalid_present [OF h, of g] tid by (metis image_eqI insertI1 set_insert_at)
  then have "s = t" using new tids by (metis image_eqI insertE set_insert_at)
  with s init show ?thesis by blast
qed

theorem thread_init_registers_witness:
  "\<exists>t k' i. thread_init (TID_TO_GLOBALID 300) 0x20010000 demo_kernel = Inr (Some t, k') \<and>
     threads_ok k' (insert_at i t [2, 1, 0, 3, 4]) \<and>
     thread_by_globalid k' (TID_TO_GLOBALID 300) = Inr (Some t)"
proof -
  have "GLOBALID_TO_TID (TID_TO_GLOBALID 300) \<notin> slot_tid demo_kernel ` set [2, 1, 0, 3, 4]"
    by (simp add: slot_tid_def demo_kernel_def demo_tcb_def GLOBALID_TO_TID_def TID_TO_GLOBALID_def)
  moreover have "length [2 :: nat, 1, 0, 3, 4] < CONFIG_MAX_THREADS" by (simp add: CONFIG_MAX_THREADS_def)
  ultimately show ?thesis
    using thread_init_registers [OF demo_kernel_ok, where g = "TID_TO_GLOBALID 300" and u = "0x20010000"]
    by blast
qed

text \<open>
  C15: releasing a thread control block removes exactly its thread from the map and from the table,
  and each other thread is still found under its identifier.
\<close>

theorem thread_deinit_unregisters:
  assumes ok: "threads_ok k es" and t: "t \<in> set es" and inj: "inj_on (slot_tid k) (set es)"
  shows "\<exists>k'. thread_deinit t k = Inr k' \<and> threads_ok k' (remove1 t es) \<and> tcbs k' = tcbs k \<and>
    (\<forall>s\<in>set es - {t}. thread_by_globalid k' (t_globalid (tcbs k s)) = Inr (Some s))"
proof -
  obtain k' where k': "thread_deinit t k = Inr k'" "threads_ok k' (remove1 t es)" "tcbs k' = tcbs k"
    using thread_deinit_spec [OF assms] by metis
  have h: "map_holds k' (remove1 t es)" and d: "distinct es"
    using k'(2) ok by (simp_all add: threads_ok_def)
  have "thread_by_globalid k' (t_globalid (tcbs k s)) = Inr (Some s)" if s: "s \<in> set es - {t}" for s
  proof -
    have "GLOBALID_TO_TID (t_globalid (tcbs k s)) \<in> slot_tid k' ` set (remove1 t es)"
      using s d k'(3) by (auto simp: slot_tid_def)
    then obtain r where r: "thread_by_globalid k' (t_globalid (tcbs k s)) = Inr (Some r)" "r \<in> set (remove1 t es)"
      "slot_tid k' r = GLOBALID_TO_TID (t_globalid (tcbs k s))"
      using thread_by_globalid_present [OF h] by metis
    then have "slot_tid k r = slot_tid k s" "r \<in> set es" using d k'(3) by (auto simp: slot_tid_def)
    with s have "r = s" using inj_onD [OF inj] by auto
    with r show ?thesis by simp
  qed
  with k' show ?thesis by blast
qed

lemma demo_kernel_inj: "inj_on (slot_tid demo_kernel) (set [2, 1, 0, 3, 4])"
  by (simp add: slot_tid_def demo_kernel_def demo_tcb_def GLOBALID_TO_TID_def TID_TO_GLOBALID_def)

theorem thread_deinit_unregisters_witness:
  "\<exists>k'. thread_deinit 0 demo_kernel = Inr k' \<and> threads_ok k' [2, 1, 3, 4] \<and>
     thread_by_globalid k' (TID_TO_GLOBALID 257) = Inr (Some 4)"
proof -
  have g: "t_globalid (tcbs demo_kernel 4) = TID_TO_GLOBALID 257" by (simp add: demo_kernel_def demo_tcb_def)
  have "0 \<in> set [2, 1, 0, 3, 4 :: nat]" and four: "4 \<in> set [2, 1, 0, 3, 4 :: nat] - {0}" by simp_all
  then obtain k' where k': "thread_deinit 0 demo_kernel = Inr k'" "threads_ok k' (remove1 0 [2, 1, 0, 3, 4])"
    "\<forall>s\<in>set [2, 1, 0, 3, 4] - {0}. thread_by_globalid k' (t_globalid (tcbs demo_kernel s)) = Inr (Some s)"
    using thread_deinit_unregisters [OF demo_kernel_ok _ demo_kernel_inj, of 0] by blast
  have "remove1 0 [2, 1, 0, 3, 4 :: nat] = [2, 1, 3, 4]" by simp
  then show ?thesis using k'(1,2) bspec [OF k'(3) four] g by metis
qed

text \<open>
  C38: the thread with the highest identifier stays visible after its release: its slot is free, but
  the lookup reads the entry one past the end of the map, where the released block still stands,
  and returns it.
\<close>

theorem released_thread_still_found:
  assumes ok: "threads_ok k es" and ne: "es \<noteq> []" and inj: "inj_on (slot_tid k) (set es)"
  shows "\<exists>k'. thread_deinit (last es) k = Inr k' \<and> last es \<notin> ktable_used (thread_table k') \<and>
    thread_by_globalid k' (t_globalid (tcbs k (last es))) = Inr (Some (last es))"
proof -
  let ?t = "last es" and ?g = "t_globalid (tcbs k (last es))"
  have d: "distinct es" and mh: "map_holds k es" using ok by (simp_all add: threads_ok_def)
  obtain k' where k': "thread_deinit ?t k = Inr k'" "threads_ok k' (remove1 ?t es)" "tcbs k' = tcbs k"
    "thread_map k' ! (length es - 1) = Some ?t"
    using thread_deinit_spec [OF ok last_in_set [OF ne] inj] by metis
  have h: "map_holds k' (remove1 ?t es)" using k'(2) by (simp add: threads_ok_def)
  have "slot_tid k' s < GLOBALID_TO_TID ?g" if "s \<in> set (remove1 ?t es)" for s
  proof -
    have s: "s \<in> set es" "s \<noteq> ?t" using that d by auto
    then obtain i where "i < length es" "es ! i = s" by (auto simp: in_set_conv_nth)
    then have "slot_tid k s \<le> slot_tid k ?t"
      using map_holds_sorted [OF mh, of i "length es - 1"] ne by (simp add: last_conv_nth)
    moreover have "slot_tid k s \<noteq> slot_tid k ?t" using inj_onD [OF inj _ s(1) last_in_set [OF ne]] s(2) by blast
    ultimately show ?thesis using k'(3) by (simp add: slot_tid_def)
  qed
  then have "thread_map_search k' ?g 0 (nat (thread_count k')) = Inr (int (length es - 1))"
    using thread_map_search_above [OF h, of ?g] ne by (simp add: length_remove1)
  moreover have "length es - 1 < length (thread_map k')"
    using map_holds_length [OF mh] h ne by (cases es) (simp_all add: map_holds_def)
  ultimately have "thread_by_globalid k' ?g = Inr (Some ?t)"
    using k'(3,4) by (simp add: thread_by_globalid_def map_tid_def del: of_nat_diff)
  moreover have "?t \<notin> ktable_used (thread_table k')" using k'(2) d by (auto simp: threads_ok_def)
  ultimately show ?thesis using k'(1) by blast
qed

theorem released_thread_still_found_witness:
  "\<exists>k'. thread_deinit 4 demo_kernel = Inr k' \<and> 4 \<notin> ktable_used (thread_table k') \<and>
     thread_by_globalid k' (TID_TO_GLOBALID 257) = Inr (Some 4)"
proof -
  have "t_globalid (tcbs demo_kernel 4) = TID_TO_GLOBALID 257" by (simp add: demo_kernel_def demo_tcb_def)
  moreover have "last [2, 1, 0, 3, 4 :: nat] = 4" by simp
  ultimately show ?thesis
    using released_thread_still_found [OF demo_kernel_ok list.distinct(2) demo_kernel_inj] by metis
qed

end
