(* ===== verification/F9_Thread_Tree.thy ===== *)
theory F9_Thread_Tree
  imports F9_Thread_Map
begin

text \<open>
  The tree of threads. Children of a thread form a chain of siblings; \<open>forest\<close> relates the pointers
  in the thread control blocks to a list of trees. \<^verbatim>\<open>thread_select\<close> walks the tree by these pointers,
  without a stack; here it is proved to return the first runnable thread in preorder, and hence to
  terminate. Creation adds a leaf after the last child of the caller.
\<close>

section \<open>Trees of threads\<close>

datatype ttree = TNode nat "ttree list"

fun nodes :: "ttree list \<Rightarrow> nat list" where
  "nodes [] = []"
| "nodes (TNode n cs # ts) = n # nodes cs @ nodes ts"

fun forest :: "(nat \<Rightarrow> tcb_t) \<Rightarrow> nat \<Rightarrow> ptr \<Rightarrow> ttree list \<Rightarrow> bool" where
  "forest T par p [] \<longleftrightarrow> p = None"
| "forest T par p (TNode n cs # ts) \<longleftrightarrow> p = Some n \<and> t_parent (T n) = Some par \<and>
     forest T n (t_child (T n)) cs \<and> forest T par (t_sibling (T n)) ts"

lemma nodes_append [simp]: "nodes (ts @ us) = nodes ts @ nodes us"
  by (induction ts rule: nodes.induct) auto

lemma nodes_eq_Nil [simp]: "nodes ts = [] \<longleftrightarrow> ts = []"
  by (cases ts rule: nodes.cases) auto

lemma forest_SomeE:
  assumes "forest T par (Some n) ts"
  obtains cs ts' where "ts = TNode n cs # ts'" "t_parent (T n) = Some par"
    "forest T n (t_child (T n)) cs" "forest T par (t_sibling (T n)) ts'"
  using assms by (cases ts rule: nodes.cases) auto

lemma forest_NoneD: "forest T par None ts \<Longrightarrow> ts = []"
  by (cases ts rule: nodes.cases) auto

lemma forest_cong:
  "forest T par p ts \<Longrightarrow>
   (\<And>n. n \<in> set (nodes ts) \<Longrightarrow> t_parent (T' n) = t_parent (T n) \<and> t_child (T' n) = t_child (T n) \<and>
      t_sibling (T' n) = t_sibling (T n)) \<Longrightarrow> forest T' par p ts"
  by (induction T par p ts rule: forest.induct) auto

section \<open>Selection\<close>

text \<open>
  What lies to the right of a chain of siblings below \<open>par\<close>: the later siblings of \<open>par\<close>, then those
  of its parent, and so on up to \<open>r\<close>.
\<close>

fun above :: "(nat \<Rightarrow> tcb_t) \<Rightarrow> nat \<Rightarrow> nat \<Rightarrow> ttree list list \<Rightarrow> bool" where
  "above T r par [] \<longleftrightarrow> par = r"
| "above T r par (ts # C) \<longleftrightarrow> par \<noteq> r \<and>
     (\<exists>q. t_parent (T par) = Some q \<and> forest T q (t_sibling (T par)) ts \<and> above T r q C)"

definition rest :: "ttree list list \<Rightarrow> nat list" where
  "rest C = concat (map nodes C)"

lemma rest_simps [simp]: "rest [] = []" "rest (ts # C) = nodes ts @ rest C"
  by (simp_all add: rest_def)

text \<open>The depth of each level, plus the size of what is pending on it, is bounded.\<close>

fun fits :: "nat \<Rightarrow> ttree list list \<Rightarrow> bool" where
  "fits N [] \<longleftrightarrow> True"
| "fits N (ts # C) \<longleftrightarrow> length C + length (nodes ts) \<le> N \<and> fits N C"

lemma climb_spec:
  assumes "above (tcbs k) r par C" "t_parent (tcbs k thr) = Some par" "length C < fuel" "fits N C"
  shows "climb fuel k r thr = Inr None \<and> rest C = [] \<or>
    (\<exists>s q ts C'. climb fuel k r thr = Inr (Some s) \<and> forest (tcbs k) q (Some s) ts \<and>
       above (tcbs k) r q C' \<and> rest C = nodes ts @ rest C' \<and> fits N (ts # C'))"
  using assms
proof (induction C arbitrary: par thr fuel)
  case Nil
  then show ?case by (cases fuel) auto
next
  case (Cons ts C)
  from Cons.prems(3) obtain n where n: "fuel = Suc n" by (cases fuel) auto
  from Cons.prems(1) obtain q where q: "par \<noteq> r" "t_parent (tcbs k par) = Some q"
    "forest (tcbs k) q (t_sibling (tcbs k par)) ts" "above (tcbs k) r q C" by auto
  show ?case
  proof (cases "t_sibling (tcbs k par)")
    case None
    then have "ts = []" using q(3) forest_NoneD by metis
    moreover have "climb fuel k r thr = climb n k r par" using None n q Cons.prems(2) by simp
    ultimately show ?thesis using Cons.IH [OF q(4,2), of n] Cons.prems n by simp
  next
    case (Some s)
    then have "climb fuel k r thr = Inr (Some s)" using n q Cons.prems(2) by simp
    then show ?thesis using q(3,4) Some Cons.prems(4) by (metis rest_simps(2))
  qed
qed

lemma thread_select_loop_spec:
  assumes "forest (tcbs k) par (Some thr) ts" "above (tcbs k) r par C" "r \<notin> set (nodes ts @ rest C)"
    "length (nodes ts @ rest C) \<le> fuel" "fits N (ts # C)" "N < THREAD_FUEL"
  shows "thread_select_loop fuel k r thr = Inr (find (thread_isrunnable k) (nodes ts @ rest C))"
  using assms
proof (induction fuel arbitrary: par thr ts C)
  case 0
  then show ?case by (auto elim: forest_SomeE)
next
  case (Suc n)
  from Suc.prems(1) obtain cs ts' where ts: "ts = TNode thr cs # ts'" "t_parent (tcbs k thr) = Some par"
    "forest (tcbs k) thr (t_child (tcbs k thr)) cs" "forest (tcbs k) par (t_sibling (tcbs k thr)) ts'"
    by (rule forest_SomeE)
  have up: "above (tcbs k) r thr (ts' # C)" using ts Suc.prems(2,3) by auto
  consider "thread_isrunnable k thr" | "\<not> thread_isrunnable k thr" "t_child (tcbs k thr) \<noteq> None"
    | "\<not> thread_isrunnable k thr" "t_child (tcbs k thr) = None" "t_sibling (tcbs k thr) \<noteq> None"
    | "\<not> thread_isrunnable k thr" "t_child (tcbs k thr) = None" "t_sibling (tcbs k thr) = None"
    by blast
  then show ?case
  proof cases
    case 1
    then show ?thesis by (simp add: ts(1))
  next
    case 2
    then obtain c where c: "t_child (tcbs k thr) = Some c" by auto
    have "thread_select_loop n k r c = Inr (find (thread_isrunnable k) (nodes cs @ rest (ts' # C)))"
      using ts(3) c up Suc.prems(3-6) by (intro Suc.IH) (simp_all add: ts(1))
    with 2 c show ?thesis by (simp add: ts(1))
  next
    case 3
    then obtain s where s: "t_sibling (tcbs k thr) = Some s" by auto
    have "cs = []" using 3 ts(3) forest_NoneD by metis
    moreover have "thread_select_loop n k r s = Inr (find (thread_isrunnable k) (nodes ts' @ rest C))"
      using ts(4) s Suc.prems(2-6) by (intro Suc.IH) (simp_all add: ts(1))
    ultimately show ?thesis using 3 s by (simp add: ts(1))
  next
    case 4
    have e: "cs = []" "ts' = []" using 4 ts(3,4) forest_NoneD by metis+
    have "length C < THREAD_FUEL" "fits N C" using Suc.prems(5,6) by (simp_all add: ts(1))
    from climb_spec [OF Suc.prems(2) ts(2) this] show ?thesis
    proof (elim disjE exE conjE)
      assume "climb THREAD_FUEL k r thr = Inr None" "rest C = []"
      then show ?thesis using 4 e by (simp add: ts(1))
    next
      fix s q us C'
      assume s: "climb THREAD_FUEL k r thr = Inr (Some s)" "forest (tcbs k) q (Some s) us"
        "above (tcbs k) r q C'" "rest C = nodes us @ rest C'" "fits N (us # C')"
      have "thread_select_loop n k r s = Inr (find (thread_isrunnable k) (nodes us @ rest C'))"
        using s Suc.prems(3,4,6) by (intro Suc.IH) (simp_all add: ts(1) e)
      then show ?thesis using 4 e s by (simp add: ts(1))
    qed
  qed
qed

text \<open>The walk from the top.\<close>

lemma thread_select_spec:
  assumes "forest (tcbs k) r (t_child (tcbs k r)) ts" "r \<notin> set (nodes ts)"
    "length (nodes ts) \<le> CONFIG_MAX_THREADS"
  shows "thread_select k (Some r) = Inr (find (thread_isrunnable k) (nodes ts))"
proof (cases "t_child (tcbs k r)")
  case None
  then show ?thesis using assms(1) forest_NoneD by (fastforce simp: thread_select_def)
next
  case (Some t)
  have "thread_select_loop THREAD_FUEL k r t = Inr (find (thread_isrunnable k) (nodes ts @ rest []))"
    using assms Some
    by (intro thread_select_loop_spec [where par = r and N = CONFIG_MAX_THREADS]) (auto simp: THREAD_FUEL_def)
  then show ?thesis using Some by (simp add: thread_select_def)
qed

section \<open>Families\<close>

text \<open>
  The same links seen from each thread: \<open>F p\<close> lists the children of \<open>p\<close>. Within the threads \<open>U\<close>, the
  chain that starts at the child pointer of \<open>p\<close> visits exactly \<open>F p\<close>, and a thread has parent \<open>p\<close> if and
  only if it is in that list.
\<close>

abbreviation sib :: "kernel_t \<Rightarrow> nat \<Rightarrow> ptr" where
  "sib k \<equiv> \<lambda>n. t_sibling (tcbs k n)"

definition kin :: "kernel_t \<Rightarrow> (nat \<Rightarrow> nat list) \<Rightarrow> nat set \<Rightarrow> bool" where
  "kin k F U \<longleftrightarrow> U \<subseteq> {..<CONFIG_MAX_THREADS} \<and>
     (\<forall>p\<in>U. lseg (sib k) (t_child (tcbs k p)) (F p) None \<and> set (F p) \<subseteq> U \<and>
        (\<forall>c\<in>U. c \<in> set (F p) \<longleftrightarrow> t_parent (tcbs k c) = Some p))"

lemma kin_chain: "kin k F U \<Longrightarrow> p \<in> U \<Longrightarrow> lseg (sib k) (t_child (tcbs k p)) (F p) None"
  by (simp add: kin_def)

lemma kin_sub: "kin k F U \<Longrightarrow> p \<in> U \<Longrightarrow> set (F p) \<subseteq> U"
  by (simp add: kin_def)

lemma kin_parent: "kin k F U \<Longrightarrow> p \<in> U \<Longrightarrow> c \<in> U \<Longrightarrow> c \<in> set (F p) \<longleftrightarrow> t_parent (tcbs k c) = Some p"
  by (simp add: kin_def)

lemma kin_bound: "kin k F U \<Longrightarrow> p \<in> U \<Longrightarrow> length (F p) < THREAD_FUEL"
  using distinct_bounded [of "F p" CONFIG_MAX_THREADS] lseg_None_distinct [OF kin_chain]
  by (fastforce simp: kin_def THREAD_FUEL_def)

lemma kin_disjoint:
  "kin k F U \<Longrightarrow> p \<in> U \<Longrightarrow> q \<in> U \<Longrightarrow> p \<noteq> q \<Longrightarrow> set (F p) \<inter> set (F q) = {}"
  using kin_parent [of k F U] kin_sub [of k F U] by (metis disjoint_iff option.inject subsetD)

text \<open>A forest that follows \<open>F\<close> is one that the pointers describe.\<close>

fun follows :: "(nat \<Rightarrow> nat list) \<Rightarrow> nat set \<Rightarrow> nat list \<Rightarrow> ttree list \<Rightarrow> bool" where
  "follows F U ns [] \<longleftrightarrow> ns = []"
| "follows F U ns (TNode n cs # ts) \<longleftrightarrow>
     ns \<noteq> [] \<and> hd ns = n \<and> n \<in> U \<and> follows F U (F n) cs \<and> follows F U (tl ns) ts"

lemma follows_forest:
  assumes "kin k F U" "par \<in> U" "follows F U ns ts" "set ns \<subseteq> set (F par)" "lseg (sib k) p ns None"
  shows "forest (tcbs k) par p ts"
  using assms
proof (induction F U ns ts arbitrary: par p rule: follows.induct)
  case (2 F U ns n cs ts)
  then obtain ms where ns: "ns = n # ms" by (cases ns) auto
  have "forest (tcbs k) n (t_child (tcbs k n)) cs"
    using "2.IH"(1) [OF "2.prems"(1), of n] 2 by (auto simp: kin_chain)
  moreover have "forest (tcbs k) par (t_sibling (tcbs k n)) ts"
    using "2.IH"(2) [OF "2.prems"(1,2), of "t_sibling (tcbs k n)"] 2 ns by auto
  moreover have "t_parent (tcbs k n) = Some par"
    using 2 ns kin_parent [OF "2.prems"(1,2), of n] by auto
  ultimately show ?case using 2 ns by auto
qed auto

lemma last_sibling_spec:
  assumes "lseg (sib k) (Some n) ns None" "length ns \<le> fuel"
  shows "last_sibling fuel k n = Inr (last ns)"
  using assms
proof (induction fuel arbitrary: n ns)
  case 0
  then show ?case by (cases ns) auto
next
  case (Suc m)
  then obtain ms where ns: "ns = n # ms" "lseg (sib k) (t_sibling (tcbs k n)) ms None"
    by (cases ns) auto
  show ?case
  proof (cases "t_sibling (tcbs k n)")
    case None
    then show ?thesis using ns by (cases ms) auto
  next
    case (Some s)
    then have "ms \<noteq> []" using ns(2) by auto
    then show ?thesis using Some ns Suc.IH [of s ms] Suc.prems(2) by simp
  qed
qed

lemma prev_sibling_spec:
  assumes "lseg (sib k) p (us @ t # vs) None" "t \<notin> set us" "length us < fuel" "us \<noteq> []"
  shows "prev_sibling fuel k t q p = Inr (Some (last us))"
proof -
  have "prev_sibling fuel k t q p = Inr (if us = [] then q else Some (last us))"
    using assms(1-3)
  proof (induction us arbitrary: p q fuel)
    case Nil
    then show ?case by (cases fuel) auto
  next
    case (Cons u us)
    then obtain n where n: "fuel = Suc n" by (cases fuel) auto
    then show ?case using Cons by auto
  qed
  then show ?thesis using assms(4) by simp
qed

lemma adopt_spec:
  assumes "lseg (sib k) (Some n) ns None" "length ns \<le> fuel"
  shows "adopt fuel c n k = Inr (last ns,
    k\<lparr>tcbs := \<lambda>i. if i \<in> set ns then (tcbs k i)\<lparr>t_parent := Some c\<rparr> else tcbs k i\<rparr>)"
  using assms
proof (induction fuel arbitrary: n ns k)
  case 0
  then show ?case by (cases ns) auto
next
  case (Suc m)
  then obtain ms where ns: "ns = n # ms" "lseg (sib k) (t_sibling (tcbs k n)) ms None"
    by (cases ns) auto
  let ?k = "upd_tcb n (t_parent_update (\<lambda>_. Some c)) k"
  have sib: "sib ?k = sib k" by auto
  show ?case
  proof (cases "t_sibling (tcbs k n)")
    case None
    then have "ms = []" using ns(2) by (cases ms) auto
    then show ?thesis using None ns(1)
      by (auto simp: Let_def upd_tcb_def fun_eq_iff intro!: kernel_t.fold_congs)
  next
    case (Some s)
    then have "ms \<noteq> []" using ns(2) by auto
    moreover have "adopt m c s ?k = Inr (last ms,
        ?k\<lparr>tcbs := \<lambda>i. if i \<in> set ms then (tcbs ?k i)\<lparr>t_parent := Some c\<rparr> else tcbs ?k i\<rparr>)"
      using Suc.IH [of ?k s ms] ns Some Suc.prems(2) sib by simp
    moreover have "n \<notin> set ms" using lseg_None_distinct [OF Suc.prems(1)] ns by simp
    ultimately show ?thesis using Some ns(1)
      by (auto simp: Let_def upd_tcb_def fun_eq_iff intro!: arg_cong [where f = "\<lambda>T. k\<lparr>tcbs := T\<rparr>"])
  qed
qed

section \<open>Creation and destruction\<close>

text \<open>Only the links matter.\<close>

lemma kin_cong:
  assumes "kin k F U" "\<And>n. n \<in> U \<Longrightarrow> t_parent (tcbs k' n) = t_parent (tcbs k n) \<and>
    t_child (tcbs k' n) = t_child (tcbs k n) \<and> t_sibling (tcbs k' n) = t_sibling (tcbs k n)"
  shows "kin k' F U"
  using assms lseg_cong [of "F p" "sib k'" "sib k" for p]
  unfolding kin_def by (metis (no_types, lifting) subsetD)

text \<open>
  The new thread \<open>t\<close> goes to the end of the children of \<open>c\<close>: the link of the last child, or the child
  pointer of \<open>c\<close> when there is none, is the only one that changes.
\<close>

lemma kin_append:
  assumes kin: "kin k F U" and c: "c \<in> U" and t: "t \<notin> U" "t < CONFIG_MAX_THREADS"
    and no_kids: "\<And>n. n \<in> U \<Longrightarrow> t_parent (tcbs k n) \<noteq> Some t"
    and leaf: "t_parent (T t) = Some c" "t_child (T t) = None" "t_sibling (T t) = None"
    and other: "\<And>n. n \<in> U \<Longrightarrow> t_parent (T n) = t_parent (tcbs k n) \<and>
      t_child (T n) = (if F c = [] \<and> n = c then Some t else t_child (tcbs k n)) \<and>
      t_sibling (T n) = (if F c \<noteq> [] \<and> n = last (F c) then Some t else t_sibling (tcbs k n))"
  shows "kin (k\<lparr>tcbs := T\<rparr>) (F(c := F c @ [t], t := [])) (insert t U)"
proof -
  have chains: "lseg (\<lambda>n. t_sibling (T n)) (t_child (T p)) ((F(c := F c @ [t], t := [])) p) None"
    if p: "p \<in> insert t U" for p
  proof (cases "p = t \<or> p \<noteq> c")
    case True
    show ?thesis
    proof (cases "p = t")
      case False
      with True p have p': "p \<in> U" "p \<noteq> c" by auto
      have "F c \<noteq> [] \<Longrightarrow> last (F c) \<notin> set (F p)"
        using kin_disjoint [OF kin p'(1) c p'(2)] last_in_set by blast
      then have "t_sibling (T x) = sib k x" if "x \<in> set (F p)" for x
        using that other [of x] kin_sub [OF kin p'(1)] by (auto split: if_splits)
      then have "lseg (\<lambda>n. t_sibling (T n)) (t_child (tcbs k p)) (F p) None"
        by (intro lseg_transfer [OF kin_chain [OF kin p'(1)]]) auto
      then show ?thesis using p' False other by simp
    qed (simp add: leaf)
  next
    case False
    then have "p = c" "c \<noteq> t" using t c by auto
    have lc: "lseg (sib k) (t_child (tcbs k c)) (F c) None" by (rule kin_chain [OF kin c])
    show ?thesis
    proof (cases "F c = []")
      case True
      then show ?thesis using \<open>p = c\<close> \<open>c \<noteq> t\<close> other [OF c] leaf by simp
    next
      case ne: False
      have "lseg ((sib k)(last (F c) := Some t)) (t_child (tcbs k c)) (F c) (Some t)"
        by (rule lseg_redirect [OF lc ne lseg_None_distinct [OF lc]])
      then have "lseg (\<lambda>n. t_sibling (T n)) (t_child (tcbs k c)) (F c) (Some t)"
        using other kin_sub [OF kin c] ne by (elim lseg_transfer) auto
      then show ?thesis using \<open>p = c\<close> \<open>c \<noteq> t\<close> other [OF c] leaf ne by (simp add: lseg_snoc)
    qed
  qed
  moreover have "set ((F(c := F c @ [t], t := [])) p) \<subseteq> insert t U" if "p \<in> insert t U" for p
    using that kin_sub [OF kin] by auto
  moreover have "x \<in> set ((F(c := F c @ [t], t := [])) p) \<longleftrightarrow> t_parent (T x) = Some p"
    if "p \<in> insert t U" "x \<in> insert t U" for p x
    using that t c leaf other [of x] no_kids [of x] kin_sub [OF kin] kin_parent [OF kin, of p x]
    by (cases "x = t"; cases "p = t") auto
  ultimately show ?thesis using kin t unfolding kin_def by simp
qed

text \<open>The thread \<open>t\<close> leaves the chain of its parent \<open>p\<close>.\<close>

lemma kin_unlink:
  assumes kin: "kin k F U" and t: "t \<in> U" "t_parent (tcbs k t) = Some p" and p: "p \<in> U" "p \<noteq> t"
  obtains k' where "unlink_thread t k = Inr k'" "kin k' (F(p := remove1 t (F p))) (U - {t})"
    "\<And>n. t_parent (tcbs k' n) = t_parent (tcbs k n)" "\<And>n. t_globalid (tcbs k' n) = t_globalid (tcbs k n)"
    "lseg (sib k') (t_child (tcbs k' t)) (F t) None" "k' = k\<lparr>tcbs := tcbs k'\<rparr>"
proof -
  have lp: "lseg (sib k) (t_child (tcbs k p)) (F p) None" by (rule kin_chain [OF kin p(1)])
  have "t \<in> set (F p)" using kin_parent [OF kin p(1) t(1)] t(2) by simp
  then obtain us vs where F: "F p = us @ t # vs" "t \<notin> set us" by (metis split_list_first)
  have d: "distinct (us @ t # vs)" using lseg_None_distinct [OF lp] F by simp
  have seg: "lseg (sib k) (t_child (tcbs k p)) us (Some t)" "lseg (sib k) (t_sibling (tcbs k t)) vs None"
    using lp F by (auto simp: lseg_middle)
  have len: "length us < THREAD_FUEL" using kin_bound [OF kin p(1)] F by simp
  define k' where "k' = (if us = [] then upd_tcb p (t_child_update (\<lambda>_. t_sibling (tcbs k t))) k
     else upd_tcb (last us) (t_sibling_update (\<lambda>_. t_sibling (tcbs k t))) k)"
  have "t_child (tcbs k p) = Some t \<longleftrightarrow> us = []"
    using seg(1) F(2) by (cases us) auto
  then have un: "unlink_thread t k = Inr k'"
    using t p prev_sibling_spec [OF lp [unfolded F(1)] F(2) len]
    by (simp add: unlink_thread_def k'_def)
  have sibs: "sib k' = (if us = [] then sib k else (sib k)(last us := t_sibling (tcbs k t)))"
    by (auto simp: k'_def)
  have child: "t_child (tcbs k' n) = (if us = [] \<and> n = p then t_sibling (tcbs k t) else t_child (tcbs k n))" for n
    by (simp add: k'_def)
  have par: "t_parent (tcbs k' n) = t_parent (tcbs k n)" for n by (simp add: k'_def)
  have gid: "t_globalid (tcbs k' n) = t_globalid (tcbs k n)" for n by (simp add: k'_def)
  have rem: "remove1 t (F p) = us @ vs" using F by (simp add: remove1_append)
  have off: "lseg (sib k') (t_child (tcbs k' q)) (F q) None" if "q \<in> U" "q \<noteq> p" for q
  proof -
    have "us \<noteq> [] \<Longrightarrow> last us \<notin> set (F q)"
      using kin_disjoint [OF kin p(1) that(1)] that(2) F(1) last_in_set by fastforce
    then have "lseg (sib k') (t_child (tcbs k q)) (F q) None"
      by (intro lseg_transfer [OF kin_chain [OF kin that(1)]]) (auto simp: k'_def)
    then show ?thesis using that by (simp add: child)
  qed
  have on: "lseg (sib k') (t_child (tcbs k' p)) (us @ vs) None"
  proof (cases "us = []")
    case True
    then show ?thesis using seg(2) by (simp add: sibs child)
  next
    case False
    then have "last us \<notin> set vs" using d by (metis disjoint_iff distinct_append last_in_set list.set_intros(2))
    then have "lseg (sib k') (t_sibling (tcbs k t)) vs None" using seg(2) False by (simp add: sibs)
    moreover have "lseg (sib k') (t_child (tcbs k p)) us (t_sibling (tcbs k t))"
      using lseg_redirect [OF seg(1) False] d False by (simp add: sibs)
    ultimately show ?thesis using False by (auto simp: lseg_append child)
  qed
  have mem: "t \<notin> set (F q)" if "q \<in> U" "q \<noteq> p" for q using kin_parent [OF kin that(1) t(1)] t(2) that(2) by simp
  have "kin k' (F(p := remove1 t (F p))) (U - {t})"
    unfolding kin_def
  proof (intro conjI ballI)
    show "U - {t} \<subseteq> {..<CONFIG_MAX_THREADS}" using kin by (auto simp: kin_def)
  next
    fix q assume q: "q \<in> U - {t}"
    show "lseg (sib k') (t_child (tcbs k' q)) ((F(p := remove1 t (F p))) q) None"
      using q on off [of q] by (simp add: rem)
    show "set ((F(p := remove1 t (F p))) q) \<subseteq> U - {t}"
    proof (cases "q = p")
      case True
      then show ?thesis using kin_sub [OF kin p(1)] d by (auto simp: rem F(1))
    next
      case False
      then show ?thesis using kin_sub [OF kin, of q] mem [of q] q by auto
    qed
    fix c assume c: "c \<in> U - {t}"
    then show "c \<in> set ((F(p := remove1 t (F p))) q) \<longleftrightarrow> t_parent (tcbs k' c) = Some q"
      using q kin_parent [OF kin, of q c] F(1) by (auto simp: par rem)
  qed
  moreover have "k' = k\<lparr>tcbs := tcbs k'\<rparr>" by (simp add: k'_def upd_tcb_def)
  ultimately show thesis using that [of k'] un par gid off [OF t(1)] p(2) by blast
qed

text \<open>The children \<open>F t\<close> of a thread outside \<open>U\<close> move in front of the children of \<open>c\<close>.\<close>

lemma kin_adopt:
  assumes kin: "kin k F U" and c: "c \<in> U" and ch: "lseg (sib k) (t_child (tcbs k t)) ns None"
    and ns: "ns \<noteq> []" "set ns \<subseteq> U" "\<And>n p. n \<in> set ns \<Longrightarrow> p \<in> U \<Longrightarrow> t_parent (tcbs k n) \<noteq> Some p"
    and t: "t \<notin> U" and clr: "caller k = Some c"
  obtains k' where
    "bindF (adopt THREAD_FUEL c (hd ns) k) (\<lambda>(lst, k).
       let k = upd_tcb lst (t_sibling_update (\<lambda>_. t_child (tcbs k c))) k in
       Inr (upd_tcb c (t_child_update (\<lambda>_. t_child (tcbs k t))) k)) = Inr k'"
    "kin k' (F(c := ns @ F c)) U" "\<And>n. t_globalid (tcbs k' n) = t_globalid (tcbs k n)"
    "\<And>n. t_parent (tcbs k' n) = (if n \<in> set ns then Some c else t_parent (tcbs k n))"
    "k' = k\<lparr>tcbs := tcbs k'\<rparr>"
proof -
  have hd: "t_child (tcbs k t) = Some (hd ns)" using lseg_hd [OF ch] ns(1) by (simp add: hd_opt_hd)
  have d: "distinct ns" by (rule lseg_None_distinct [OF ch])
  have "set ns \<subseteq> {..<CONFIG_MAX_THREADS}" using kin ns(2) unfolding kin_def by blast
  then have "length ns \<le> THREAD_FUEL" using distinct_bounded [OF d] by (simp add: THREAD_FUEL_def le_SucI)
  note a = adopt_spec [OF ch [unfolded hd] this, of c]
  define k1 where "k1 = k\<lparr>tcbs := \<lambda>i. if i \<in> set ns then (tcbs k i)\<lparr>t_parent := Some c\<rparr> else tcbs k i\<rparr>"
  define k' where "k' = (let k = upd_tcb (last ns) (t_sibling_update (\<lambda>_. t_child (tcbs k1 c))) k1 in
       upd_tcb c (t_child_update (\<lambda>_. t_child (tcbs k t))) k)"
  have ct: "c \<noteq> t" "last ns \<noteq> t" using c t ns(2) last_in_set [OF ns(1)] by auto
  have sibs: "t_sibling (tcbs k' n) = (if n = last ns then t_child (tcbs k c) else t_sibling (tcbs k n))" for n
    by (simp add: k'_def k1_def)
  have child: "t_child (tcbs k' n) = (if n = c then Some (hd ns) else t_child (tcbs k n))" for n
    using hd ct by (auto simp: k'_def k1_def)
  have par: "t_parent (tcbs k' n) = (if n \<in> set ns then Some c else t_parent (tcbs k n))" for n
    by (simp add: k'_def k1_def)
  have gid: "t_globalid (tcbs k' n) = t_globalid (tcbs k n)" for n by (simp add: k'_def k1_def)
  have apart: "set ns \<inter> set (F q) = {}" if "q \<in> U" for q
    using ns(2,3) kin_parent [OF kin that] that by (auto dest: subsetD)
  have off: "lseg (sib k') (t_child (tcbs k q)) (F q) None" if "q \<in> U" for q
    using apart [OF that] last_in_set [OF ns(1)]
    by (intro lseg_transfer [OF kin_chain [OF kin that]]) (auto simp: sibs)
  have "sib k' = (sib k)(last ns := t_child (tcbs k c))" by (auto simp: sibs)
  then have "lseg (sib k') (Some (hd ns)) ns (t_child (tcbs k c))"
    using lseg_redirect [OF ch ns(1) d] hd by simp
  then have on: "lseg (sib k') (t_child (tcbs k' c)) (ns @ F c) None"
    using off [OF c] by (auto simp: lseg_append child)
  have "kin k' (F(c := ns @ F c)) U"
    unfolding kin_def
  proof (intro conjI ballI)
    show "U \<subseteq> {..<CONFIG_MAX_THREADS}" using kin by (simp add: kin_def)
  next
    fix q assume q: "q \<in> U"
    show "lseg (sib k') (t_child (tcbs k' q)) ((F(c := ns @ F c)) q) None"
      using on off [OF q] by (simp add: child)
    show "set ((F(c := ns @ F c)) q) \<subseteq> U" using q kin_sub [OF kin] ns(2) by auto
    fix x assume "x \<in> U"
    then show "x \<in> set ((F(c := ns @ F c)) q) \<longleftrightarrow> t_parent (tcbs k' x) = Some q"
      using kin_parent [OF kin q, of x] ns(3) [of x] q apart [OF q] by (auto simp: par)
  qed
  moreover have "k' = k\<lparr>tcbs := tcbs k'\<rparr>" by (simp add: k'_def k1_def upd_tcb_def)
  moreover have "bindF (adopt THREAD_FUEL c (hd ns) k) (\<lambda>(lst, k).
       let k = upd_tcb lst (t_sibling_update (\<lambda>_. t_child (tcbs k c))) k in
       Inr (upd_tcb c (t_child_update (\<lambda>_. t_child (tcbs k t))) k)) = Inr k'"
    using ct by (simp add: a flip: k1_def) (simp add: k'_def k1_def Let_def upd_tcb_def)
  ultimately show thesis using that par gid by auto
qed

text \<open>The middle part of \<^verbatim>\<open>thread_destroy\<close>, with children or without.\<close>

lemma kin_handover:
  assumes kin: "kin k F U" and c: "c \<in> U" and ch: "lseg (sib k) (t_child (tcbs k t)) ns None"
    and ns: "set ns \<subseteq> U" "\<And>n p. n \<in> set ns \<Longrightarrow> p \<in> U \<Longrightarrow> t_parent (tcbs k n) \<noteq> Some p"
    and t: "t \<notin> U" and clr: "caller k = Some c"
  obtains k' where
    "(case t_child (tcbs k t) of
        None \<Rightarrow> Inr k
      | Some child \<Rightarrow>
          bindF (deref (caller k)) (\<lambda>c.
          bindF (adopt THREAD_FUEL c child k) (\<lambda>(lst, k).
          let k = upd_tcb lst (t_sibling_update (\<lambda>_. t_child (tcbs k c))) k in
          Inr (upd_tcb c (t_child_update (\<lambda>_. t_child (tcbs k t))) k)))) = Inr k'"
    "kin k' (F(c := ns @ F c)) U" "\<And>n. t_globalid (tcbs k' n) = t_globalid (tcbs k n)"
    "\<And>n. t_parent (tcbs k' n) = (if n \<in> set ns then Some c else t_parent (tcbs k n))"
    "k' = k\<lparr>tcbs := tcbs k'\<rparr>"
proof (cases "ns = []")
  case True
  then show thesis using that [of k] ch kin by simp
next
  case False
  have "t_child (tcbs k t) = Some (hd ns)" using lseg_hd [OF ch] False by (simp add: hd_opt_hd)
  with False show thesis using that clr by (rule_tac kin_adopt [OF kin c ch False ns t clr]) simp_all
qed

definition family :: "kernel_t \<Rightarrow> (nat \<Rightarrow> nat list) \<Rightarrow> nat set \<Rightarrow> bool" where
  "family k F U \<longleftrightarrow> kin k F U \<and> (\<forall>n\<in>U. \<forall>p. t_parent (tcbs k n) = Some p \<longrightarrow> p \<in> U)"

lemma threads_ok_cong:
  assumes "threads_ok k es" "k' = k\<lparr>tcbs := T\<rparr>" "\<And>n. t_globalid (T n) = t_globalid (tcbs k n)"
  shows "threads_ok k' es" "slot_tid k' = slot_tid k"
proof -
  show tids: "slot_tid k' = slot_tid k" using assms(2,3) by (auto simp: slot_tid_def)
  then show "threads_ok k' es" using assms(1,2) map_holds_cong [of k' k es] by (simp add: threads_ok_def)
qed

text \<open>After a creation and after a destruction: who is whose child.\<close>

definition born :: "nat \<Rightarrow> nat \<Rightarrow> (nat \<Rightarrow> nat list) \<Rightarrow> nat \<Rightarrow> nat list" where
  "born c t F = F(c := F c @ [t], t := [])"

definition handed_over :: "nat \<Rightarrow> nat \<Rightarrow> nat \<Rightarrow> (nat \<Rightarrow> nat list) \<Rightarrow> nat \<Rightarrow> nat list" where
  "handed_over c p t F = (let F' = F(p := remove1 t (F p)) in F'(c := F t @ F' c))"

section \<open>Properties\<close>

text \<open>
  C6: the selection of a normal thread terminates and returns the first runnable thread of the tree
  below \<open>r\<close> in preorder, or NULL when none is runnable. The walk uses only the parent, child and sibling
  pointers; \<open>find\<close> over \<open>nodes\<close> is the recursive reference.
\<close>

theorem thread_select_preorder:
  assumes "forest (tcbs k) r (t_child (tcbs k r)) ts" "r \<notin> set (nodes ts)"
    "length (nodes ts) \<le> CONFIG_MAX_THREADS"
  shows "thread_select k (Some r) = Inr (find (thread_isrunnable k) (nodes ts))"
  by (rule thread_select_spec [OF assms])

theorem thread_select_preorder_witness:
  "thread_select demo_kernel (Some 0) = Inr (Some 4)"
proof -
  let ?ts = "[TNode 3 [], TNode 4 []]"
  have "forest (tcbs demo_kernel) 0 (t_child (tcbs demo_kernel 0)) ?ts"
    by (simp add: demo_kernel_def demo_tcb_def)
  then have "thread_select demo_kernel (Some 0) = Inr (find (thread_isrunnable demo_kernel) (nodes ?ts))"
    by (intro thread_select_preorder) (simp_all add: CONFIG_MAX_THREADS_def)
  also have "find (thread_isrunnable demo_kernel) (nodes ?ts) = Some 4"
    by (simp add: thread_isrunnable_def demo_kernel_def demo_tcb_def)
  finally show ?thesis .
qed

text \<open>
  C17: creating a thread for a valid identifier makes it the last child of the caller and leaves every
  other family relation as it was. The thread is inactive, and its local identifier is one step
  (64) above that of the previous last child.
\<close>

theorem thread_create_last_child:
  assumes ok: "threads_ok k es" and room: "length es < CONFIG_MAX_THREADS" and fam: "family k F (set es)"
    and c: "caller k = Some c" "c \<in> set es"
    and g: "THREAD_SYS \<le> GLOBALID_TO_TID g" "g \<noteq> L4_ANYTHREAD" "g \<noteq> L4_ANYLOCALTHREAD"
  shows "\<exists>t k' i. thread_create g u k = Inr (Some t, k') \<and> t \<notin> set es \<and>
    threads_ok k' (insert_at i t es) \<and> family k' (born c t F) (insert t (set es)) \<and>
    t_state (tcbs k' t) = T_INACTIVE \<and> t_globalid (tcbs k' t) = g \<and>
    t_localid (tcbs k' t) = (if F c = [] then 0 else t_localid (tcbs k (last (F c)))) + 64"
proof -
  have kin: "kin k F (set es)" using fam by (simp add: family_def)
  obtain t i k1 where init: "thread_init g u k = Inr (Some t, k1)" "t \<notin> set es" "t < CONFIG_MAX_THREADS"
    "tcbs k1 = (tcbs k)(t := init_tcb g u (tcbs k t))" "threads_ok k1 (insert_at i t es)" "caller k1 = caller k"
    by (rule thread_init_ok [OF ok room, where g = g and u = u]) blast
  have ct: "c \<noteq> t" using c init by auto
  have T: "tcbs k1 n = tcbs k n" if "n \<in> set es" for n using that init by auto
  let ?k2 = "upd_tcb t (t_parent_update (\<lambda>_. Some c)) k1"
  have "sib ?k2 x = sib k x" if "x \<in> set (F c)" for x
    using that kin_sub [OF kin c(2)] init(2) T [of x] by auto
  from lseg_transfer [OF kin_chain [OF kin c(2)] this]
  have chain: "lseg (sib ?k2) (t_child (tcbs ?k2 c)) (F c) None" using T [OF c(2)] ct by simp
  define k' where "k' = (if F c = []
     then upd_tcb t (t_localid_update (\<lambda>_. push_bit 6 1)) (upd_tcb c (t_child_update (\<lambda>_. Some t)) ?k2)
     else upd_tcb t (t_localid_update (\<lambda>_. t_localid (tcbs k (last (F c))) + push_bit 6 1))
            (upd_tcb (last (F c)) (t_sibling_update (\<lambda>_. Some t)) ?k2))"
  have lastF: "F c \<noteq> [] \<Longrightarrow> last (F c) \<in> set es \<and> last (F c) \<noteq> t"
    using kin_sub [OF kin c(2)] init(2) last_in_set by blast
  have "thread_create g u k = Inr (Some t, k')"
  proof (cases "F c")
    case Nil
    then have "t_child (tcbs ?k2 c) = None" using chain by simp
    then show ?thesis using init(1) g Nil ct
      by (simp add: thread_create_def c(1) leD [OF g(1)] k'_def Let_def)
  next
    case (Cons f fs)
    then have f: "t_child (tcbs ?k2 c) = Some f" using chain by simp
    have "last_sibling THREAD_FUEL ?k2 f = Inr (last (F c))"
      using chain f kin_bound [OF kin c(2)] by (intro last_sibling_spec) auto
    then show ?thesis using init(1) g Cons ct f lastF T
      by (simp add: thread_create_def c(1) leD [OF g(1)] k'_def Let_def)
  qed
  moreover have k': "k' = k1\<lparr>tcbs := tcbs k'\<rparr>" by (simp add: k'_def upd_tcb_def)
  moreover have "kin (k\<lparr>tcbs := tcbs k'\<rparr>) (born c t F) (insert t (set es))"
    unfolding born_def
  proof (rule kin_append [OF kin c(2) init(2,3)])
    show "t_parent (tcbs k n) \<noteq> Some t" if "n \<in> set es" for n
      using that fam init(2) by (auto simp: family_def)
  qed (use init(2,4) ct lastF in \<open>auto simp: k'_def init_tcb_def\<close>)
  then have kin': "kin k' (born c t F) (insert t (set es))" by (rule kin_cong) simp
  moreover have "p \<in> insert t (set es)" if "n \<in> insert t (set es)" "t_parent (tcbs k' n) = Some p" for n p
  proof (cases "n = t")
    case True
    then show ?thesis using that(2) c(2) ct by (auto simp: k'_def split: if_splits)
  next
    case False
    then have "t_parent (tcbs k n) = Some p" using that(2) init(4) by (auto simp: k'_def split: if_splits)
    then show ?thesis using that(1) False fam by (auto simp: family_def)
  qed
  moreover have "threads_ok k' (insert_at i t es)"
    by (rule threads_ok_cong(1) [OF init(5) k']) (auto simp: k'_def)
  moreover have "t_state (tcbs k' t) = T_INACTIVE" "t_globalid (tcbs k' t) = g"
    using init(4) ct lastF by (auto simp: k'_def init_tcb_def)
  moreover have "t_localid (tcbs k' t) = (if F c = [] then 0 else t_localid (tcbs k (last (F c)))) + 64"
    by (simp add: k'_def push_bit_eq_mult)
  ultimately show ?thesis using init(2) by (auto simp: family_def)
qed

text \<open>The system threads and the two user threads of the concrete state.\<close>

definition demo_kids :: "nat \<Rightarrow> nat list" where
  "demo_kids p = (if p = 0 then [3, 4] else [])"

lemma demo_family: "family demo_kernel demo_kids (set [2, 1, 0, 3, 4])"
  by (simp add: family_def kin_def demo_kernel_def demo_tcb_def demo_kids_def CONFIG_MAX_THREADS_def)
    auto

theorem thread_create_last_child_witness:
  "\<exists>t k'. thread_create (TID_TO_GLOBALID 300) 0x20010000 demo_kernel = Inr (Some t, k') \<and>
     family k' (born 0 t demo_kids) (insert t (set [2, 1, 0, 3, 4])) \<and> born 0 t demo_kids 0 = [3, 4, t]"
proof -
  have "length [2 :: nat, 1, 0, 3, 4] < CONFIG_MAX_THREADS" "caller demo_kernel = Some 0"
    by (simp_all add: CONFIG_MAX_THREADS_def demo_kernel_def)
  moreover have "THREAD_SYS \<le> GLOBALID_TO_TID (TID_TO_GLOBALID 300)" "TID_TO_GLOBALID 300 \<noteq> L4_ANYTHREAD"
    "TID_TO_GLOBALID 300 \<noteq> L4_ANYLOCALTHREAD" "0 \<in> set [2, 1, 0, 3, 4 :: nat]"
    by (simp_all add: THREAD_SYS_def GLOBALID_TO_TID_def TID_TO_GLOBALID_def L4_ANYTHREAD_def L4_ANYLOCALTHREAD_def)
  ultimately obtain t k' where "thread_create (TID_TO_GLOBALID 300) 0x20010000 demo_kernel = Inr (Some t, k')"
    "t \<notin> set [2, 1, 0, 3, 4]" "family k' (born 0 t demo_kids) (insert t (set [2, 1, 0, 3, 4]))"
    using thread_create_last_child [OF demo_kernel_ok _ demo_family, where c = 0 and g = "TID_TO_GLOBALID 300"
        and u = "0x20010000"]
    by blast
  then show ?thesis by (auto simp: born_def demo_kids_def)
qed

text \<open>
  C16: destroying a thread takes it out of its parent's children and hands its own children, with all
  their descendants, to the caller, in front of the caller's children; the thread map keeps exactly
  the other threads. The thread must have a parent and must not destroy itself.
\<close>

theorem thread_destroy_hands_over:
  assumes ok: "threads_ok k es" and inj: "inj_on (slot_tid k) (set es)" and fam: "family k F (set es)"
    and t: "t \<in> set es" "t_parent (tcbs k t) = Some p" "p \<noteq> t"
    and c: "caller k = Some c" "c \<in> set es" "c \<noteq> t"
  shows "\<exists>k'. thread_destroy t k = Inr k' \<and> threads_ok k' (remove1 t es) \<and>
    family k' (handed_over c p t F) (set es - {t})"
proof -
  let ?U = "set es - {t}" and ?F = "F(p := remove1 t (F p))"
  have kin: "kin k F (set es)" and p: "p \<in> set es" using fam t by (auto simp: family_def)
  obtain k1 where un: "unlink_thread t k = Inr k1" "kin k1 ?F ?U"
    "\<And>n. t_parent (tcbs k1 n) = t_parent (tcbs k n)" "\<And>n. t_globalid (tcbs k1 n) = t_globalid (tcbs k n)"
    "lseg (sib k1) (t_child (tcbs k1 t)) (F t) None" "k1 = k\<lparr>tcbs := tcbs k1\<rparr>"
    by (rule kin_unlink [OF kin t(1,2) p t(3)]) blast
  have c1: "caller k1 = Some c" "c \<in> ?U" using c by (subst un(6), simp) (use c in auto)
  have Ft: "set (F t) \<subseteq> ?U" "n \<in> set (F t) \<Longrightarrow> q \<in> ?U \<Longrightarrow> t_parent (tcbs k1 n) \<noteq> Some q" for n q
    using kin_sub [OF kin t(1)] kin_parent [OF kin t(1)] t(2,3) un(3) by (auto dest: subsetD)
  obtain k2 where h: "(case t_child (tcbs k1 t) of
        None \<Rightarrow> Inr k1
      | Some child \<Rightarrow>
          bindF (deref (caller k1)) (\<lambda>c.
          bindF (adopt THREAD_FUEL c child k1) (\<lambda>(lst, k).
          let k = upd_tcb lst (t_sibling_update (\<lambda>_. t_child (tcbs k c))) k in
          Inr (upd_tcb c (t_child_update (\<lambda>_. t_child (tcbs k t))) k)))) = Inr k2"
    and kin2: "kin k2 (?F(c := F t @ ?F c)) ?U"
    and k2: "\<And>n. t_globalid (tcbs k2 n) = t_globalid (tcbs k1 n)"
      "\<And>n. t_parent (tcbs k2 n) = (if n \<in> set (F t) then Some c else t_parent (tcbs k1 n))"
      "k2 = k1\<lparr>tcbs := tcbs k2\<rparr>"
    by (rule kin_handover [OF un(2) c1(2) un(5) Ft _ c1(1)]) auto
  note ok1 = threads_ok_cong [OF ok un(6,4)]
  note ok2 = threads_ok_cong [OF ok1(1) k2(3,1)]
  have "inj_on (slot_tid k2) (set es)" using inj by (simp add: ok1(2) ok2(2))
  then obtain k' where k': "thread_deinit t k2 = Inr k'" "threads_ok k' (remove1 t es)" "tcbs k' = tcbs k2"
    using thread_deinit_spec [OF ok2(1) t(1)] by metis
  have kin': "kin k' (handed_over c p t F) ?U"
    using kin_cong [OF kin2, of k'] k'(3) by (simp add: handed_over_def Let_def)
  have "q \<in> ?U" if "n \<in> ?U" "t_parent (tcbs k' n) = Some q" for n q
  proof (cases "n \<in> set (F t)")
    case True
    then show ?thesis using that c k'(3) k2(2) by auto
  next
    case False
    then have q: "t_parent (tcbs k n) = Some q" using that k'(3) k2(2) un(3) by simp
    then have "q \<in> set es" using that fam by (auto simp: family_def)
    then show ?thesis using q False that kin_parent [OF kin t(1), of n] by auto
  qed
  then have "family k' (handed_over c p t F) ?U" using kin' unfolding family_def by blast
  moreover have "thread_destroy t k = Inr k'" by (simp only: thread_destroy_def un(1) bindF_simps h k'(1))
  ultimately show ?thesis using k'(2) by blast
qed

theorem thread_destroy_hands_over_witness:
  "\<exists>k'. thread_destroy 3 demo_kernel = Inr k' \<and> threads_ok k' [2, 1, 0, 4] \<and>
     family k' (handed_over 0 0 3 demo_kids) {2, 1, 0, 4} \<and> handed_over 0 0 3 demo_kids 0 = [4]"
proof -
  have "t_parent (tcbs demo_kernel 3) = Some 0" "caller demo_kernel = Some 0"
    by (simp_all add: demo_kernel_def demo_tcb_def)
  then have "\<exists>k'. thread_destroy 3 demo_kernel = Inr k' \<and> threads_ok k' (remove1 3 [2, 1, 0, 3, 4]) \<and>
     family k' (handed_over 0 0 3 demo_kids) (set [2, 1, 0, 3, 4] - {3})"
    by (intro thread_destroy_hands_over [OF demo_kernel_ok demo_kernel_inj demo_family]) simp_all
  moreover have "remove1 3 [2, 1, 0, 3, 4 :: nat] = [2, 1, 0, 4]" "set [2, 1, 0, 3, 4 :: nat] - {3} = {2, 1, 0, 4}"
    "handed_over 0 0 3 demo_kids 0 = [4]"
    by (auto simp: handed_over_def demo_kids_def)
  ultimately show ?thesis by simp
qed

end
