(* ===== verification/F9_Irq_Spec.thy ===== *)
theory F9_Irq_Spec
  imports F9_Irq F9_Sched_Spec
begin

text \<open>
  The context switch keeps the registers of a thread: saving and restoring a context are inverse to
  each other, and a thread that leaves the processor and comes back finds it as it left it.
\<close>

section \<open>Properties\<close>

text \<open>The stack pointer in use.\<close>

definition cpu_sp :: "cpu_t \<Rightarrow> u32" where
  "cpu_sp cpu = (if on_main_stack (lr cpu) then msp cpu else psp cpu)"

lemma restore_save:
  "r4_r11 (irq_restore (irq_save cpu c) cpu') = r4_r11 cpu" "lr (irq_restore (irq_save cpu c) cpu') = lr cpu"
  "cpu_sp (irq_restore (irq_save cpu c) cpu') = cpu_sp cpu"
  "control (irq_restore (irq_save cpu c) cpu') = ctx_ctl c"
  by (simp_all add: irq_restore_def irq_save_def cpu_sp_def Let_def)

lemma thread_switch_spec:
  assumes "thread_switch im to k = Inr k'"
  obtains t where "to = Some t" "current k' = Some t" "tcbs k' = tcbs k" "thread_isrunnable k t"
    "current_utcb k' = t_utcb (tcbs k t)"
  using assms
  by (auto simp: thread_switch_def assert_impl_def panic_def Let_def thread_isrunnable_def
      split: option.splits if_splits)

text \<open>A processor that runs on the process stack.\<close>

definition demo_cpu :: cpu_t where
  "demo_cpu = \<lparr>r4_r11 = [1, 2, 3, 4, 5, 6, 7, 8], msp = 0x20001000, psp = 0x20005000, lr = 0xFFFFFFFD, control = 3\<rparr>"

text \<open>
  C21: a thread that is switched out and later switched in again, with its saved context untouched in
  between, continues with the same callee-saved registers, return code and stack pointer, whatever
  the processor did meanwhile.
\<close>

theorem context_switch_roundtrip:
  assumes out: "current k = Some a" "context_switch im (Some b) (cpu, k) = Inr (cpu1, k1)" "a \<noteq> b"
    and kept: "ctx (tcbs k2 a) = ctx (tcbs k1 a)" "current k2 = Some c" "c \<noteq> a"
    and again: "context_switch im (Some a) (cpu2, k2) = Inr (cpu3, k3)"
  shows "current k3 = Some a \<and> r4_r11 cpu3 = r4_r11 cpu \<and> lr cpu3 = lr cpu \<and> cpu_sp cpu3 = cpu_sp cpu"
proof -
  let ?k = "upd_tcb a (ctx_update (irq_save cpu)) k" and ?k2 = "upd_tcb c (ctx_update (irq_save cpu2)) k2"
  have "thread_switch im (Some b) ?k = Inr k1" using out by (auto simp: context_switch_def)
  then have "tcbs k1 = tcbs ?k" by (auto elim: thread_switch_spec)
  then have saved: "ctx (tcbs k1 a) = irq_save cpu (ctx (tcbs k a))" by simp
  from again kept obtain k4 where "thread_switch im (Some a) ?k2 = Inr k4"
    "bindF (deref (current k4)) (\<lambda>t. Inr (irq_restore (ctx (tcbs k4 t)) cpu2, k4)) = Inr (cpu3, k3)"
    by (auto simp: context_switch_def)
  then have "k4 = k3" "current k3 = Some a" "cpu3 = irq_restore (ctx (tcbs ?k2 a)) cpu2"
    by (auto elim!: thread_switch_spec)
  then show ?thesis using saved kept by (simp add: restore_save)
qed

theorem context_switch_roundtrip_witness:
  "\<exists>cpu1 k1 cpu3 k3. context_switch demo_image (Some 2) (demo_cpu, demo_kernel) = Inr (cpu1, k1) \<and>
     context_switch demo_image (Some 4) (cpu1, k1) = Inr (cpu3, k3) \<and>
     r4_r11 cpu3 = [1, 2, 3, 4, 5, 6, 7, 8] \<and> cpu_sp cpu3 = 0x20005000"
proof -
  let ?k = "upd_tcb 4 (ctx_update (irq_save demo_cpu)) demo_kernel"
  let ?k1 = "?k\<lparr>current := Some 2, current_utcb := t_utcb (tcbs ?k 2)\<rparr>"
  let ?cpu1 = "irq_restore (ctx (tcbs ?k1 2)) demo_cpu"
  let ?k2 = "upd_tcb 2 (ctx_update (irq_save ?cpu1)) ?k1"
  let ?k3 = "?k2\<lparr>current := Some 4, current_utcb := t_utcb (tcbs ?k2 4)\<rparr>"
  let ?cpu3 = "irq_restore (ctx (tcbs ?k3 4)) ?cpu1"
  have cur: "current demo_kernel = Some 4" "current ?k1 = Some 2" by (simp_all add: demo_kernel_def)
  have s: "t_state (tcbs demo_kernel 2) = T_RUNNABLE" "t_as (tcbs demo_kernel 2) = None"
    "t_state (tcbs demo_kernel 4) = T_RUNNABLE" "t_as (tcbs demo_kernel 4) = None"
    by (simp_all add: demo_kernel_def demo_tcb_def)
  have a: "context_switch demo_image (Some 2) (demo_cpu, demo_kernel) = Inr (?cpu1, ?k1)"
    using cur s by (simp add: context_switch_def thread_switch_def thread_isrunnable_def assert_impl_def Let_def)
  have b: "context_switch demo_image (Some 4) (?cpu1, ?k1) = Inr (?cpu3, ?k3)"
    using cur s by (simp add: context_switch_def thread_switch_def thread_isrunnable_def assert_impl_def Let_def)
  have "r4_r11 ?cpu3 = r4_r11 demo_cpu \<and> cpu_sp ?cpu3 = cpu_sp demo_cpu"
    using context_switch_roundtrip [OF cur(1) a _ refl cur(2) _ b] by simp
  moreover have "r4_r11 demo_cpu = [1, 2, 3, 4, 5, 6, 7, 8]" "cpu_sp demo_cpu = 0x20005000"
    by (simp_all add: demo_cpu_def cpu_sp_def on_main_stack_def)
  ultimately show ?thesis using a b by metis
qed

end
