(* ===== verification/F9_Ktimer_Spec.thy ===== *)
theory F9_Ktimer_Spec
  imports F9_Ktimer F9_Sched_Spec
begin

text \<open>
  Correctness of the kernel timer: the countdown fires on the right tick, and an event enters the
  queue between the events due before and after it. The exact deltas that the code stores are stated
  as well; with more than one later event they move the later events to earlier times.
\<close>

section \<open>The queue as a list\<close>

abbreviation enext :: "ktimer_t \<Rightarrow> nat \<Rightarrow> ptr" where
  "enext kt \<equiv> \<lambda>i. ev_next (kt_events kt i)"

definition events :: "ktimer_t \<Rightarrow> nat list \<Rightarrow> bool" where
  "events kt es \<longleftrightarrow> lseg (enext kt) (event_queue kt) es None \<and> set es \<subseteq> {..<CONFIG_MAX_KT_EVENTS}"

lemma events_bound: "events kt es \<Longrightarrow> length es < EVENT_FUEL"
  using distinct_bounded [of es CONFIG_MAX_KT_EVENTS] lseg_None_distinct
  by (fastforce simp: events_def EVENT_FUEL_def)

text \<open>The ticks from now to the last of the events \<open>xs\<close>.\<close>

definition total :: "ktimer_t \<Rightarrow> nat list \<Rightarrow> nat" where
  "total kt xs = sum_list (map (\<lambda>i. unat (ev_delta (kt_events kt i))) xs)"

lemma total_simps [simp]:
  "total kt [] = 0"
  "total kt (x # xs) = unat (ev_delta (kt_events kt x)) + total kt xs"
  "total kt (xs @ ys) = total kt xs + total kt ys"
  by (simp_all add: total_def)

lemma upd_event_simps [simp]:
  "kt_events (upd_event i f kt) = (kt_events kt)(i := f (kt_events kt i))"
  "event_queue (upd_event i f kt) = event_queue kt"
  "ktimer_event_table (upd_event i f kt) = ktimer_event_table kt"
  "ktimer_enabled (upd_event i f kt) = ktimer_enabled kt"
  "ktimer_delta (upd_event i f kt) = ktimer_delta kt"
  "ktimer_time (upd_event i f kt) = ktimer_time kt"
  by (simp_all add: upd_event_def)

lemma recalc_spec:
  assumes "lseg (enext kt) p ys None" "length ys < fuel" "distinct ys"
  shows "ktimer_event_recalc fuel p d kt = Inr (kt\<lparr>kt_events := \<lambda>i.
    if i \<in> set ys then (kt_events kt i)\<lparr>ev_delta := ev_delta (kt_events kt i) - d\<rparr> else kt_events kt i\<rparr>)"
  using assms
proof (induction ys arbitrary: p fuel kt)
  case Nil
  then show ?case by (cases fuel) auto
next
  case (Cons y ys)
  then obtain n where n: "fuel = Suc n" by (cases fuel) auto
  let ?kt = "upd_event y (ev_delta_update (\<lambda>x. x - d)) kt"
  have "enext ?kt = enext kt" by auto
  then have "ktimer_event_recalc n (enext kt y) d ?kt = Inr (?kt\<lparr>kt_events := \<lambda>i.
     if i \<in> set ys then (kt_events ?kt i)\<lparr>ev_delta := ev_delta (kt_events ?kt i) - d\<rparr> else kt_events ?kt i\<rparr>)"
    using Cons.IH [of ?kt "enext kt y" n] Cons.prems n by simp
  moreover have "(\<lambda>i. if i \<in> set ys then (kt_events ?kt i)\<lparr>ev_delta := ev_delta (kt_events ?kt i) - d\<rparr>
      else kt_events ?kt i) =
    (\<lambda>i. if i \<in> set (y # ys) then (kt_events kt i)\<lparr>ev_delta := ev_delta (kt_events kt i) - d\<rparr>
      else kt_events kt i)"
    using Cons.prems(3) by auto
  ultimately show ?case using Cons.prems n by (simp add: Let_def upd_event_def)
qed

lemma event_search_spec:
  assumes "lseg (enext kt) (Some e) es None" "length es < fuel"
    "unat etime + total kt es < 4294967296" "unat etime + unat (ev_delta (kt_events kt e)) \<le> unat t"
  shows "\<exists>xs ys d. es = xs @ ys \<and> xs \<noteq> [] \<and>
    event_search fuel kt t etime e = Inr (last xs, hd_opt ys, d) \<and>
    unat t = unat etime + total kt xs + unat d \<and>
    (ys \<noteq> [] \<longrightarrow> unat d \<le> unat (ev_delta (kt_events kt (hd ys))))"
  using assms
proof (induction fuel arbitrary: e es etime)
  case (Suc n)
  from Suc.prems(1) obtain rs where es: "es = e # rs" "lseg (enext kt) (enext kt e) rs None"
    by (cases es) auto
  let ?et = "etime + ev_delta (kt_events kt e)"
  have et: "unat ?et = unat etime + unat (ev_delta (kt_events kt e))"
    using Suc.prems(3) es by (intro unat_add32) simp
  have d: "unat (t - ?et) = unat t - unat ?et" using Suc.prems(4) et by (intro unat_sub32) simp
  show ?case
  proof (cases rs)
    case Nil
    then have "event_search (Suc n) kt t etime e = Inr (e, None, t - ?et)" using es by (simp add: Let_def)
    then show ?thesis using es Nil d et Suc.prems(4) by (intro exI [of _ "[e]"] exI [of _ "[]"]) simp
  next
    case (Cons x xs)
    then have nx: "enext kt e = Some x" using es by simp
    have x: "unat (?et + ev_delta (kt_events kt x)) = unat ?et + unat (ev_delta (kt_events kt x))"
      using Suc.prems(3) es Cons et by (intro unat_add32) simp
    show ?thesis
    proof (cases "t > ?et + ev_delta (kt_events kt x)")
      case True
      then have "unat ?et + unat (ev_delta (kt_events kt x)) \<le> unat t" using x by (simp add: word_less_nat_alt)
      moreover have "unat ?et + total kt rs < 4294967296" using Suc.prems(3) es et by simp
      ultimately obtain us ys d' where "rs = us @ ys" "us \<noteq> []"
        "event_search n kt t ?et x = Inr (last us, hd_opt ys, d')" "unat t = unat ?et + total kt us + unat d'"
        "ys \<noteq> [] \<longrightarrow> unat d' \<le> unat (ev_delta (kt_events kt (hd ys)))"
        using Suc.IH [of x rs ?et] Suc.prems(2) es nx by auto
      then show ?thesis using es nx True et
        by (intro exI [of _ "e # us"] exI [of _ ys] exI [of _ d']) (simp add: Let_def)
    next
      case False
      then have "event_search (Suc n) kt t etime e = Inr (e, Some x, t - ?et)" using nx by (simp add: Let_def)
      moreover have "unat (t - ?et) \<le> unat (ev_delta (kt_events kt x))"
        using False x d by (simp add: word_less_nat_alt not_less)
      ultimately show ?thesis using es Cons d et Suc.prems(4)
        by (intro exI [of _ "[e]"] exI [of _ rs] exI [of _ "t - ?et"]) simp
    qed
  qed
qed simp

section \<open>Insertion\<close>

text \<open>
  The queue after \<open>kte\<close> has entered it between \<open>xs\<close> and \<open>ys\<close> with delta \<open>d\<close>: the code rounds a small
  delta down to 0 and subtracts the result from every later event.
\<close>

definition min_ticks :: "u32 \<Rightarrow> u32" where
  "min_ticks d = (if sint d < CONFIG_KTIMER_MINTICKS then 0 else d)"

definition queued :: "ktimer_t \<Rightarrow> nat list \<Rightarrow> nat \<Rightarrow> nat list \<Rightarrow> u32 \<Rightarrow> ktimer_t \<Rightarrow> bool" where
  "queued kt xs kte ys d kt' \<longleftrightarrow> events kt' (xs @ kte # ys) \<and> ev_delta (kt_events kt' kte) = min_ticks d \<and>
     (\<forall>x\<in>set xs. ev_delta (kt_events kt' x) = ev_delta (kt_events kt x)) \<and>
     (\<forall>y\<in>set ys. ev_delta (kt_events kt' y) = ev_delta (kt_events kt y) - min_ticks d)"

text \<open>The last part of the code, from a state in which the predecessor already points to \<open>kte\<close>.\<close>

lemma queued_chain:
  assumes "lseg (enext kp) (event_queue kp) (xs @ [kte]) (enext kp kte)" "lseg (enext kp) (hd_opt ys) ys None"
    "kte \<notin> set xs" "kte \<notin> set ys" "distinct ys" "set xs \<inter> set ys = {}"
    "set (xs @ kte # ys) \<subseteq> {..<CONFIG_MAX_KT_EVENTS}" "length ys < EVENT_FUEL"
    "\<And>i. ev_delta (kt_events kp i) = ev_delta (kt_events kt i) \<or> i = kte"
  obtains kt' where
    "ktimer_event_recalc EVENT_FUEL (hd_opt ys) (min_ticks d)
       (upd_event kte (\<lambda>e. e\<lparr>ev_next := hd_opt ys, ev_delta := min_ticks d\<rparr>) kp) = Inr kt'"
    "queued kt xs kte ys d kt'"
    "ktimer_enabled kt' = ktimer_enabled kp" "ktimer_delta kt' = ktimer_delta kp"
proof -
  let ?kt = "upd_event kte (\<lambda>e. e\<lparr>ev_next := hd_opt ys, ev_delta := min_ticks d\<rparr>) kp"
  define kt' where "kt' = ?kt\<lparr>kt_events := \<lambda>i. if i \<in> set ys
     then (kt_events ?kt i)\<lparr>ev_delta := ev_delta (kt_events ?kt i) - min_ticks d\<rparr> else kt_events ?kt i\<rparr>"
  have "lseg (enext ?kt) (hd_opt ys) ys None"
    using assms(4) by (intro lseg_transfer [OF assms(2)]) auto
  then have "ktimer_event_recalc EVENT_FUEL (hd_opt ys) (min_ticks d) ?kt = Inr kt'"
    unfolding kt'_def using assms(5,8) by (intro recalc_spec)
  moreover have nx: "enext kt' = (enext kp)(kte := hd_opt ys)" by (auto simp: kt'_def)
  have q: "event_queue kt' = event_queue kp" by (simp add: kt'_def)
  have "lseg (enext kt') (event_queue kt') (xs @ kte # ys) None"
    unfolding nx q using assms(1-4) by (auto simp: lseg_append lseg_snoc lseg_middle)
  then have "queued kt xs kte ys d kt'"
    using assms(3,4,6,7,9) unfolding queued_def events_def by (auto simp: kt'_def)
  ultimately show thesis using that by (simp add: kt'_def)
qed

lemma ktimer_event_schedule_spec:
  assumes ev: "events kt es" and ne: "es \<noteq> []" and new: "kte \<notin> set es" "kte < CONFIG_MAX_KT_EVENTS"
    and t: "ticks \<noteq> 0" "t = ticks - ucast (ktimer_time kt)" and sum: "total kt es < 4294967296"
  obtains xs ys d kt' where "es = xs @ ys" "ktimer_event_schedule ticks kte kt = Inr (0, kt')"
    "queued kt xs kte ys d kt'" "unat t = total kt xs + unat d"
    "ys \<noteq> [] \<longrightarrow> unat d \<le> unat (ev_delta (kt_events kt (hd ys)))"
    "xs = [] \<longrightarrow> t < ev_delta (kt_events kt (hd es))"
    "xs = [] \<longrightarrow> ktimer_delta kt' = (if ktimer_enabled kt = 0 then t else ktimer_delta kt)"
proof -
  have chain: "lseg (enext kt) (event_queue kt) es None" and sub: "set es \<subseteq> {..<CONFIG_MAX_KT_EVENTS}"
    using ev by (simp_all add: events_def)
  have dist: "distinct es" by (rule lseg_None_distinct [OF chain])
  obtain e rs where es: "es = e # rs" "event_queue kt = Some e" using ne chain by (cases es) auto
  let ?kt = "upd_event kte (ev_next_update (\<lambda>_. None)) kt"
  have nx: "enext ?kt = (enext kt)(kte := None)" by auto
  have chain': "lseg (enext ?kt) (Some e) es None" unfolding nx using chain es new(1) by simp
  have dl: "ev_delta (kt_events ?kt i) = ev_delta (kt_events kt i)" for i by simp
  have tot: "total ?kt zs = total kt zs" for zs by (induction zs) auto
  have base: "ktimer_event_schedule ticks kte kt =
      bindF (if t \<ge> ev_delta (kt_events kt e)
             then bindF (event_search EVENT_FUEL ?kt t 0 e) (\<lambda>(event, next_event, delta).
                  Inr (next_event, delta, upd_event event (ev_next_update (\<lambda>_. Some kte)) ?kt))
             else Inr (Some e, t, ktimer_enable t (?kt\<lparr>event_queue := Some kte\<rparr>)))
        (\<lambda>(next_event, delta, kt).
      bindF (ktimer_event_recalc EVENT_FUEL next_event (min_ticks delta)
         (upd_event kte (\<lambda>e. e\<lparr>ev_next := next_event, ev_delta := min_ticks delta\<rparr>) kt)) (\<lambda>kt. Inr (0, kt)))"
    using t es(2) by (simp add: ktimer_event_schedule_def Let_def min_ticks_def dl)
  show thesis
  proof (cases "t \<ge> ev_delta (kt_events kt e)")
    case True
    obtain xs ys d where s: "es = xs @ ys" "xs \<noteq> []"
      "event_search EVENT_FUEL ?kt t 0 e = Inr (last xs, hd_opt ys, d)" "unat t = total kt xs + unat d"
      "ys \<noteq> [] \<longrightarrow> unat d \<le> unat (ev_delta (kt_events kt (hd ys)))"
      using event_search_spec [OF chain' events_bound [OF ev], of 0 t, unfolded tot dl] True sum
      by (auto simp: word_le_nat_alt)
    let ?kt1 = "upd_event (last xs) (ev_next_update (\<lambda>_. Some kte)) ?kt"
    have "set xs \<inter> set ys = {}" "kte \<notin> set xs" using s(1) dist new(1) by auto
    then have l: "last xs \<in> set xs" "last xs \<notin> set ys" "last xs \<noteq> kte" using last_in_set [OF s(2)] by blast+
    have nx1: "enext ?kt1 = ((enext ?kt)(last xs := Some kte))" by auto
    have "lseg (enext ?kt) (Some e) xs (hd_opt ys)" "lseg (enext ?kt) (hd_opt ys) ys None"
      using chain' s(1) by (auto simp: lseg_append dest: lseg_hd)
    then have "lseg (enext ?kt1) (event_queue ?kt1) (xs @ [kte]) (enext ?kt1 kte)"
      "lseg (enext ?kt1) (hd_opt ys) ys None"
      using lseg_redirect [of "enext ?kt" "Some e" xs "hd_opt ys" "Some kte"] s(1,2) dist l es
      unfolding nx1 by (auto simp: lseg_snoc)
    then obtain kt' where "ktimer_event_recalc EVENT_FUEL (hd_opt ys) (min_ticks d)
         (upd_event kte (\<lambda>e. e\<lparr>ev_next := hd_opt ys, ev_delta := min_ticks d\<rparr>) ?kt1) = Inr kt'"
      "queued kt xs kte ys d kt'"
      using s(1) dist new sub events_bound [OF ev]
      by (elim queued_chain [where kt = kt and d = d]) auto
    then show thesis using that [of xs ys kt' d] base True s by simp
  next
    case False
    let ?kt1 = "ktimer_enable t (?kt\<lparr>event_queue := Some kte\<rparr>)"
    have k1: "kt_events ?kt1 = kt_events ?kt" "event_queue ?kt1 = Some kte" by (simp_all add: ktimer_enable_def)
    have "lseg (enext ?kt1) (event_queue ?kt1) ([] @ [kte]) (enext ?kt1 kte)" by (simp add: k1)
    moreover have "lseg (enext ?kt1) (hd_opt es) es None" unfolding k1 using chain' es by simp
    ultimately obtain kt' where "ktimer_event_recalc EVENT_FUEL (hd_opt es) (min_ticks t)
         (upd_event kte (\<lambda>e. e\<lparr>ev_next := hd_opt es, ev_delta := min_ticks t\<rparr>) ?kt1) = Inr kt'"
      "queued kt [] kte es t kt'" "ktimer_delta kt' = ktimer_delta ?kt1"
      using new sub dist events_bound [OF ev]
      by (elim queued_chain [where kt = kt and d = t]) (auto simp: k1)
    then show thesis using that [of "[]" es kt' t] base False es
      by (simp add: ktimer_enable_def word_le_nat_alt not_le word_less_nat_alt)
  qed
qed

section \<open>The countdown\<close>

fun run_ticks :: "nat \<Rightarrow> kernel_t \<Rightarrow> kernel_t outcome" where
  "run_ticks 0 k = Inr k"
| "run_ticks (Suc n) k = bindF (run_ticks n k) ktimer_handler"

lemma upd_ktimer_simps [simp]:
  "ktimer (upd_ktimer f k) = f (ktimer k)" "softirq (upd_ktimer f k) = softirq k"
  "kernel (upd_ktimer f k) = kernel k" "tcbs (upd_ktimer f k) = tcbs k"
  by (simp_all add: upd_ktimer_def)

text \<open>A tick that is not the last one only counts.\<close>

lemma ktimer_handler_counts:
  assumes "ktimer_enabled (ktimer k) \<noteq> 0" "1 < unat (ktimer_delta (ktimer k))"
  obtains k' where "ktimer_handler k = Inr k'" "ktimer_enabled (ktimer k') = ktimer_enabled (ktimer k)"
    "unat (ktimer_delta (ktimer k')) = unat (ktimer_delta (ktimer k)) - 1"
    "softirq k' = softirq k" "kernel k' = kernel k" "tcbs k' = tcbs k"
proof -
  let ?d = "ktimer_delta (ktimer k)"
  have u: "unat (?d - 1) = unat ?d - 1" using assms(2) unat_sub32 [of 1 ?d] by simp
  then have "?d - 1 \<noteq> 0" "?d > 0" using assms(2) by (auto simp: word_less_nat_alt)
  then show thesis using that assms(1) u by (simp add: ktimer_handler_def Let_def)
qed

lemma run_ticks_counts:
  assumes "ktimer_enabled (ktimer k) \<noteq> 0" "n < unat (ktimer_delta (ktimer k))"
  obtains k' where "run_ticks n k = Inr k'" "ktimer_enabled (ktimer k') = ktimer_enabled (ktimer k)"
    "unat (ktimer_delta (ktimer k')) = unat (ktimer_delta (ktimer k)) - n"
    "softirq k' = softirq k" "kernel k' = kernel k" "tcbs k' = tcbs k"
proof -
  have "\<exists>k'. run_ticks n k = Inr k' \<and> ktimer_enabled (ktimer k') = ktimer_enabled (ktimer k) \<and>
    unat (ktimer_delta (ktimer k')) = unat (ktimer_delta (ktimer k)) - n \<and>
    softirq k' = softirq k \<and> kernel k' = kernel k \<and> tcbs k' = tcbs k"
    using assms(2)
  proof (induction n)
    case (Suc n)
    then obtain k1 where k1: "run_ticks n k = Inr k1" "ktimer_enabled (ktimer k1) = ktimer_enabled (ktimer k)"
      "unat (ktimer_delta (ktimer k1)) = unat (ktimer_delta (ktimer k)) - n"
      "softirq k1 = softirq k" "kernel k1 = kernel k" "tcbs k1 = tcbs k" by auto
    have "ktimer_enabled (ktimer k1) \<noteq> 0" "1 < unat (ktimer_delta (ktimer k1))"
      using k1 Suc.prems assms(1) by auto
    then show ?case by (rule ktimer_handler_counts) (use k1 in auto)
  qed simp
  then show thesis using that by blast
qed

section \<open>Properties\<close>


text \<open>A queue of three events, 1000 ticks apart, on a running timer.\<close>

definition demo_ktimer :: ktimer_t where
  "demo_ktimer =
     \<lparr>ktimer_event_table = DECLARE_KTABLE ''ktimer_event_table'' 0x20002000 16 CONFIG_MAX_KT_EVENTS,
      kt_events = (\<lambda>i. \<lparr>ev_next = if i < 2 then Some (i + 1) else None, ev_handler = Ipc_timeout,
                        ev_delta = 1000, ev_data = None\<rparr>),
      event_queue = Some 0, ktimer_now = 0, ktimer_enabled = 1, ktimer_delta = 1000, ktimer_time = 0\<rparr>"

lemma demo_ktimer_events: "events demo_ktimer [0, 1, 2]" "total demo_ktimer [0, 1, 2] = 3000"
  by (simp_all add: events_def demo_ktimer_def CONFIG_MAX_KT_EVENTS_def)


text \<open>
  C20: a running timer with \<open>n + 1\<close> ticks to go requests the event soft interrupt on exactly the tick
  \<open>n + 1\<close>: after \<open>n\<close> ticks nothing has been requested, after one more the request is set, the timer
  is stopped and the kernel thread is runnable.
\<close>

theorem ktimer_fires_on_time:
  assumes run: "ktimer_enabled (ktimer k) \<noteq> 0" "unat (ktimer_delta (ktimer k)) = Suc n"
    and kern: "kernel k = Some t" "length (softirq k) = NR_SOFTIRQ"
  shows "\<exists>k1 k2. run_ticks n k = Inr k1 \<and> softirq k1 = softirq k \<and> tcbs k1 = tcbs k \<and>
    run_ticks (Suc n) k = Inr k2 \<and> si_schedule (softirq k2 ! softirq_index KTE_SOFTIRQ) = 1 \<and>
    ktimer_enabled (ktimer k2) = 0 \<and> t_state (tcbs k2 t) = T_RUNNABLE"
proof -
  obtain k1 where k1: "run_ticks n k = Inr k1" "ktimer_enabled (ktimer k1) = ktimer_enabled (ktimer k)"
    "unat (ktimer_delta (ktimer k1)) = unat (ktimer_delta (ktimer k)) - n"
    "softirq k1 = softirq k" "kernel k1 = kernel k" "tcbs k1 = tcbs k"
    by (rule run_ticks_counts [of k n]) (use run in auto)
  then have "ktimer_delta (ktimer k1) = 1" using run(2) by (simp add: word_unat_eq_iff)
  then obtain k2 where "ktimer_handler k1 = Inr k2" "si_schedule (softirq k2 ! softirq_index KTE_SOFTIRQ) = 1"
    "ktimer_enabled (ktimer k2) = 0" "t_state (tcbs k2 t) = T_RUNNABLE"
    using k1 run(1) kern
    by (auto simp: ktimer_handler_def Let_def softirq_schedule_def set_kernel_state_def upd_softirq_def
        atomic_set_def NR_SOFTIRQ_def)
  then show ?thesis using k1 by auto
qed

theorem ktimer_fires_on_time_witness:
  "\<exists>k1 k2. run_ticks 2 (demo_kernel\<lparr>ktimer := demo_ktimer\<lparr>ktimer_delta := 3\<rparr>\<rparr>) = Inr k1 \<and>
     run_ticks (Suc 2) (demo_kernel\<lparr>ktimer := demo_ktimer\<lparr>ktimer_delta := 3\<rparr>\<rparr>) = Inr k2 \<and>
     si_schedule (softirq k1 ! softirq_index KTE_SOFTIRQ) = 0 \<and>
     si_schedule (softirq k2 ! softirq_index KTE_SOFTIRQ) = 1"
proof -
  let ?k = "demo_kernel\<lparr>ktimer := demo_ktimer\<lparr>ktimer_delta := 3\<rparr>\<rparr>"
  have "ktimer_enabled (ktimer ?k) \<noteq> 0" "unat (ktimer_delta (ktimer ?k)) = Suc 2" "kernel ?k = Some 1"
    "length (softirq ?k) = NR_SOFTIRQ"
    by (simp_all add: demo_kernel_def demo_ktimer_def)
  moreover have "si_schedule (softirq ?k ! softirq_index KTE_SOFTIRQ) = 0"
    by (simp add: demo_kernel_def NR_SOFTIRQ_def)
  ultimately show ?thesis using ktimer_fires_on_time [of ?k 2 1] by metis
qed



end
