(* ===== verification/F9_Kernel_Inv.thy ===== *)
theory F9_Kernel_Inv
  imports F9_Kernel F9_Irq_Spec F9_Ktimer_Spec
begin

text \<open>
  An invariant of the whole kernel. The steps of the system are those of the code: interrupts of the timer
  and of the serial port, system calls, memory faults, breakpoints, soft interrupts with the debugger,
  context switches and idling, in any order, with arbitrary user code in between. In every state that they
  reach from a completed start, the idle thread is runnable in the last scheduler slot, and the scheduler never runs past its slots.
\<close>

section \<open>The idle thread\<close>

text \<open>The thread map only names slots of the thread table.\<close>

definition map_in :: "kernel_t \<Rightarrow> bool" where
  "map_in k \<longleftrightarrow> (\<forall>i. Some i \<in> set (thread_map k) \<longrightarrow> i < ktable_cap (thread_table k))"

definition idle_ok :: "nat \<Rightarrow> kernel_t \<Rightarrow> bool" where
  "idle_ok d k \<longleftrightarrow>
     idle k = Some d \<and> length (slots k) = NUM_SCHED_SLOTS \<and> length (softirq k) = NR_SOFTIRQ \<and>
     ss_scheduled (slots k ! slot_index SSI_IDLE) = Some d \<and>
     t_state (tcbs k d) = T_RUNNABLE \<and> t_as (tcbs k d) = None \<and>
     ktable_ok (thread_table k) \<and> d \<in> ktable_used (thread_table k) \<and> map_in k \<and>
     caller k \<noteq> Some d \<and> kernel k \<noteq> Some d"

text \<open>The parts of the state that the invariant does not read.\<close>

lemma idle_ok_frame [simp]:
  "idle_ok d (upd_mem m k) = idle_ok d k"
  "idle_ok d (write_ram a v k) = idle_ok d k"
  "idle_ok d (upd_ktimer f k) = idle_ok d k"
  "idle_ok d (k\<lparr>ktimer := kt\<rparr>) = idle_ok d k"
  "idle_ok d (k\<lparr>ram := r\<rparr>) = idle_ok d k"
  "idle_ok d (store_reg a v k) = idle_ok d k"
  "idle_ok d (k\<lparr>thread_count := n\<rparr>) = idle_ok d k"
  "idle_ok d (k\<lparr>current := c\<rparr>) = idle_ok d k"
  "idle_ok d (k\<lparr>current_utcb := u\<rparr>) = idle_ok d k"
  "idle_ok d (upd_softirq s g k) = idle_ok d k"
  by (auto simp: idle_ok_def map_in_def store_reg_def upd_ktimer_def upd_softirq_def)

lemma idle_ok_tcb:
  "idle_ok d k \<Longrightarrow> t \<noteq> d \<Longrightarrow> idle_ok d (upd_tcb t f k)"
  "idle_ok d k \<Longrightarrow> t \<noteq> d \<or> st = T_RUNNABLE \<Longrightarrow> idle_ok d (set_state t st k)"
  by (auto simp: idle_ok_def map_in_def set_state_def)

lemma idle_ok_tcb_any:
  "idle_ok d k \<Longrightarrow> (\<And>x. t_state (f x) = t_state x \<and> t_as (f x) = t_as x) \<Longrightarrow> idle_ok d (upd_tcb t f k)"
  by (auto simp: idle_ok_def map_in_def)

lemma idle_ok_links [simp]:
  "idle_ok d (upd_tcb t (t_parent_update f) k) = idle_ok d k"
  "idle_ok d (upd_tcb t (t_child_update f) k) = idle_ok d k"
  "idle_ok d (upd_tcb t (t_sibling_update f) k) = idle_ok d k"
  "idle_ok d (upd_tcb t (t_localid_update g) k) = idle_ok d k"
  by (auto simp: idle_ok_def map_in_def)

lemma idle_ok_slots:
  "idle_ok d k \<Longrightarrow> s \<noteq> SSI_IDLE \<Longrightarrow> idle_ok d (sched_slot_dispatch s t k)"
  by (cases s) (simp_all add: idle_ok_def map_in_def sched_slot_dispatch_def upd_slot_def NUM_SCHED_SLOTS_def)

lemma idle_okD:
  assumes "idle_ok d k"
  shows "caller k = Some c \<Longrightarrow> c \<noteq> d" "kernel k = Some c \<Longrightarrow> c \<noteq> d"
    "t_state (tcbs k t) \<noteq> T_RUNNABLE \<Longrightarrow> t \<noteq> d" "t_as (tcbs k t) \<noteq> None \<Longrightarrow> t \<noteq> d"
  using assms by (auto simp: idle_ok_def)

section \<open>Every operation keeps it\<close>

text \<open>The invariant reads neither the device log, nor the debug state, nor memory.\<close>

lemma idle_probe_only: "probe_only k k' \<Longrightarrow> idle_ok d k' = idle_ok d k"
proof -
  have "idle_ok d (without_probes k) = idle_ok d k" for k
    by (simp add: without_probes_def idle_ok_def map_in_def)
  then show "probe_only k k' \<Longrightarrow> idle_ok d k' = idle_ok d k" unfolding probe_only_def by metis
qed

lemmas idle_io_only = idle_probe_only [OF io_probe]

lemma idle_set_caller_state:
  "set_caller_state st k = Inr k' \<Longrightarrow> idle_ok d k \<Longrightarrow> idle_ok d k'"
  by (auto simp: set_caller_state_def set_state_def idle_ok_def map_in_def)

lemma idle_set_kernel_state:
  "set_kernel_state st k = Inr k' \<Longrightarrow> idle_ok d k \<Longrightarrow> idle_ok d k'"
  by (auto simp: set_kernel_state_def idle_ok_def map_in_def)

lemma idle_softirq_schedule:
  "softirq_schedule s k = Inr k' \<Longrightarrow> idle_ok d k \<Longrightarrow> idle_ok d k'"
  unfolding softirq_schedule_def by (erule idle_set_kernel_state) simp

lemma idle_ktimer_handler:
  "ktimer_handler k = Inr k' \<Longrightarrow> idle_ok d k \<Longrightarrow> idle_ok d k'"
  by (auto simp: ktimer_handler_def Let_def split: if_splits)
    (erule idle_softirq_schedule, simp)

lemma idle_utcb_write:
  "utcb_write p off v k = Inr k' \<Longrightarrow> idle_ok d k \<Longrightarrow> idle_ok d k'"
  by (auto simp: utcb_write_def split: if_splits)

lemma idle_set_user_error:
  "set_user_error t e k = Inr k' \<Longrightarrow> idle_ok d k \<Longrightarrow> idle_ok d k'"
  by (auto simp: set_user_error_def panic_def split: option.splits intro: idle_utcb_write)

lemma idle_set_caller_error:
  "set_caller_error e k = Inr k' \<Longrightarrow> idle_ok d k \<Longrightarrow> idle_ok d k'"
  by (auto simp: set_caller_error_def panic_def split: if_splits intro: idle_set_user_error)

lemma idle_ktimer_event_create:
  "ktimer_event_create ticks h data k = Inr (r, k') \<Longrightarrow> idle_ok d k \<Longrightarrow> idle_ok d k'"
  by (auto simp: ktimer_event_create_def Let_def split: option.splits prod.splits)

subsection \<open>Message passing\<close>

lemma idle_ipc_write_mr:
  "ipc_write_mr t i w k = Inr k' \<Longrightarrow> idle_ok d k \<Longrightarrow> idle_ok d k'"
  by (auto simp: ipc_write_mr_def split: if_splits intro: idle_utcb_write idle_ok_tcb_any)

lemma idle_copy_untyped:
  "copy_untyped n i from t k = Inr k' \<Longrightarrow> idle_ok d k \<Longrightarrow> idle_ok d k'"
  by (induction n arbitrary: i k) (auto dest: idle_ipc_write_mr)

lemma idle_map_item:
  "map_item im from t item data k = Inr k' \<Longrightarrow> idle_ok d k \<Longrightarrow> idle_ok d k'"
  by (auto simp: map_item_def)

lemma idle_copy_typed:
  "copy_typed n im i item from t k = Inr k' \<Longrightarrow> idle_ok d k \<Longrightarrow> idle_ok d k'"
proof (induction n arbitrary: i item k)
  case (Suc n)
  then obtain w k1 where k1: "ipc_write_mr t i w k = Inr k1" "idle_ok d k1" "ipc_read_mr k from i = Inr w"
    by (auto intro: idle_ipc_write_mr)
  show ?case
  proof (cases item)
    case None
    then show ?thesis using Suc k1 by simp
  next
    case (Some it)
    show ?thesis
    proof (cases "item_header it AND IPC_TI_MAP_GRANT \<noteq> 0")
      case True
      with Some Suc.prems k1 obtain k2 where "map_item im from t it w k1 = Inr k2"
        "copy_typed n im (Suc i) None from t k2 = Inr k'" by auto
      then show ?thesis using Suc.IH idle_map_item k1(2) by metis
    next
      case False
      then show ?thesis using Some Suc k1 by simp
    qed
  qed
qed simp

lemma idle_finish_ipc:
  assumes "finish_ipc from t k = Inr k'" "idle_ok d k" "from \<noteq> d"
  shows "idle_ok d k'"
proof -
  obtain k1 where k1: "utcb_write (t_utcb (tcbs k t)) UTCB_sender (t_globalid (tcbs k from)) k = Inr k1"
    using assms(1) by (auto simp: finish_ipc_def)
  then have "idle_ok d k1" using assms(2) by (rule idle_utcb_write)
  then have "idle_ok d (upd_tcb t (\<lambda>x. x\<lparr>t_state := T_RUNNABLE, ipc_from := L4_NILTHREAD\<rparr>) k1)"
    by (auto simp: idle_ok_def map_in_def)
  then show ?thesis using assms(1,3) k1
    by (auto simp: finish_ipc_def Let_def split: if_splits intro!: idle_ok_tcb idle_ok_slots)
qed

lemma idle_do_ipc:
  assumes "do_ipc im from t k = Inr k'" "idle_ok d k" "from \<noteq> d"
  shows "idle_ok d k'"
  using assms
  by (auto simp: do_ipc_def Let_def split: if_splits dest!: idle_set_user_error idle_ipc_write_mr
      idle_copy_untyped idle_copy_typed idle_set_caller_state idle_finish_ipc)

lemma idle_ipc_sleep:
  assumes "ipc_sleep c timeout k = Inr k'" "idle_ok d k" "c \<noteq> d"
  shows "idle_ok d k'"
  using assms idle_ok_tcb(2) [of d k c T_INACTIVE]
  by (auto simp: ipc_sleep_def split: prod.splits dest: idle_ktimer_event_create)

lemma idle_thread_init_ctx [simp]: "idle_ok d (thread_init_ctx im sp pc t k) = idle_ok d k"
  by (auto simp: thread_init_ctx_def Let_def idle_ok_def map_in_def)

lemma idle_thread_start:
  assumes "thread_start im c t k = Inr k'" "idle_ok d k"
  shows "idle_ok d k'"
proof -
  have "idle_ok d (upd_tcb t (\<lambda>x. x\<lparr>stack_base := b, stack_size := n\<rparr>) k)" for b n
    using assms(2) by (rule idle_ok_tcb_any) simp
  then show ?thesis using assms(1) by (auto simp: thread_start_def Let_def intro!: idle_ok_tcb(2))
qed

lemma idle_sys_ipc:
  assumes run: "sys_ipc im p k = Inr k'" and ok: "idle_ok d k"
  shows "idle_ok d k'"
proof -
  obtain c where c: "caller k = Some c" using run by (auto simp: sys_ipc_def)
  then have cd: "c \<noteq> d" using ok idle_okD(1) by blast
  let ?to = "ram k (stack_word p REG_R0)" and ?tmo = "ram k (stack_word p REG_R2)"
  consider "?to = L4_NILTHREAD" "?tmo \<noteq> 0" | "?to \<noteq> L4_NILTHREAD" | "?to = L4_NILTHREAD" "?tmo = 0" by blast
  then show ?thesis
  proof cases
    case 1
    then show ?thesis using run c cd ok by (auto simp: sys_ipc_def intro: idle_ipc_sleep)
  next
    case 2
    then obtain q where q: "thread_by_globalid k ?to = Inr q" using run c by (auto simp: sys_ipc_def Let_def)
    have do: "do_ipc im c t k = Inr k'' \<Longrightarrow> idle_ok d k''" for t k'' using idle_do_ipc ok cd by blast
    have blk: "idle_ok d (set_state c st k)" for st using ok cd by (intro idle_ok_tcb(2)) auto
    have inact: "idle_ok d (set_state t T_INACTIVE k'')" if "t_state (tcbs k t) = T_INACTIVE" "idle_ok d k''" for t k''
      using that ok by (intro idle_ok_tcb(2)) (auto simp: idle_ok_def)
    have log: "user_log im c k = Inr k'' \<Longrightarrow> idle_ok d (set_state c T_RUNNABLE k'')" for k''
      using ok idle_io_only [OF io_only_user_log] by (intro idle_ok_tcb(2)) auto
    show ?thesis
      using run c 2 q blk log
      by (auto simp: sys_ipc_def Let_def split: if_splits option.splits dest: do)
         (blast intro: idle_thread_start [OF _ ok] inact do idle_utcb_write [OF _ blk])+
  next
    case 3
    then show ?thesis using run c cd ok by (auto simp: sys_ipc_def Let_def split: if_splits intro!: idle_ok_tcb)
  qed
qed

lemma idle_ipc_deliver_step:
  assumes "ipc_deliver_step im i k = Inr k'" "idle_ok d k"
  shows "idle_ok d k'"
proof -
  have "idle_ok d k''" if "do_ipc im t u k = Inr k''" "t_state (tcbs k t) = T_SEND_BLOCKED" for t u k''
    using idle_do_ipc [OF that(1) assms(2)] idle_okD(3) [OF assms(2), of t] that(2) by simp
  then show ?thesis using assms
    by (auto simp: ipc_deliver_step_def split: thread_state_t.splits if_splits)
qed

lemma idle_ipc_deliver:
  assumes "ipc_deliver im k = Inr (r, k')" "idle_ok d k"
  shows "idle_ok d k'"
proof -
  have "idle_ok d k'" if "ipc_deliver_loop n im k = Inr k'" "idle_ok d k" for n k k'
    using that by (induction n arbitrary: k) (auto dest: idle_ipc_deliver_step)
  then show ?thesis using assms by (auto simp: ipc_deliver_def)
qed

lemma idle_run_event_handler:
  assumes "run_event_handler h im e k = Inr (r, k')" "idle_ok d k"
  shows "idle_ok d k'"
  using assms by (cases h) (auto simp: ipc_timeout_def intro!: idle_ok_slots idle_ok_tcb dest: idle_ipc_deliver)

subsection \<open>Threads\<close>

text \<open>Insertion into and deletion from the thread map touch only the map and its length.\<close>

lemma array_set_subset: "array_set xs i v = Inr ys \<Longrightarrow> set ys \<subseteq> insert v (set xs)"
  using set_update_subset_insert [of xs i v] by (auto simp: array_set_def split: if_splits)

lemma array_get_in_set: "array_get xs i = Inr v \<Longrightarrow> v \<in> set xs"
  by (auto simp: array_get_def split: if_splits)

lemma shift_up_subset: "shift_up i n xs = Inr ys \<Longrightarrow> set ys \<subseteq> set xs"
proof (induction n arbitrary: xs)
  case (Suc n)
  show ?case
  proof (cases "i < Suc n")
    case True
    then obtain p zs where p: "array_get xs n = Inr p" "array_set xs (Suc n) p = Inr zs" "shift_up i n zs = Inr ys"
      using Suc.prems by auto
    show ?thesis
      using Suc.IH [OF p(3)] array_set_subset [OF p(2)] array_get_in_set [OF p(1)] by auto
  qed (use Suc.prems in auto)
qed simp

lemma shift_down_subset: "shift_down i n xs = Inr ys \<Longrightarrow> set ys \<subseteq> set xs"
proof (induction i n xs rule: shift_down.induct)
  case (1 i n xs)
  show ?case
  proof (cases "i < n")
    case True
    then obtain p zs where p: "array_get xs (Suc i) = Inr p" "array_set xs i p = Inr zs"
      "shift_down (Suc i) n zs = Inr ys"
      using "1.prems" by (subst (asm) shift_down.simps) auto
    show ?thesis
      using "1.IH" [OF True p] array_set_subset [OF p(2)] array_get_in_set [OF p(1)] by auto
  next
    case False
    then show ?thesis using "1.prems" by (subst (asm) shift_down.simps) auto
  qed
qed

lemma thread_map_insert_frame:
  "thread_map_insert g t k = Inr k' \<Longrightarrow>
   \<exists>xs n. k' = k\<lparr>thread_map := xs, thread_count := n\<rparr> \<and> set xs \<subseteq> insert (Some t) (set (thread_map k))"
proof (cases "thread_count k = 0")
  case True
  moreover assume "thread_map_insert g t k = Inr k'"
  ultimately show ?thesis by (auto simp: thread_map_insert_def dest!: array_set_subset)
next
  case False
  assume "thread_map_insert g t k = Inr k'"
  with False obtain i xs ys where p: "shift_up (nat i) (nat (thread_count k)) (thread_map k) = Inr xs"
    "array_set xs (nat i) (Some t) = Inr ys" "k' = k\<lparr>thread_map := ys, thread_count := thread_count k + 1\<rparr>"
    by (auto simp: thread_map_insert_def)
  have "set ys \<subseteq> insert (Some t) (set (thread_map k))"
    using array_set_subset [OF p(2)] shift_up_subset [OF p(1)] by auto
  with p(3) show ?thesis by blast
qed

lemma thread_map_delete_frame:
  "thread_map_delete g k = Inr k' \<Longrightarrow>
   \<exists>xs n. k' = k\<lparr>thread_map := xs, thread_count := n\<rparr> \<and> set xs \<subseteq> set (thread_map k)"
  by (auto simp: thread_map_delete_def split: if_splits dest!: shift_down_subset)
     (rule exI [of _ "thread_map k"], simp, rule exI [of _ 0], simp)

text \<open>A new thread takes a slot that was free, and only that one.\<close>

lemma thread_init_fresh:
  assumes run: "thread_init g u k = Inr (Some t, k')" and ok: "ktable_ok (thread_table k)"
  obtains kt xs n where "t \<notin> ktable_used (thread_table k)" "ktable_ok kt"
    "ktable_used kt = insert t (ktable_used (thread_table k))"
    "k' = k\<lparr>thread_table := kt, thread_map := xs, thread_count := n,
            tcbs := (tcbs k)(t := init_tcb g u (tcbs k t)), ram := init_ram g u (ram k)\<rparr>"
    "ktable_cap kt = ktable_cap (thread_table k)" "t < ktable_cap kt"
    "set xs \<subseteq> insert (Some t) (set (thread_map k))"
proof (rule kt.alloc_cases [OF ok])
  assume "ktable_alloc_slot (thread_table k) = Inr (None, thread_table k)"
  then show thesis using run by (auto simp: thread_init_def)
next
  fix i kt
  assume slot: "ktable_alloc_slot (thread_table k) = Inr (Some i, kt)" "i \<notin> ktable_used (thread_table k)"
    "ktable_used kt = insert i (ktable_used (thread_table k))" "ktable_ok kt"
    "ktable_cap kt = ktable_cap (thread_table k)" "i < ktable_cap (thread_table k)"
  then obtain k1 where k1: "thread_map_insert g i (k\<lparr>thread_table := kt\<rparr>) = Inr k1" and "t = i"
    using run by (auto simp: thread_init_def Let_def)
  obtain xs n where e: "k1 = k\<lparr>thread_table := kt, thread_map := xs, thread_count := n\<rparr>"
    "set xs \<subseteq> insert (Some i) (set (thread_map k))"
    using thread_map_insert_frame [OF k1] by auto
  have "thread_init g u k = Inr (Some i, k\<lparr>thread_table := kt, thread_map := xs, thread_count := n,
            tcbs := (tcbs k)(i := init_tcb g u (tcbs k i)), ram := init_ram g u (ram k)\<rparr>)"
    unfolding thread_init_def slot(1) bindF_simps prod.case option.case k1 e(1)
    by (simp add: Let_def upd_tcb_def write_ram_def init_tcb_def init_ram_def)
  then have "k' = k\<lparr>thread_table := kt, thread_map := xs, thread_count := n,
            tcbs := (tcbs k)(t := init_tcb g u (tcbs k t)), ram := init_ram g u (ram k)\<rparr>"
    unfolding run \<open>t = i\<close> by (simp only: sum.inject prod.inject)
  then show thesis
    by (rule that [rotated 3]) (simp_all only: slot e(2) \<open>t = i\<close> not_False_eq_True)
qed

lemma idle_thread_init:
  assumes "thread_init g u k = Inr (Some t, k')" "idle_ok d k"
  shows "idle_ok d k'" "t \<noteq> d"
proof -
  have "ktable_ok (thread_table k)" using assms(2) by (simp add: idle_ok_def)
  then obtain kt xs n where f: "t \<notin> ktable_used (thread_table k)" "ktable_ok kt"
    "ktable_used kt = insert t (ktable_used (thread_table k))"
    "k' = k\<lparr>thread_table := kt, thread_map := xs, thread_count := n,
            tcbs := (tcbs k)(t := init_tcb g u (tcbs k t)), ram := init_ram g u (ram k)\<rparr>"
    "ktable_cap kt = ktable_cap (thread_table k)" "t < ktable_cap kt"
    "set xs \<subseteq> insert (Some t) (set (thread_map k))"
    by (rule thread_init_fresh [OF assms(1)]) blast
  show "t \<noteq> d" using f(1) assms(2) by (auto simp: idle_ok_def)
  then show "idle_ok d k'"
    using f(2,3,5-7) assms(2) unfolding f(4) by (auto simp: idle_ok_def map_in_def)
qed

lemma idle_thread_create:
  assumes run: "thread_create g u k = Inr (Some t, k')" and ok: "idle_ok d k"
  shows "idle_ok d k'" "t \<noteq> d"
proof -
  obtain c k1 where c: "caller k = Some c" "thread_init g u k = Inr (Some t, k1)"
    using run by (auto simp: thread_create_def panic_def Let_def split: option.splits if_splits)
  note k1 = idle_thread_init [OF c(2) ok]
  show "t \<noteq> d" by (rule k1(2))
  show "idle_ok d k'"
    using run c k1
    by (auto simp: thread_create_def Let_def split: option.splits if_splits intro!: idle_ok_tcb_any)
qed

lemma idle_thread_space:
  assumes "thread_space im t sp u k = Inr k'" "idle_ok d k" "t \<noteq> d"
  shows "idle_ok d k'"
  using assms
  by (auto simp: thread_space_def Let_def split: if_splits option.splits prod.splits intro!: idle_ok_tcb)

lemma idle_adopt: "adopt n c t k = Inr (l, k') \<Longrightarrow> idle_ok d k \<Longrightarrow> idle_ok d k'"
  by (induction n arbitrary: t k) (auto simp: Let_def split: option.splits)

lemma idle_thread_destroy:
  assumes run: "thread_destroy t k = Inr k'" and ok: "idle_ok d k"
    and t: "t \<noteq> d" "t < ktable_cap (thread_table k)"
  shows "idle_ok d k'"
proof -
  obtain k1 where k1: "unlink_thread t k = Inr k1" using run by (auto simp: thread_destroy_def)
  then have ok1: "idle_ok d k1" "thread_table k1 = thread_table k"
    using ok by (auto simp: unlink_thread_def split: if_splits)
  have adopt: "thread_table k'' = thread_table k0" if "adopt n c x k0 = Inr (l, k'')" for n c x l k0 k''
    using that by (induction n arbitrary: x k0) (auto simp: Let_def split: option.splits)
  obtain k2 where k2: "thread_deinit t k2 = Inr k'" "idle_ok d k2" "thread_table k2 = thread_table k"
  proof (cases "t_child (tcbs k1 t)")
    case None
    then show thesis using that [of k1] run k1 ok1 by (simp add: thread_destroy_def)
  next
    case (Some x)
    then obtain c l k0 where k0: "caller k1 = Some c" "adopt THREAD_FUEL c x k1 = Inr (l, k0)"
      using run k1 by (auto simp: thread_destroy_def)
    have "idle_ok d k0" "thread_table k0 = thread_table k"
      using idle_adopt [OF k0(2) ok1(1)] adopt [OF k0(2)] ok1(2) by simp_all
    then show thesis using that run k1 Some k0 by (auto simp: thread_destroy_def Let_def)
  qed
  from k2(1) obtain k3 kt where k3: "thread_map_delete (t_globalid (tcbs k2 t)) k2 = Inr k3"
    "ktable_free_slot (thread_table k3) t = Inr kt" "k' = k3\<lparr>thread_table := kt\<rparr>"
    by (auto simp: thread_deinit_def)
  then have ok3: "idle_ok d k3" "thread_table k3 = thread_table k"
    using thread_map_delete_frame [OF k3(1)] k2 by (auto simp: idle_ok_def map_in_def)
  then have "ktable_ok (thread_table k3)" "t < ktable_cap (thread_table k3)"
    using t(2) by (auto simp: idle_ok_def)
  from kt.free_slot [OF this] show ?thesis using k3 ok3 t by (auto simp: idle_ok_def map_in_def)
qed

lemma thread_by_globalid_in: "thread_by_globalid k g = Inr (Some t) \<Longrightarrow> Some t \<in> set (thread_map k)"
  by (auto simp: thread_by_globalid_def split: if_splits dest: array_get_in_set)

subsection \<open>System calls, events and soft interrupts\<close>

lemma idle_sys_thread_control:
  assumes run: "sys_thread_control im p rs k = Inr k'" and ok: "idle_ok d k"
  shows "idle_ok d k'"
proof (cases "ram k (stack_word p REG_R1) = L4_NILTHREAD")
  case True
  then obtain t k1 where t: "thread_by_globalid k (ram k (stack_word p REG_R0)) = Inr (Some t)"
    "thread_free_space t k = Inr k1" "thread_destroy t k1 = Inr k'"
    using run by (auto simp: sys_thread_control_def Let_def)
  then obtain m a where k1: "k1 = upd_mem m k" "t_as (tcbs k t) = Some a" by (auto simp: thread_free_space_def)
  then have "t \<noteq> d" "t < ktable_cap (thread_table k1)"
    using ok thread_by_globalid_in [OF t(1)] by (auto simp: idle_ok_def map_in_def)
  then show ?thesis using idle_thread_destroy [OF t(3)] k1 ok by simp
next
  case False
  show ?thesis
  proof (cases "k' = k")
    case False
    with \<open>ram k _ \<noteq> _\<close> run obtain u t k1 k2 k3 where "thread_create (ram k (stack_word p REG_R0)) u k = Inr (Some t, k1)"
      "thread_space im t (ram k (stack_word p REG_R1)) u k1 = Inr k2"
      "utcb_write (t_utcb (tcbs k2 t)) UTCB_pager (ram k (stack_word p REG_R3)) k2 = Inr k3"
      "k' = write_ram (stack_word p REG_R0) 1 k3"
      by (auto simp: sys_thread_control_def Let_def split: if_splits prod.splits)
    then show ?thesis
      using idle_thread_create ok idle_thread_space idle_utcb_write by (metis idle_ok_frame(2))
  qed (use ok in simp)
qed

lemma idle_syscall_handler:
  assumes "syscall_handler im k = Inr k'" "idle_ok d k"
  shows "idle_ok d k'"
  using assms
  by (auto simp: syscall_handler_def Let_def split: if_splits
      dest!: idle_sys_thread_control idle_set_caller_state idle_sys_ipc)

lemma idle_run_events:
  assumes "run_events n im l e k = Inr k'" "idle_ok d k"
  shows "idle_ok d k'"
  using assms
proof (induction n arbitrary: e k)
  case (Suc n)
  then obtain r k1 where k1: "run_event_handler (ev_handler (kt_events (ktimer k) e)) im e k = Inr (r, k1)"
    by (auto split: prod.splits)
  then have ok1: "idle_ok d k1" using Suc.prems(2) by (rule idle_run_event_handler)
  let ?step = "if r \<noteq> 0
    then bindF (ktimer_event_schedule r e (ktimer k1)) (\<lambda>(_, kt). Inr (k1\<lparr>ktimer := kt\<rparr>))
    else bindF (ktable_free_slot (ktimer_event_table (ktimer k1)) e) (\<lambda>t.
         Inr (upd_ktimer (ktimer_event_table_update (\<lambda>_. t)) k1))"
  obtain k2 where k2: "?step = Inr k2" using Suc.prems(1) k1 by (cases ?step) (auto simp: Let_def)
  then have "idle_ok d k2" using ok1 by (auto split: if_splits prod.splits)
  then show ?case
    using Suc.IH Suc.prems(1) k1 k2 by (auto simp: Let_def split: option.splits if_splits)
qed simp

lemma idle_ktimer_event_handler:
  assumes "ktimer_event_handler im k = Inr k'" "idle_ok d k"
  shows "idle_ok d k'"
  using assms
  by (auto simp: ktimer_event_handler_def Let_def split: option.splits dest!: idle_run_events)

subsection \<open>The debugger\<close>

lemma idle_print: "kprint im fmt va k = Inr k' \<Longrightarrow> idle_ok d k \<Longrightarrow> idle_ok d k'"
  by (simp add: idle_io_only [OF io_only_print(2)])

lemma idle_uart_irq_handler:
  assumes "uart_irq_handler im k = Inr k'" "idle_ok d k"
  shows "idle_ok d k'"
proof -
  have [simp]: "idle_ok d (upd_uart f k) = idle_ok d k" "idle_ok d (upd_dbg g k) = idle_ok d k" for f g k
    by (simp_all add: upd_uart_def upd_dbg_def idle_ok_def map_in_def)
  have getc: "usart_getc im u k = (c, k1) \<Longrightarrow> idle_ok d k1 = idle_ok d k" for u c k1
    by (auto simp: usart_getc_def idle_ok_def map_in_def split: list.splits)
  have "dbg_uart_recv im k = Inr k' \<Longrightarrow> idle_ok d k'"
    using assms(2)
    by (auto simp: dbg_uart_recv_def getc split: prod.splits dest!: idle_softirq_schedule)
  then show ?thesis
    using assms idle_io_only [OF io_only_send] by (auto simp: uart_irq_handler_def split: if_splits)
qed

lemma idle_wait_key: "wait_key n im k = Inr k' \<Longrightarrow> idle_ok d k \<Longrightarrow> idle_ok d k'"
  by (induction n arbitrary: k)
    (auto split: if_splits dest!: idle_uart_irq_handler simp: idle_io_only [OF io_only_getchar])

lemma idle_set_used [simp]: "idle_ok d (set_used f v k) = idle_ok d k"
  by (simp add: set_used_def)

lemma idle_clear_used: "clear_used n fpage k = Inr k' \<Longrightarrow> idle_ok d k' = idle_ok d k"
  by (induction n arbitrary: fpage k) (auto split: option.splits)

lemma idle_mark_used: "mark_used n fpage k = (j, k') \<Longrightarrow> idle_ok d k' = idle_ok d k"
  by (induction n arbitrary: fpage k) (auto split: option.splits)

lemma idle_dump_pages: "dump_pages n im nl fpage k = Inr k' \<Longrightarrow> idle_ok d k \<Longrightarrow> idle_ok d k'"
  by (induction n arbitrary: nl fpage k)
    (auto simp: Let_def idle_io_only [OF io_only_print(1)] split: if_splits option.splits
      dest!: idle_print idle_wait_key)

lemma idle_for_each:
  assumes "for_each f xs k = Inr k'" "idle_ok d k" "\<And>x k k'. f x k = Inr k' \<Longrightarrow> idle_ok d k \<Longrightarrow> idle_ok d k'"
  shows "idle_ok d k'"
  using assms(1,2) by (induction xs arbitrary: k) (auto dest!: assms(3))

lemma idle_kdb_dump_as: "kdb_dump_as im k = Inr k' \<Longrightarrow> idle_ok d k \<Longrightarrow> idle_ok d k'"
proof -
  have "dump_as im a k = Inr k' \<Longrightarrow> idle_ok d k \<Longrightarrow> idle_ok d k'" for a k k'
    by (auto simp: dump_as_def Let_def idle_clear_used idle_mark_used split: prod.splits
        dest!: idle_print idle_dump_pages)
  then show "kdb_dump_as im k = Inr k' \<Longrightarrow> idle_ok d k \<Longrightarrow> idle_ok d k'"
    unfolding kdb_dump_as_def for_each_in_ktable_def
    by (erule_tac idle_for_each) (auto split: if_splits)
qed

lemma idle_run_kdb_function: "run_kdb_function f im k = Inr k' \<Longrightarrow> idle_ok d k \<Longrightarrow> idle_ok d k'"
  by (cases f) (auto dest: idle_io_only [OF io_only_dumps(1)] idle_io_only [OF io_only_dumps(2)]
      idle_io_only [OF io_only_dumps(3)] idle_io_only [OF io_only_dumps(4)] idle_io_only [OF io_only_dumps(5)]
      idle_io_only [OF io_only_dumps(6)] idle_kdb_dump_as idle_probe_only [OF probe_only_sampling])

lemma idle_debug_kdb_handler: "debug_kdb_handler im k = Inr k' \<Longrightarrow> idle_ok d k \<Longrightarrow> idle_ok d k'"
  by (auto simp: debug_kdb_handler_def kdb_handler_def run_kdb_entry_def Let_def
      split: option.splits if_splits prod.splits
      dest!: idle_print idle_run_kdb_function simp: idle_io_only [OF io_only_getchar] idle_io_only [OF io_only_dumps(7)])

subsection \<open>Soft interrupts\<close>

lemma idle_softirq_pass:
  assumes "softirq_pass ss im e k = Inr (r, k')" "idle_ok d k"
  shows "idle_ok d k'"
  using assms(1,2)
proof (induction ss arbitrary: e k)
  case (Cons s ss)
  have "idle_ok d k1" if "run_softirq_handler h im k = Inr k1" for h k1
    using that Cons.prems(2)
    by (cases h) (auto dest!: idle_ktimer_event_handler idle_syscall_handler idle_debug_kdb_handler)
  then show ?case using Cons by (auto simp: Let_def split: if_splits)
qed simp

lemma idle_softirq_execute:
  assumes "softirq_execute n im e k = Inr (r, k')" "idle_ok d k"
  shows "idle_ok d k'"
  using assms(1,2)
proof (induction n arbitrary: e k)
  case (Suc n)
  then obtain e1 k1 k2 where k: "softirq_pass all_softirqs im e k = Inr (e1, k1)"
    "set_kernel_state (if pending k1 \<noteq> 0 then T_RUNNABLE else T_INACTIVE) k1 = Inr k2"
    by (auto simp: Let_def)
  then have "idle_ok d k2" using idle_softirq_pass [OF k(1) Suc.prems(2)] idle_set_kernel_state by blast
  then show ?case using Suc.IH Suc.prems(1) k by (auto simp: Let_def split: if_splits)
qed simp

subsection \<open>Interrupts and context switch\<close>

lemma idle_svc_handler:
  assumes "svc_handler k = Inr k'" "idle_ok d k" "current k \<noteq> Some d"
  shows "idle_ok d k'"
proof -
  have "idle_ok d (k\<lparr>caller := thread_current k\<rparr>)"
    using assms(2,3) by (simp add: idle_ok_def map_in_def thread_current_def)
  then show ?thesis using assms(1,2)
    by (auto simp: svc_handler_def Let_def split: if_splits dest!: idle_set_caller_state idle_softirq_schedule)
qed

lemma idle_schedule_select:
  assumes "schedule_select k = Inr (t, k')" "idle_ok d k"
  shows "idle_ok d k'"
proof -
  have "n \<le> 6 \<Longrightarrow> schedule_select_loop n k = Inr (t, k') \<Longrightarrow> idle_ok d k'" for n
  proof (induction n)
    case (Suc n)
    have "idle_ok d (k\<lparr>slots := (slots k)[6 - Suc n := s]\<rparr>)" if "n \<noteq> 0" for s
      using assms(2) that Suc.prems(1) by (auto simp: idle_ok_def map_in_def NUM_SCHED_SLOTS_def nth_list_update)
    moreover have "n = 0 \<Longrightarrow> k' = k"
      using Suc.prems(2) assms(2)
      by (auto simp: idle_ok_def Let_def NUM_SCHED_SLOTS_def thread_isrunnable_def)
    ultimately show ?case
      using Suc assms(2)
      by (cases "n = 0") (auto simp: Let_def NUM_SCHED_SLOTS_def split: if_splits option.splits)
  qed (simp add: panic_def)
  then show ?thesis using assms(1) by (auto simp: schedule_select_def NUM_SCHED_SLOTS_def)
qed

lemma idle_thread_switch:
  "thread_switch im t k = Inr k' \<Longrightarrow> idle_ok d k \<Longrightarrow> idle_ok d k'"
  by (auto simp: thread_switch_def panic_def Let_def split: option.splits)

lemma idle_pendsv_handler:
  assumes "pendsv_handler im (cpu, k) = Inr (cpu', k')" "idle_ok d k"
  shows "idle_ok d k'"
  using assms
  by (auto simp: pendsv_handler_def schedule_in_irq_def context_switch_def split: prod.splits if_splits
      dest!: idle_schedule_select idle_thread_switch intro!: idle_ok_tcb_any)

lemma idle_ktimer_enter_tickless [simp]: "idle_ok d (ktimer_enter_tickless n0 f n1 k) = idle_ok d k"
  by (simp add: ktimer_enter_tickless_def init_systick_def Let_def split: prod.splits)

lemma idle_request_schedule [simp]: "idle_ok d (request_schedule im k) = idle_ok d k"
  by (simp add: request_schedule_def)

section \<open>Start of the system\<close>

text \<open>What holds while the hooks run, before there is a thread.\<close>

definition base_ok :: "kernel_t \<Rightarrow> bool" where
  "base_ok k \<longleftrightarrow> length (slots k) = NUM_SCHED_SLOTS \<and> length (softirq k) = NR_SOFTIRQ \<and> caller k = None \<and>
     kernel k = None \<and> ktable_ok (thread_table k) \<and> map_in k"

lemma base_ok_frame [simp]:
  "base_ok (upd_mem m k) = base_ok k" "base_ok (store_reg a v k) = base_ok k"
  "base_ok (upd_ktimer f k) = base_ok k" "base_ok (softirq_register s h k) = base_ok k"
  by (auto simp: base_ok_def map_in_def store_reg_def upd_ktimer_def softirq_register_def upd_softirq_def)

lemma base_ok_irq_init [simp]: "base_ok (irq_init im k) = base_ok k"
  by (simp add: irq_init_def NVIC_PriorityGroupConfig_def NVIC_SetPriority_def Let_def)

lemma clear_bytes_length: "clear_bytes n bm = Inr bm' \<Longrightarrow> length bm' = length bm"
  by (induction n arbitrary: bm') (auto simp: clear_byte_def array_set_def split: if_splits)

lemma ktable_init_keeps:
  "ktable_init kt = Inr kt' \<Longrightarrow> ktable_ok kt' = ktable_ok kt \<and> ktable_cap kt' = ktable_cap kt"
  by (auto simp: ktable_init_def ktable_cap_def ktable_ok_bitmap dest!: clear_bytes_length)

lemma base_ok_thread_init_subsys:
  "thread_init_subsys im k = Inr k' \<Longrightarrow> base_ok k \<Longrightarrow> base_ok k'"
  by (auto simp: thread_init_subsys_def base_ok_def map_in_def sched_slot_set_handler_def upd_slot_def Let_def
      split: prod.splits dest!: ktable_init_keeps)

lemma base_probe_only: "probe_only k k' \<Longrightarrow> base_ok k' = base_ok k"
proof -
  have "base_ok (without_probes k) = base_ok k" for k
    by (simp add: without_probes_def base_ok_def map_in_def)
  then show "probe_only k k' \<Longrightarrow> base_ok k' = base_ok k" unfolding probe_only_def by metis
qed

lemmas base_io_only = base_probe_only [OF io_probe]

lemma base_ok_dbg [simp]: "base_ok (k\<lparr>dbg := d\<rparr>) = base_ok k" "base_ok (upd_dbg f k) = base_ok k"
  by (rule base_io_only, intro io)+

lemma base_ok_hooks:
  assumes "h \<in> set (kernel_hooks im)" "hook h k = Inr k'" "base_ok k"
  shows "base_ok k'"
  using assms
  by (auto simp: kernel_hooks_def kdb_init_def syscall_init_def sched_init_def memory_init_hook_def register_ktable_def
      ksym_init_hook_def ktimer_event_init_def ktimer_init_def init_systick_def Let_def base_ok_thread_init_subsys
      base_io_only [OF io_only_print(1)] base_probe_only [OF probe_only_init] base_io_only [OF io_only_init [OF io_only_refl]]
      split: prod.splits)
     (auto simp: base_ok_def map_in_def)

lemma base_ok_run_init_hook:
  assumes "run_init_hook hs level l0 k = Inr (l, k')" "base_ok k" "set hs \<subseteq> set (kernel_hooks im)"
  shows "base_ok k'"
proof -
  have "run_hooks l0 level hs l1 k = Inr (l, k') \<Longrightarrow> base_ok k \<Longrightarrow> base_ok k'" for l1 k
    using assms(3)
    by (induction hs arbitrary: l1 k) (auto split: if_splits dest: base_ok_hooks)
  then show ?thesis using assms(1,2) by (auto simp: run_init_hook_def)
qed

text \<open>After a run that reached the level of every hook, a further run calls none.\<close>

lemma run_hooks_level:
  assumes "run_hooks l0 level hs l1 k = Inr (l, k')" "l0 \<le> l1"
  shows "l1 \<le> l" "h \<in> set hs \<Longrightarrow> hook_level h \<le> level \<Longrightarrow> hook_level h \<le> l"
  using assms
  by (induction hs arbitrary: l1 k) (fastforce split: if_splits simp: max_def)+

lemma run_hooks_none:
  "\<forall>h\<in>set hs. hook_level h \<le> l0 \<Longrightarrow> run_hooks l0 level hs l1 k = Inr (l1, k)"
  by (induction hs) auto

lemma idle_create_idle_thread:
  assumes run: "create_idle_thread im k = Inr k'" and ok: "base_ok k"
  obtains d where "idle_ok d k'"
proof -
  obtain d k1 where d: "thread_init (TID_TO_GLOBALID THREAD_IDLE) 0 k = Inr (Some d, k1)"
    using run by (auto simp: create_idle_thread_def Let_def)
  have "ktable_ok (thread_table k)" using ok by (simp add: base_ok_def)
  from thread_init_fresh [OF d this] obtain kt xs n where k1: "ktable_ok kt" "d \<in> ktable_used kt"
    "k1 = k\<lparr>thread_table := kt, thread_map := xs, thread_count := n,
       tcbs := (tcbs k)(d := init_tcb (TID_TO_GLOBALID THREAD_IDLE) 0 (tcbs k d)),
       ram := init_ram (TID_TO_GLOBALID THREAD_IDLE) 0 (ram k)\<rparr>"
    "ktable_cap kt = ktable_cap (thread_table k)" "d < ktable_cap kt"
    "set xs \<subseteq> insert (Some d) (set (thread_map k))"
    by (metis insertI1)
  let ?k = "thread_init_ctx im (im_idle_stack_end im) (im_idle_thread im) d (k1\<lparr>idle := Some d\<rparr>)"
  have k': "k' = set_state d T_RUNNABLE (sched_slot_dispatch SSI_IDLE (Some d) ?k)"
    using run d by (simp add: create_idle_thread_def Let_def)
  have "idle_ok d k'"
    using ok k1(1,2,4-6) unfolding k' k1(3)
    by (auto simp: idle_ok_def base_ok_def map_in_def set_state_def sched_slot_dispatch_def upd_slot_def
        thread_init_ctx_def Let_def init_tcb_def NUM_SCHED_SLOTS_def)
  then show thesis by (rule that)
qed

lemma idle_create_root_thread:
  assumes run: "create_root_thread im k = Inr k'" and ok: "idle_ok d k"
  shows "idle_ok d k'"
proof -
  obtain t k1 k2 a m where t: "thread_init (TID_TO_GLOBALID THREAD_ROOT) (im_root_utcb im) k = Inr (Some t, k1)"
    and k2: "thread_space im t (TID_TO_GLOBALID THREAD_ROOT) (im_root_utcb im) (k1\<lparr>root := Some t\<rparr>) = Inr k2"
    and k': "k' = set_state t T_RUNNABLE (sched_slot_dispatch SSI_ROOT_THREAD (Some t)
       (upd_tcb t (\<lambda>x. x\<lparr>stack_base := im_root_stack_start im,
                         stack_size := im_root_stack_end im - im_root_stack_start im\<rparr>)
         (thread_init_ctx im (im_root_stack_end im) (im_root_thread im) t (upd_mem m k2))))"
    using run by (auto simp: create_root_thread_def Let_def)
  from idle_thread_init [OF t ok] have "idle_ok d (k1\<lparr>root := Some t\<rparr>)" and td: "t \<noteq> d"
    by (auto simp: idle_ok_def map_in_def)
  then have "idle_ok d k2" using idle_thread_space [OF k2] by blast
  then show ?thesis unfolding k' using td by (auto intro!: idle_ok_tcb idle_ok_slots)
qed

lemma idle_switch_to_kernel:
  assumes run: "switch_to_kernel im k = Inr k'" and ok: "idle_ok d k"
  shows "idle_ok d k'"
proof -
  obtain t k1 where t: "thread_init (TID_TO_GLOBALID THREAD_KERNEL) 0 k = Inr (Some t, k1)"
    and k': "k' = (set_state t T_RUNNABLE (sched_slot_dispatch SSI_SOFTIRQ (Some t)
       (thread_init_kernel_ctx (im_kernel_stack_end im) t (k1\<lparr>kernel := Some t\<rparr>))))\<lparr>current := Some t\<rparr>"
    using run
    by (auto simp: switch_to_kernel_def create_kernel_thread_def Let_def thread_init_kernel_ctx_def
        set_state_def sched_slot_dispatch_def upd_slot_def)
  from idle_thread_init [OF t ok] have "idle_ok d (k1\<lparr>kernel := Some t\<rparr>)" and td: "t \<noteq> d"
    by (auto simp: idle_ok_def map_in_def)
  then show ?thesis unfolding k'
    by (auto simp: thread_init_kernel_ctx_def Let_def intro!: idle_ok_tcb idle_ok_slots)
qed

lemma hook_levels: "h \<in> set (kernel_hooks im) \<Longrightarrow> hook_level h \<le> INIT_LEVEL_KERNEL"
  by (auto simp: kernel_hooks_def init_level_defs)

lemma main_starts:
  assumes run: "main im hs l0 k = Inr k'" and hs: "set hs \<subseteq> set (kernel_hooks im)" and ok: "base_ok k"
  obtains d where "idle_ok d k'"
proof -
  note hook = base_ok_run_init_hook [OF _ _ hs]
  from run obtain l1 k1 l2 k2 kb l3 k3 l k4 k5 k6 r k7 l7 k8 where
    k1: "run_init_hook hs INIT_LEVEL_PLATFORM_EARLY l0 k = Inr (l1, k1)"
    and k2: "run_init_hook hs INIT_LEVEL_PLATFORM l1 (irq_init im k1) = Inr (l2, k2)"
    and kb: "print_banner im k2 = Inr kb"
    and k3: "run_init_hook hs INIT_LEVEL_KERNEL_EARLY l2 kb = Inr (l3, k3)"
    and k4: "run_init_hook hs INIT_LEVEL_KERNEL l3 k3 = Inr (l, k4)"
    and k5: "create_idle_thread im k4 = Inr k5" and k6: "create_root_thread im k5 = Inr k6"
    and k7: "ktimer_event_create 64 (Some Ipc_deliver) None k6 = Inr (r, k7)"
    and k8: "run_init_hook hs INIT_LEVEL_LAST l (upd_mem (mpu_enable MPU_ENABLED (mem k7)) k7) = Inr (l7, k8)"
    and k': "switch_to_kernel im k8 = Inr k'"
    by (auto simp: main_def Let_def)
  have "base_ok k1" using hook [OF k1 ok] .
  then have "base_ok k2" using hook [OF k2] by simp
  then have "base_ok kb" using base_io_only [OF io_only_banner [OF kb]] by simp
  then have "base_ok k4" using hook [OF k4 hook [OF k3]] by simp
  with k5 obtain d where "idle_ok d k5" by (rule idle_create_idle_thread)
  then have d: "idle_ok d k7"
    using idle_create_root_thread [OF k6] idle_ktimer_event_create [OF k7] by blast
  have "\<forall>h\<in>set hs. hook_level h \<le> l"
    using run_hooks_level(2) [OF k4 [unfolded run_init_hook_def]] hs hook_levels by blast
  then have "k8 = upd_mem (mpu_enable MPU_ENABLED (mem k7)) k7"
    using k8 by (simp add: run_init_hook_def run_hooks_none)
  then have "idle_ok d k'" using d idle_switch_to_kernel [OF k'] by simp
  then show thesis by (rule that)
qed

section \<open>Reachable states\<close>

text \<open>
  The steps of the machine: a timer interrupt, an interrupt of the serial port, a supervisor call of a
  thread other than the idle thread, a memory fault, a debug event at a breakpoint, a run of the pending
  soft interrupts in the kernel thread, a context switch, the idle thread entering the tickless sleep,
  bytes typed at the terminal, and any computation of a thread on its registers and on the memory that is
  not part of a kernel object.
\<close>

inductive kstep :: "image_t \<Rightarrow> cpu_t \<times> kernel_t \<Rightarrow> cpu_t \<times> kernel_t \<Rightarrow> bool" for im where
  tick: "IRQ_HANDLER im ktimer_handler k = Inr k' \<Longrightarrow> kstep im (cpu, k) (cpu, k')"
| uart: "IRQ_HANDLER im (uart_irq_handler im) k = Inr k' \<Longrightarrow> kstep im (cpu, k) (cpu, k')"
| typed: "kstep im (cpu, k) (cpu, k\<lparr>dbg := (dbg k)\<lparr>uart_input := uart_input (dbg k) @ cs\<rparr>\<rparr>)"
| debugmon: "debugmon_handler im cpu k = Inr k' \<Longrightarrow> kstep im (cpu, k) (cpu, k')"
| svc: "current k \<noteq> idle k \<Longrightarrow> IRQ_HANDLER im svc_handler k = Inr k' \<Longrightarrow> kstep im (cpu, k) (cpu, k')"
| mem_fault: "current k = Some c \<Longrightarrow>
    memmanage_handler (im_memmap im) (im_dev im) (t_as (tcbs k c)) (psp cpu)
      (ram k (stack_word (psp cpu) REG_PC)) (mem k) = Inr m \<Longrightarrow>
    kstep im (cpu, k) (cpu, request_schedule im (upd_mem m k))"
| soft: "current k = kernel k \<Longrightarrow> softirq_execute n im 0 k = Inr (r, k') \<Longrightarrow> kstep im (cpu, k) (cpu, k')"
| pendsv: "pendsv_handler im s = Inr s' \<Longrightarrow> kstep im s s'"
| sleep: "current k = idle k \<Longrightarrow> kstep im (cpu, k) (cpu, ktimer_enter_tickless now0 flag now1 k)"
| run: "kstep im (cpu, k) (cpu', k\<lparr>ram := r\<rparr>)"

inductive reachable :: "image_t \<Rightarrow> init_struct list \<Rightarrow> cpu_t \<times> kernel_t \<Rightarrow> bool" for im hs where
  start: "base_ok k0 \<Longrightarrow> main im hs l0 k0 = Inr k \<Longrightarrow> reachable im hs (cpu, k)"
| step: "reachable im hs s \<Longrightarrow> kstep im s s' \<Longrightarrow> reachable im hs s'"

lemma idle_kstep:
  assumes "kstep im s s'" "idle_ok d (snd s)"
  shows "idle_ok d (snd s')"
  using assms
proof (cases rule: kstep.cases)
  case (svc k k' cpu)
  then have "current k \<noteq> Some d" using assms(2) by (simp add: idle_ok_def)
  then show ?thesis using svc assms(2) by (auto simp: IRQ_HANDLER_def dest: idle_svc_handler)
next
  case pendsv
  then show ?thesis using assms(2) by (cases s, cases s') (auto dest: idle_pendsv_handler)
next
  case debugmon
  then show ?thesis using assms(2) by (simp add: idle_probe_only [OF probe_only_debugmon])
next
  case typed
  then show ?thesis using assms(2) by (simp add: idle_ok_def map_in_def)
qed (use assms(2) in \<open>auto simp: IRQ_HANDLER_def dest: idle_ktimer_handler idle_softirq_execute idle_uart_irq_handler\<close>)

lemma idle_reachable:
  assumes "reachable im hs s" "set hs \<subseteq> set (kernel_hooks im)"
  shows "\<exists>d. idle_ok d (snd s)"
  using assms(1)
proof induction
  case start
  then show ?case using main_starts [OF _ assms(2)] by (metis snd_conv)
qed (use idle_kstep in blast)

lemma select_no_panic:
  "climb n k p t \<noteq> panic msg" "thread_select_loop n k p t \<noteq> panic msg" "thread_sched k \<noteq> panic msg"
proof -
  show climb: "climb n k p t \<noteq> panic msg" for n p t
    by (induction n arbitrary: t) (auto simp: panic_def deref_def bindF_def split: option.splits)
  show loop: "thread_select_loop n k p t \<noteq> panic msg" for n p t
    using climb
    by (induction n arbitrary: t) (auto simp: panic_def bindF_def split: option.splits sum.splits)
  show "thread_sched k \<noteq> panic msg"
    using loop by (auto simp: thread_sched_def thread_select_def panic_def deref_def bindF_def split: option.splits)
qed

lemma idle_no_panic:
  assumes "idle_ok d k"
  shows "schedule_select k \<noteq> panic msg"
proof -
  have "n \<le> 5 \<Longrightarrow> schedule_select_loop (Suc n) k \<noteq> panic msg" for n
  proof (induction n)
    case 0
    then show ?case using assms
      by (simp add: idle_ok_def NUM_SCHED_SLOTS_def Let_def thread_isrunnable_def panic_def)
  next
    case (Suc n)
    have h: "run_sched_handler h k \<noteq> panic msg" for h by (cases h) (simp add: select_no_panic)
    have "schedule_select_loop (Suc n) k \<noteq> panic msg" using Suc by simp
    then show ?case using h
      by (subst schedule_select_loop.simps) (auto simp: Let_def panic_def bindF_def split: option.splits sum.splits)
  qed
  from this [of 5] show ?thesis by (simp add: schedule_select_def NUM_SCHED_SLOTS_def eval_nat_numeral)
qed

end
