(* ===== verification/F9_Console_Spec.thy ===== *)
theory F9_Console_Spec
  imports F9_Console F9_Thread_Map
begin

text \<open>
  Correctness of the debug port: output keeps its order through the queue and the transmit interrupt, and
  the flush at the start of a panic ends with everything sent.
\<close>

section \<open>The order of the output\<close>

definition DATA_REG :: u32 where "DATA_REG = u_base console_uart + USART_DR"

text \<open>The bytes that went to the data register, in order, and after them those that wait in the queue.\<close>

definition sent :: "kernel_t \<Rightarrow> u8 list" where
  "sent k = rev (map (ucast \<circ> snd) (filter (\<lambda>s. fst s = DATA_REG) (mmio (mem k))))"

definition written :: "kernel_t \<Rightarrow> u8 list" where
  "written k = sent k @ queue_contents (tx k)"

text \<open>A port that is ready has nothing queued.\<close>

definition console_ok :: "kernel_t \<Rightarrow> bool" where
  "console_ok k \<longleftrightarrow> dbg_state (dbg k) = DBG_ASYNC \<and> queue_ok (tx k) \<and> queue_cap (tx k) = SEND_BUFSIZE - 2 \<and>
     (uart_ready (dbg_uart (dbg k)) \<noteq> 0 \<longrightarrow> queue_contents (tx k) = [])"

lemma uart_reg_distinct:
  "u_base console_uart + USART_IT_ENB_REG_OFFSET USART_IT_TXE \<noteq> DATA_REG"
  by (simp add: DATA_REG_def console_uart_def USART_IT_ENB_REG_OFFSET_def USART_IT_TXE_def USART_DR_def UART4_BASE_def
      APB1PERIPH_BASE_def PERIPH_BASE_def)

lemma ucast_byte [simp]: "ucast (ucast c :: u32) = (c :: u8)"
  by (rule bit_word_eqI) (simp add: bit_ucast_iff)

lemma sent_simps [simp]:
  "sent (upd_uart f k) = sent k" "sent (upd_dbg g k) = sent k"
  "sent (usart_putc console_uart c k) = sent k @ [c]"
  "sent (usart_config_interrupt im console_uart USART_IT_TXE st k) = sent k"
  "dbg (usart_putc console_uart c k) = dbg k"
  "dbg (usart_config_interrupt im console_uart USART_IT_TXE st k) = dbg k"
  "dbg (upd_dbg g k) = g (dbg k)" "dbg (upd_uart f k) = (dbg k)\<lparr>dbg_uart := f (dbg_uart (dbg k))\<rparr>"
  using uart_reg_distinct
  by (auto simp: sent_def upd_uart_def upd_dbg_def usart_putc_def usart_config_interrupt_def modify_reg_def
      store_reg_def store_def DATA_REG_def Let_def)

lemma QUEUE_codes [simp]: "QUEUE_OK \<noteq> QUEUE_EMPTY" "QUEUE_EMPTY \<noteq> QUEUE_OK"
  by (simp_all add: QUEUE_OK_def QUEUE_EMPTY_def)

lemma is_empty_contents: "queue_ok q \<Longrightarrow> queue_is_empty q \<longleftrightarrow> queue_contents q = []"
  by (simp add: queue_is_empty_def queue_length_0_iff queue_contents_Nil_iff)

lemma putchar_appends:
  assumes ok: "console_ok k" and room: "length (queue_contents (tx k)) < SEND_BUFSIZE - 2"
  shows "\<exists>k'. dbg_uart_putchar im c k = Inr k' \<and> console_ok k' \<and> written k' = written k @ [c]"
proof (cases "uart_ready (dbg_uart (dbg k)) = 0")
  case True
  obtain q where q: "queue_push (tx k) c = Inr (QUEUE_OK, q)" "queue_contents q = queue_contents (tx k) @ [c]"
    "queue_ok q" "queue_cap q = queue_cap (tx k)"
    using bq.push_room [of "tx k" c] ok room by (auto simp: console_ok_def)
  then show ?thesis
    using True ok by (simp add: dbg_uart_putchar_def dbg_async_putchar_def console_ok_def written_def)
next
  case False
  then show ?thesis
    using ok by (simp add: dbg_uart_putchar_def dbg_async_putchar_def console_ok_def written_def Let_def)
qed

lemma send_keeps_output:
  assumes ok: "console_ok k"
  shows "\<exists>k'. dbg_uart_send im True k = Inr k' \<and> console_ok k' \<and> written k' = written k \<and>
    length (queue_contents (tx k')) = length (queue_contents (tx k)) - 1"
proof (cases "queue_contents (tx k)")
  case Nil
  then show ?thesis
    using ok is_empty_contents [of "tx k"] by (simp add: dbg_uart_send_def console_ok_def written_def Let_def)
next
  case (Cons c cs)
  obtain q where q: "queue_pop (tx k) = Inr (QUEUE_OK, Some c, q)" "queue_contents q = cs" "queue_ok q"
    "queue_cap q = queue_cap (tx k)"
    using bq.pop_some [of "tx k" c cs] ok Cons by (auto simp: console_ok_def)
  then show ?thesis
    using ok Cons is_empty_contents [of "tx k"] by (simp add: dbg_uart_send_def console_ok_def written_def Let_def)
qed

text \<open>The serial port is the device in use.\<close>

definition uart_selected :: "kernel_t \<Rightarrow> bool" where
  "uart_selected k \<longleftrightarrow> cur_dev (dbg k) < length (dbg_dev (dbg k)) \<and>
     dev_putchar (dbg_dev (dbg k) ! cur_dev (dbg k)) = Some Uart_putchar"

lemma putchar_keeps_device:
  assumes "console_ok k" "length (queue_contents (tx k)) < SEND_BUFSIZE - 2" "dbg_uart_putchar im c k = Inr k'"
  shows "uart_selected k' = uart_selected k" "length (queue_contents (tx k')) \<le> length (queue_contents (tx k)) + 1"
proof -
  obtain q where "queue_push (tx k) c = Inr (QUEUE_OK, q)" "queue_contents q = queue_contents (tx k) @ [c]"
    using bq.push_room [of "tx k" c] assms(1,2) by (auto simp: console_ok_def)
  then show "uart_selected k' = uart_selected k"
    "length (queue_contents (tx k')) \<le> length (queue_contents (tx k)) + 1"
    using assms(1,3) by (auto simp: dbg_uart_putchar_def dbg_async_putchar_def uart_selected_def console_ok_def Let_def
        split: if_splits)
qed

lemma put_string_appends:
  assumes "console_ok k" "uart_selected k" "length (queue_contents (tx k)) + length s \<le> SEND_BUFSIZE - 2"
  shows "\<exists>k'. put_string im s k = Inr k' \<and> console_ok k' \<and> written k' = written k @ map of_char s"
  using assms
proof (induction s arbitrary: k)
  case (Cons c s)
  have room: "length (queue_contents (tx k)) < SEND_BUFSIZE - 2" using Cons.prems(3) by simp
  obtain k1 where k1: "dbg_uart_putchar im (of_char c) k = Inr k1" "console_ok k1" "written k1 = written k @ [of_char c]"
    using putchar_appends [OF Cons.prems(1) room] by metis
  have "uart_selected k1" "length (queue_contents (tx k1)) + length s \<le> SEND_BUFSIZE - 2"
    using putchar_keeps_device [OF Cons.prems(1) room k1(1)] Cons.prems(2,3) by auto
  moreover have "dbg_putchar im (of_char c) k = Inr k1"
    using k1(1) Cons.prems(2)
    by (simp add: dbg_putchar_def uart_selected_def array_get_def the_function_def run_putchar_def)
  ultimately show ?case using Cons.IH [OF k1(2)] k1(3) by auto
qed simp

text \<open>
  C23: Debug output leaves the serial port in the order in which it was written. The characters of a string
  that fits the transmit queue come after all bytes written before, whether the port is idle or busy; a
  transmit interrupt moves the next byte from the queue to the port, and the bytes sent followed by the
  bytes queued stay the same. Neither operation fails or waits.
\<close>

theorem console_output_in_order:
  assumes "console_ok k" "uart_selected k" "length (queue_contents (tx k)) + length s \<le> SEND_BUFSIZE - 2"
  shows "(\<exists>k'. put_string im s k = Inr k' \<and> console_ok k' \<and> written k' = written k @ map of_char s) \<and>
    (\<exists>k'. dbg_uart_send im True k = Inr k' \<and> console_ok k' \<and> written k' = written k \<and>
       length (queue_contents (tx k')) = length (queue_contents (tx k)) - 1)"
  using put_string_appends [OF assms] send_keeps_output [OF assms(1)] by blast

text \<open>Initialisation leaves an idle port.\<close>

lemma init_console_ok:
  "console_ok (dbg_uart_init im k)" "queue_contents (tx (dbg_uart_init im k)) = []"
  "cur_dev (dbg k) = DBG_DEV_UART \<Longrightarrow> length (dbg_dev (dbg k)) = DBG_DEV_MAX \<Longrightarrow> uart_selected (dbg_uart_init im k)"
proof -
  have u: "dbg (NVIC_EnableIRQ n k) = dbg k" "dbg (NVIC_ClearPendingIRQ n k) = dbg k"
    "dbg (NVIC_SetPriority im i g s k) = dbg k"
    "dbg (usart_config_interrupt im u it st k) = dbg k" for n i g s k u it st
    by (simp_all add: NVIC_EnableIRQ_def NVIC_ClearPendingIRQ_def NVIC_SetPriority_def usart_config_interrupt_def
        modify_reg_def store_reg_def Let_def)
  have q: "queue_ok (snd (queue_init q (replicate SEND_BUFSIZE 0) (of_nat SEND_BUFSIZE)))"
    "queue_contents (snd (queue_init q (replicate SEND_BUFSIZE 0) (of_nat SEND_BUFSIZE))) = []"
    "queue_cap (snd (queue_init q (replicate SEND_BUFSIZE 0) (of_nat SEND_BUFSIZE))) = SEND_BUFSIZE - 2" for q
    by (simp_all add: queue_init_def queue_ok_def queue_ring_def queue_contents_def queue_count_def queue_cap_def
        SEND_BUFSIZE_def)
  have reg: "dbg (store_reg a v k) = dbg k" "dbg (modify_reg im a f k) = dbg k" for a v f k
    by (simp_all add: modify_reg_def store_reg_def)
  then have gpio: "dbg (gpio_config im g k) = dbg k" for g k
    by (simp add: gpio_config_def gpio_pupdr_def gpio_moder_def gpio_afr_def gpio_otyper_def gpio_ospeedr_def Let_def)
  have init: "dbg (usart_init im u k) = dbg k" for u
    by (simp add: usart_init_def Let_def reg gpio)
  show "console_ok (dbg_uart_init im k)" "queue_contents (tx (dbg_uart_init im k)) = []"
    by (simp_all add: dbg_uart_init_def console_ok_def Let_def u q dbg_register_device_def DBG_DEV_UART_def DBG_DEV_MAX_def)
  show "uart_selected (dbg_uart_init im k)"
    if "cur_dev (dbg k) = DBG_DEV_UART" "length (dbg_dev (dbg k)) = DBG_DEV_MAX"
    using that by (simp add: dbg_uart_init_def uart_selected_def Let_def u init dbg_register_device_def DBG_DEV_UART_def
        DBG_DEV_MAX_def)
qed

lemma init_hook_console:
  assumes "cur_dev (dbg k) = DBG_DEV_UART" "length (dbg_dev (dbg k)) = DBG_DEV_MAX"
  shows "console_ok (dbg_device_init_hook im k)" "queue_contents (tx (dbg_device_init_hook im k)) = []"
    "uart_selected (dbg_device_init_hook im k)"
proof -
  let ?k = "upd_dbg (\<lambda>d. d\<lparr>dbg_dev := replicate (DBG_DEV_MAX - 1) default_device @ drop (DBG_DEV_MAX - 1) (dbg_dev d)\<rparr>) k"
  have "dbg_device_init_hook im k = upd_dbg (\<lambda>d. d\<lparr>dbg_layer := DL_KDB\<rparr>) (dbg_uart_init im ?k)"
    by (simp add: dbg_device_init_hook_def dbg_device_init_def Let_def)
  moreover have "cur_dev (dbg ?k) = DBG_DEV_UART" "length (dbg_dev (dbg ?k)) = DBG_DEV_MAX" using assms by simp_all
  ultimately show "console_ok (dbg_device_init_hook im k)" "queue_contents (tx (dbg_device_init_hook im k)) = []"
    "uart_selected (dbg_device_init_hook im k)"
    using init_console_ok(1,2) [of im ?k] init_console_ok(3) [of ?k im] by (simp_all add: console_ok_def uart_selected_def)
qed

theorem console_output_in_order_witness:
  "let k = dbg_device_init_hook demo_image demo_kernel in
   console_ok k \<and> uart_selected k \<and>
   (\<exists>k'. put_string demo_image ''F9'' k = Inr k' \<and> console_ok k' \<and> written k' = written k @ [0x46, 0x39])"
proof -
  let ?k = "dbg_device_init_hook demo_image demo_kernel"
  have "cur_dev (dbg demo_kernel) = DBG_DEV_UART" "length (dbg_dev (dbg demo_kernel)) = DBG_DEV_MAX"
    by (simp_all add: demo_kernel_def debug_reset_def DBG_DEV_UART_def)
  note k = init_hook_console [OF this, of demo_image]
  have "length (queue_contents (tx ?k)) + length ''F9'' \<le> SEND_BUFSIZE - 2" by (simp add: k(2) SEND_BUFSIZE_def)
  from console_output_in_order [OF k(1,3) this, of demo_image] show ?thesis using k(1,3) by (simp add: Let_def)
qed

section \<open>The flush before a panic\<close>

text \<open>The documented behaviour of the port: the flag for a completed transmission is set after a byte.\<close>

definition transmits :: "image_t \<Rightarrow> bool" where
  "transmits im \<longleftrightarrow> (\<forall>log. im_dev im log (u_base console_uart + USART_SR) AND USART_TC \<noteq> 0)"

fun with_returns :: "u8 list \<Rightarrow> u8 list" where
  "with_returns [] = []"
| "with_returns (c # cs) = (if c = 10 then [13, c] else [c]) @ with_returns cs"

lemma sync_putchar_sends:
  assumes "transmits im"
  shows "\<exists>k'. dbg_sync_putchar im c k = Inr k' \<and> sent k' = sent k @ with_returns [c] \<and> dbg k' = dbg k"
  using assms by (simp add: dbg_sync_putchar_def sync_send_def Let_def transmits_def usart_status_def load_reg_def load_def)

lemma flush_sends:
  assumes "transmits im" "queue_ok (tx k)" "length (queue_contents (tx k)) < n"
  shows "\<exists>k'. flush_tx n im k = Inr k' \<and> sent k' = sent k @ with_returns (queue_contents (tx k)) \<and>
    queue_contents (tx k') = []"
  using assms(2,3)
proof (induction n arbitrary: k)
  case (Suc n)
  show ?case
  proof (cases "queue_contents (tx k)")
    case Nil
    then show ?thesis using bq.pop_empty [of "tx k"] Suc.prems(1) by simp
  next
    case (Cons c cs)
    obtain q where q: "queue_pop (tx k) = Inr (QUEUE_OK, Some c, q)" "queue_contents q = cs" "queue_ok q"
      using bq.pop_some [of "tx k" c cs] Suc.prems(1) Cons by auto
    let ?k = "upd_uart (\<lambda>u. u\<lparr>uart_tx := q\<rparr>) k"
    obtain k1 where k1: "dbg_sync_putchar im c ?k = Inr k1" "sent k1 = sent k @ with_returns [c]" "dbg k1 = dbg ?k"
      using sync_putchar_sends [OF assms(1), of c ?k] by auto
    then have "queue_ok (tx k1)" "queue_contents (tx k1) = cs" using q by simp_all
    then obtain k' where "flush_tx n im k1 = Inr k'" "sent k' = sent k1 @ with_returns cs" "queue_contents (tx k') = []"
      using Suc.IH [of k1] Suc.prems(2) Cons by auto
    then show ?thesis using q(1) k1 Cons by simp
  qed
qed simp

text \<open>
  C24: The start of a panic ends: all bytes that were waiting in the transmit queue are sent in order, the
  queue is empty, and from then on output is synchronous. The hypothesis on the port is that its flag for
  a completed transmission comes up. Each newline is preceded by a second carriage return.
\<close>

theorem panic_flushes_output:
  assumes "transmits im" "console_ok k"
  shows "\<exists>k'. dbg_uart_start_panic im k = Inr k' \<and> sent k' = sent k @ with_returns (queue_contents (tx k)) \<and>
    queue_contents (tx k') = [] \<and> dbg_state (dbg k') = DBG_PANIC"
proof -
  have "length (queue_contents (tx k)) < queue_ring (tx k)" "queue_ok (tx k)"
    using assms(2) queue_count_less [of "tx k"] by (simp_all add: console_ok_def length_queue_contents)
  moreover have "queue_ring (tx k) \<le> SEND_BUFSIZE"
    using assms(2) unfolding console_ok_def queue_cap_def SEND_BUFSIZE_def by linarith
  ultimately obtain k' where "flush_tx SEND_BUFSIZE im k = Inr k'"
    "sent k' = sent k @ with_returns (queue_contents (tx k))" "queue_contents (tx k') = []"
    using flush_sends [OF assms(1), of k SEND_BUFSIZE] by auto
  then show ?thesis by (simp add: dbg_uart_start_panic_def)
qed

theorem panic_flushes_output_witness:
  "let im = demo_image\<lparr>im_dev := \<lambda>log a. 0x40\<rparr>; k = dbg_uart_init im demo_kernel in
   transmits im \<and> console_ok k \<and>
   (\<exists>k'. dbg_uart_start_panic im k = Inr k' \<and> queue_contents (tx k') = [] \<and> dbg_state (dbg k') = DBG_PANIC)"
proof -
  let ?im = "demo_image\<lparr>im_dev := \<lambda>log a. 0x40\<rparr>"
  have "transmits ?im" by (simp add: transmits_def USART_TC_def)
  then show ?thesis
    using panic_flushes_output [OF _ init_console_ok(1), of ?im ?im demo_kernel] init_console_ok(1)
    by (auto simp: Let_def)
qed

end
