(* ===== verification/F9_Boot.thy ===== *)
theory F9_Boot
  imports F9_Kernel_Inv F9_Fpage_Map F9_Console_Spec
begin

text \<open>
  The start of the kernel completes, and the invariant of its steps holds from there on. Completion is
  shown for a board whose hooks have run: the pages of the kernel information page exist, and the
  creation of the three system threads, the delivery event and the entry of the kernel thread succeed.
\<close>

section \<open>The start completes\<close>

lemma irq_init_mmio: "\<exists>log. irq_init im k = upd_mem ((mem k)\<lparr>mmio := log\<rparr>) k"
proof -
  let ?mmio = "\<lambda>k'. \<exists>log. k' = upd_mem ((mem k)\<lparr>mmio := log\<rparr>) k"
  have st: "?mmio k' \<Longrightarrow> ?mmio (store_reg a v k')" for k' a v
    by (auto simp: store_reg_def store_def upd_mem_def)
  have pr: "?mmio k' \<Longrightarrow> ?mmio (NVIC_SetPriority im i g s k')" for k' i g s
    unfolding NVIC_SetPriority_def Let_def by (simp add: st)
  have "k = upd_mem ((mem k)\<lparr>mmio := mmio (mem k)\<rparr>) k" by (simp add: upd_mem_def)
  then have "?mmio k" by blast
  then show ?thesis
    unfolding irq_init_def Let_def NVIC_PriorityGroupConfig_def by (intro pr) (simp add: st)
qed

text \<open>The serial port with an empty queue, and the banner.\<close>

definition console_ready :: "kernel_t \<Rightarrow> bool" where
  "console_ready k \<longleftrightarrow> console_ok k \<and> uart_selected k \<and> queue_contents (tx k) = []"

lemma console_ready_mmio [simp]: "console_ready (upd_mem m k) = console_ready k"
  by (simp add: console_ready_def console_ok_def uart_selected_def)

lemma print_banner_starts:
  assumes "console_ready k" "length (l4_puts (im_banner im)) \<le> SEND_BUFSIZE - 2"
  obtains k' where "print_banner im k = Inr k'" "io_only k k'"
proof -
  have "w \<le> 0 \<Longrightarrow> l4_puts_x s w pad = l4_puts s" for s w pad by (induction s arbitrary: w) auto
  then have "l4_printf ''%s'' [Str (im_banner im)] = Inr (l4_puts (im_banner im))"
    by (simp add: l4_printf_def l4_vprintf_def is_digit_def l4_specifier_def)
  then obtain k' where "print_banner im k = Inr k'"
    using put_string_appends [of k "l4_puts (im_banner im)" im] assms by (auto simp: console_ready_def print_banner_def)
  then show thesis using that io_only_banner by blast
qed

text \<open>The tables of the memory manager with the two pages of the kernel information page.\<close>

definition kip_ready :: "kernel_t \<Rightarrow> bool" where
  "kip_ready k \<longleftrightarrow> fpages_ok (mem k) \<and> ktable_ok (as_table (mem k)) \<and>
     card (ktable_used (as_table (mem k))) < ktable_cap (as_table (mem k)) \<and>
     (\<exists>p q. kip_fpage k = Some p \<and> kip_extra_fpage k = Some q \<and> ktable_used (fpage_table (mem k)) = {p, q} \<and>
        page_hi (mem k) p \<le> page_lo (mem k) q)"

lemma kip_ready_frame [simp]:
  "kip_ready (upd_mem ((mem k)\<lparr>mmio := log\<rparr>) k) = kip_ready k"
  "kip_ready (upd_tcb t f k) = kip_ready k" "kip_ready (write_ram a v k) = kip_ready k"
  "kip_ready (sched_slot_dispatch s p k) = kip_ready k"
  "kip_ready (set_state t st k) = kip_ready k" "kip_ready (k\<lparr>idle := p\<rparr>) = kip_ready k"
  "kip_ready (k\<lparr>root := p\<rparr>) = kip_ready k"
  "kip_ready (thread_init_ctx im sp pc t k) = kip_ready k"
  by (simp_all add: kip_ready_def page_hi_def page_lo_def fpages_ok_def upd_mem_def write_ram_def
      sched_slot_dispatch_def upd_slot_def set_state_def thread_init_ctx_def Let_def upd_tcb_def)

lemma grant_kip_pages:
  assumes ok: "kip_ready k"
  obtains a m m1 m2 where "as_create g (mem k) = Inr (a, m)" "map_fpage a (kip_fpage k) GRANT m = Inr (0, m1)"
    "map_fpage a (kip_extra_fpage k) GRANT m1 = Inr (0, m2)"
proof -
  obtain p q where pq: "kip_fpage k = Some p" "kip_extra_fpage k = Some q"
    "ktable_used (fpage_table (mem k)) = {p, q}" "page_hi (mem k) p \<le> page_lo (mem k) q" "fpages_ok (mem k)"
    using ok by (auto simp: kip_ready_def)
  obtain a kt where a: "ktable_alloc_slot (as_table (mem k)) = Inr (Some a, kt)"
    using ok kt.alloc_room [of "as_table (mem k)"] unfolding kip_ready_def by metis
  define m where "m = upd_as a (\<lambda>x. x\<lparr>as_spaceid := g, as_first := None, as_shared := 0\<rparr>) ((mem k)\<lparr>as_table := kt\<rparr>)"
  have m: "as_create g (mem k) = Inr (a, m)" using a by (simp add: as_create_def m_def)
  have mf: "fpage_table m = fpage_table (mem k)" "fpages m = fpages (mem k)" "as_chain m a ([] @ [])"
    by (simp_all add: m_def upd_as_def as_chain_def ascending_def)
  have okm: "fpages_ok m" and p: "p \<in> ktable_used (fpage_table m)"
    and room: "card (ktable_used (fpage_table m)) < CONFIG_MAX_FPAGES"
    using pq(3,5) by (auto simp: mf fpages_ok_def CONFIG_MAX_FPAGES_def card_insert_if)
  obtain i m1 where r: "map_fpage a (Some p) GRANT m = Inr (0, m1)" "i \<notin> ktable_used (fpage_table m)"
    "ktable_used (fpage_table m1) = insert i (ktable_used (fpage_table m))" "fpages_ok m1"
    "as_chain m1 a ([] @ i # [])" "clone_of (fpages m p) (fpages m1 i)"
    "page_tile (fpages m1 p) = page_tile (fpages m p)"
    "\<And>j. j \<noteq> i \<Longrightarrow> j \<noteq> p \<Longrightarrow> page_core (fpages m1 j) = page_core (fpages m j)"
    by (rule map_fpage_spec [OF okm p room mf(3), of GRANT]) auto
  have "p \<noteq> q" using pq(4) page_lo_less_hi [of "mem k" p] by auto
  then have q: "page_lo m1 q = page_lo (mem k) q"
    using r(2) r(8) [of q] page_core_eqD(1) [of "fpages m1 q" "fpages m q"] pq(3) mf
    by (auto simp: page_lo_def page_tile_def)
  have i: "page_hi m1 i = page_hi (mem k) p"
    using r(6) mf(2) by (simp add: page_hi_def page_lo_def clone_of_def page_tile_def)
  have "\<forall>u\<in>set [i]. page_hi m1 u \<le> page_lo m1 q" using pq(4) q i by simp
  moreover have "as_chain m1 a ([i] @ [])" using r(5) by simp
  moreover have "q \<in> ktable_used (fpage_table m1)" "card (ktable_used (fpage_table m1)) < CONFIG_MAX_FPAGES"
    using r(3) mf(1) pq(3) by (auto simp: CONFIG_MAX_FPAGES_def card_insert_if)
  ultimately obtain m2 where "map_fpage a (Some q) GRANT m1 = Inr (0, m2)"
    using map_fpage_spec [OF r(4), of q a "[i]" "[]" GRANT] by (metis empty_iff empty_set)
  then show thesis using that m r(1) pq(1,2) by auto
qed

lemma threads_ok_frame [simp]:
  "threads_ok (upd_mem m k) es = threads_ok k es"
  "threads_ok (sched_slot_dispatch s p k) es = threads_ok k es"
  "threads_ok (k\<lparr>idle := p\<rparr>) es = threads_ok k es" "threads_ok (k\<lparr>root := p\<rparr>) es = threads_ok k es"
  "threads_ok (k\<lparr>ktimer := kt\<rparr>) es = threads_ok k es"
  "threads_ok (write_ram a v k) es = threads_ok k es"
  by (simp_all add: threads_ok_def map_holds_def slot_tid_def [abs_def] upd_mem_def sched_slot_dispatch_def
      upd_slot_def write_ram_def)

lemma threads_ok_tcb:
  "(\<And>x. t_globalid (f x) = t_globalid x) \<Longrightarrow> threads_ok (upd_tcb t f k) es = threads_ok k es"
proof -
  assume "\<And>x. t_globalid (f x) = t_globalid x"
  then have "slot_tid (upd_tcb t f k) = slot_tid k" by (auto simp: slot_tid_def fun_eq_iff)
  then show ?thesis by (simp add: threads_ok_def map_holds_def)
qed

lemma threads_ok_ctx [simp]:
  "threads_ok (thread_init_ctx im sp pc t k) es = threads_ok k es"
  "threads_ok (thread_init_kernel_ctx sp t k) es = threads_ok k es"
  "threads_ok (set_state t st k) es = threads_ok k es"
  by (simp_all add: thread_init_ctx_def thread_init_kernel_ctx_def set_state_def Let_def threads_ok_tcb)

lemma start_fields [simp]:
  "caller (sched_slot_dispatch s p k) = caller k" "caller (set_state t st k) = caller k"
  "caller (thread_init_ctx im sp pc t k) = caller k"
  "ktimer (sched_slot_dispatch s p k) = ktimer k" "ktimer (set_state t st k) = ktimer k"
  "ktimer (thread_init_ctx im sp pc t k) = ktimer k"
  by (simp_all add: sched_slot_dispatch_def upd_slot_def set_state_def thread_init_ctx_def Let_def)

text \<open>What the start needs of the state besides, and that the new blocks leave it alone.\<close>

definition start_ready :: "kernel_t \<Rightarrow> bool" where
  "start_ready k \<longleftrightarrow> kip_ready k \<and> caller k = None \<and> event_queue (ktimer k) = None \<and>
     ktable_ok (ktimer_event_table (ktimer k))"

lemma start_ready_frame [simp]:
  "start_ready (upd_tcb t f k) = start_ready k" "start_ready (k\<lparr>idle := p\<rparr>) = start_ready k"
  "start_ready (sched_slot_dispatch s p k) = start_ready k" "start_ready (set_state t st k) = start_ready k"
  "start_ready (thread_init_ctx im sp pc t k) = start_ready k"
  "start_ready (upd_mem ((mem k)\<lparr>mmio := log\<rparr>) k) = start_ready k"
  by (simp_all add: start_ready_def sched_slot_dispatch_def upd_slot_def set_state_def thread_init_ctx_def Let_def)
     (simp_all add: kip_ready_def page_hi_def page_lo_def)

lemma ready_io_only:
  assumes "io_only k k'"
  shows "threads_ok k' es = threads_ok k es" "start_ready k' = start_ready k"
proof -
  obtain log d where "k' = (upd_mem ((mem k)\<lparr>mmio := log\<rparr>) k)\<lparr>dbg := d\<rparr>"
    using io_only_eq [OF assms] by (simp add: upd_mem_def)
  moreover have "threads_ok (k\<lparr>dbg := d\<rparr>) es = threads_ok k es" "start_ready (k\<lparr>dbg := d\<rparr>) = start_ready k" for k
    by (simp_all add: threads_ok_def map_holds_def slot_tid_def [abs_def] start_ready_def kip_ready_def)
  ultimately show "threads_ok k' es = threads_ok k es" "start_ready k' = start_ready k" by simp_all
qed

lemma thread_init_starts:
  assumes "threads_ok k es" "length es < CONFIG_MAX_THREADS"
  obtains t i k' where "thread_init g u k = Inr (Some t, k')" "threads_ok k' (insert_at i t es)"
    "tcbs k' t = init_tcb g u (tcbs k t)" "start_ready k' = start_ready k" "mem k' = mem k"
    "kip_fpage k' = kip_fpage k" "kip_extra_fpage k' = kip_extra_fpage k" "caller k' = caller k"
    "ktimer k' = ktimer k"
proof -
  obtain t i k' where r: "thread_init g u k = Inr (Some t, k')" "threads_ok k' (insert_at i t es)"
    "tcbs k' = (tcbs k)(t := init_tcb g u (tcbs k t))"
    using thread_init_ok [OF assms, where g = g and u = u] by metis
  have "ktable_ok (thread_table k)" using assms(1) by (simp add: threads_ok_def)
  from thread_init_fresh [OF r(1) this] obtain kt xs n where
    "k' = k\<lparr>thread_table := kt, thread_map := xs, thread_count := n,
       tcbs := (tcbs k)(t := init_tcb g u (tcbs k t)), ram := init_ram g u (ram k)\<rparr>" by metis
  then show thesis using that r by (simp add: start_ready_def kip_ready_def)
qed

lemma create_idle_thread_starts:
  assumes "threads_ok k es" "length es < CONFIG_MAX_THREADS" "start_ready k"
  obtains i t k' where "create_idle_thread im k = Inr k'" "threads_ok k' (insert_at i t es)" "start_ready k'"
proof -
  obtain t i k' where "thread_init (TID_TO_GLOBALID THREAD_IDLE) 0 k = Inr (Some t, k')"
    "threads_ok k' (insert_at i t es)" "start_ready k' = start_ready k"
    using thread_init_starts [OF assms(1,2)] by metis
  then show thesis using that assms(3) by (auto simp: create_idle_thread_def Let_def)
qed

text \<open>A board whose memory map has no pool for the user: the root thread gets the two granted pages.\<close>

lemma create_root_thread_starts:
  assumes k: "threads_ok k es" "length es < CONFIG_MAX_THREADS" "start_ready k" and im: "im_memmap im = []"
  obtains i t k' where "create_root_thread im k = Inr k'" "threads_ok k' (insert_at i t es)"
    "caller k' = None" "event_queue (ktimer k') = None" "ktable_ok (ktimer_event_table (ktimer k'))"
proof -
  let ?g = "TID_TO_GLOBALID THREAD_ROOT"
  obtain t i k1 where t: "thread_init ?g (im_root_utcb im) k = Inr (Some t, k1)"
    "threads_ok k1 (insert_at i t es)" "tcbs k1 t = init_tcb ?g (im_root_utcb im) (tcbs k t)"
    "start_ready k1 = start_ready k"
    using thread_init_starts [OF k(1,2)] by metis
  have ready: "kip_ready k1" "caller k1 = None" "event_queue (ktimer k1) = None"
    "ktable_ok (ktimer_event_table (ktimer k1))"
    using t(4) k(3) by (auto simp: start_ready_def)
  obtain a m m1 m2 where m: "as_create ?g (mem k1) = Inr (a, m)"
    "map_fpage a (kip_fpage k1) GRANT m = Inr (0, m1)" "map_fpage a (kip_extra_fpage k1) GRANT m1 = Inr (0, m2)"
    using grant_kip_pages [OF ready(1)] by metis
  have no_pool: "mempool_search [] base sz = - 1" for base sz by code_simp
  let ?k = "upd_mem m2 (upd_tcb t (t_as_update (\<lambda>_. Some a)) (upd_mem m (k1\<lparr>root := Some t\<rparr>)))"
  have "thread_space im t ?g (im_root_utcb im) (k1\<lparr>root := Some t\<rparr>) = Inr ?k"
    using m t(3) ready(2) im
    by (simp add: thread_space_def Let_def init_tcb_def map_area_def assign_fpages_ext_def no_pool upd_mem_def
        upd_tcb_def)
  then have "create_root_thread im k = Inr (set_state t T_RUNNABLE (sched_slot_dispatch SSI_ROOT_THREAD (Some t)
      (upd_tcb t (\<lambda>x. x\<lparr>stack_base := im_root_stack_start im,
                        stack_size := im_root_stack_end im - im_root_stack_start im\<rparr>)
        (thread_init_ctx im (im_root_stack_end im) (im_root_thread im) t (upd_mem m2 ?k)))))"
    using t(1) im by (simp add: create_root_thread_def Let_def as_map_user_def)
  then show thesis by (rule that [of _ i t]) (use t(2) ready in \<open>simp_all add: threads_ok_tcb\<close>)
qed

lemma switch_to_kernel_starts:
  assumes "threads_ok k es" "length es < CONFIG_MAX_THREADS"
  shows "\<exists>k'. switch_to_kernel im k = Inr k'"
proof -
  obtain t i k' where "thread_init (TID_TO_GLOBALID THREAD_KERNEL) 0 k = Inr (Some t, k')"
    using thread_init_starts [OF assms] by metis
  then show ?thesis by (simp add: switch_to_kernel_def create_kernel_thread_def Let_def)
qed

lemma first_event_starts:
  assumes "event_queue (ktimer k) = None" "ktable_ok (ktimer_event_table (ktimer k))"
  obtains r kt where "ktimer_event_create 64 (Some Ipc_deliver) None k = Inr (r, k\<lparr>ktimer := kt\<rparr>)"
proof -
  from assms(2) have "\<exists>r t. ktable_alloc_slot (ktimer_event_table (ktimer k)) = Inr (r, t)"
    by (rule kt.alloc_cases) auto
  then obtain s t where "ktable_alloc_slot (ktimer_event_table (ktimer k)) = Inr (s, t)" by blast
  then have "\<exists>r kt. ktimer_event_create 64 (Some Ipc_deliver) None k = Inr (r, k\<lparr>ktimer := kt\<rparr>)"
    using assms(1)
    by (cases s) (auto simp: ktimer_event_create_def ktimer_event_schedule_def upd_ktimer_def upd_event_def Let_def)
  then show thesis using that by blast
qed

lemma main_completes:
  assumes k: "threads_ok k []" "start_ready k" "console_ready k"
    and im: "im_memmap im = []" "length (l4_puts (im_banner im)) \<le> SEND_BUFSIZE - 2"
  shows "\<exists>k'. main im [] l k = Inr k'"
proof -
  obtain log where log: "irq_init im k = upd_mem ((mem k)\<lparr>mmio := log\<rparr>) k" using irq_init_mmio by blast
  have "threads_ok (irq_init im k) []" "start_ready (irq_init im k)" "console_ready (irq_init im k)"
    using k log by simp_all
  moreover obtain kb where kb: "print_banner im (irq_init im k) = Inr kb" "io_only (irq_init im k) kb"
    using print_banner_starts [OF calculation(3) im(2)] .
  ultimately have "threads_ok kb []" "start_ready kb" using ready_io_only by simp_all
  then obtain i t k1 where k1: "create_idle_thread im kb = Inr k1" "threads_ok k1 (insert_at i t [])" "start_ready k1"
    using create_idle_thread_starts [of kb "[]"] by (metis CONFIG_MAX_THREADS_def list.size(3) zero_less_numeral)
  obtain i2 t2 k2 where k2: "create_root_thread im k1 = Inr k2"
    "threads_ok k2 (insert_at i2 t2 (insert_at i t []))"
    "event_queue (ktimer k2) = None" "ktable_ok (ktimer_event_table (ktimer k2))"
    by (rule create_root_thread_starts [OF k1(2) _ k1(3) im(1)]) (auto simp: CONFIG_MAX_THREADS_def)
  obtain r kt where k3: "ktimer_event_create 64 (Some Ipc_deliver) None k2 = Inr (r, k2\<lparr>ktimer := kt\<rparr>)"
    using first_event_starts [OF k2(3,4)] by metis
  let ?k = "upd_mem (mpu_enable MPU_ENABLED (mem k2)) (k2\<lparr>ktimer := kt\<rparr>)"
  obtain k' where "switch_to_kernel im ?k = Inr k'"
    using switch_to_kernel_starts [of ?k "insert_at i2 t2 (insert_at i t [])" im] k2(2)
    by (auto simp: CONFIG_MAX_THREADS_def)
  then show ?thesis using kb(1) k1(1) k2(1) k3 by (simp add: main_def run_init_hook_def Let_def)
qed

section \<open>A board\<close>

text \<open>The state before the system threads are created, on a board without user memory.\<close>

definition boot_page :: "u32 \<Rightarrow> fpage_t" where
  "boot_page base = null_fpage\<lparr>fp_base := base, fp_shift := 8, fp_rwx := 4\<rparr>"

definition boot_kernel :: kernel_t where
  "boot_kernel = demo_kernel\<lparr>
     mem := demo_mem\<lparr>
       fpage_table := (fpage_table demo_mem)\<lparr>bitmap := [3, 0, 0, 0, 0, 0, 0, 0]\<rparr>,
       fpages := (\<lambda>_. null_fpage)(0 := boot_page 0x20000000, 1 := boot_page 0x20000100)\<rparr>,
     thread_table := DECLARE_KTABLE ''thread_table'' 0x20000400 96 CONFIG_MAX_THREADS,
     thread_map := replicate CONFIG_MAX_THREADS None, thread_count := 0, current := None, caller := None,
     idle := None, kernel := None, root := None, kip_fpage := Some 0, kip_extra_fpage := Some 1,
     dbg := dbg (dbg_device_init_hook demo_image demo_kernel)\<rparr>"

definition boot_image :: image_t where
  "boot_image = demo_image\<lparr>im_memmap := [], im_banner := ''F9''\<rparr>"

lemma boot_kernel_pages: "ktable_used (fpage_table (mem boot_kernel)) = {0, 1}"
  using demo_clone_mem_used by (simp add: boot_kernel_def demo_clone_mem_def)

lemma boot_kernel_ready: "threads_ok boot_kernel []" "start_ready boot_kernel" "base_ok boot_kernel"
proof -
  have t: "ktable_ok (thread_table boot_kernel)" "ktable_cap (thread_table boot_kernel) = CONFIG_MAX_THREADS"
    "ktable_used (thread_table boot_kernel) = {}"
    by (simp_all add: boot_kernel_def CONFIG_MAX_THREADS_def)
  then show "threads_ok boot_kernel []"
    by (simp add: threads_ok_def map_holds_def) (simp add: boot_kernel_def)
  show "base_ok boot_kernel"
    using t(1) by (simp add: base_ok_def map_in_def) (simp add: boot_kernel_def demo_kernel_def)
  have "fpages_ok (mem boot_kernel)"
    by (simp add: fpages_ok_def boot_kernel_def demo_mem_def DECLARE_KTABLE_def CONFIG_MAX_FPAGES_def
        ktable_ok_def ktable_cap_def bm_room_def)
  moreover have "page_hi (mem boot_kernel) 0 \<le> page_lo (mem boot_kernel) 1"
    by (simp add: page_hi_def page_lo_def boot_kernel_def boot_page_def)
  moreover have "ktable_ok (as_table (mem boot_kernel))" "ktable_used (as_table (mem boot_kernel)) = {}"
    "ktable_cap (as_table (mem boot_kernel)) = CONFIG_MAX_ADRESS_SPACES"
    by (simp_all add: boot_kernel_def demo_mem_def CONFIG_MAX_ADRESS_SPACES_def)
  moreover have "kip_fpage boot_kernel = Some 0" "kip_extra_fpage boot_kernel = Some 1" by (simp_all add: boot_kernel_def)
  ultimately have "kip_ready boot_kernel"
    using boot_kernel_pages by (auto simp: kip_ready_def CONFIG_MAX_ADRESS_SPACES_def)
  moreover have "caller boot_kernel = None" "event_queue (ktimer boot_kernel) = None"
    "ktable_ok (ktimer_event_table (ktimer boot_kernel))"
    by (simp_all add: boot_kernel_def demo_kernel_def CONFIG_MAX_KT_EVENTS_def)
  ultimately show "start_ready boot_kernel" by (simp add: start_ready_def)
qed

lemma boot_console_ready: "console_ready boot_kernel"
proof -
  have "cur_dev (dbg demo_kernel) = DBG_DEV_UART" "length (dbg_dev (dbg demo_kernel)) = DBG_DEV_MAX"
    by (simp_all add: demo_kernel_def debug_reset_def DBG_DEV_UART_def)
  from init_hook_console [OF this, of demo_image] show ?thesis
    by (simp add: console_ready_def console_ok_def uart_selected_def boot_kernel_def)
qed

section \<open>The scheduler\<close>

text \<open>
  C1: The scheduler never panics. In every state that the machine reaches from the start of the kernel
  by timer and serial interrupts, system calls, memory faults, breakpoints, soft interrupts (the debugger
  among them), context switches, idling, typed input and the computations of threads, the last scheduler
  slot holds the idle thread, the idle thread is runnable, and \<^verbatim>\<open>schedule_select\<close> does not run past its
  slots into the panic at its end.
\<close>

theorem scheduler_never_panics:
  assumes "reachable im hs (cpu, k)" "set hs \<subseteq> set (kernel_hooks im)"
  shows "\<exists>d. idle k = Some d \<and> ss_scheduled (slots k ! slot_index SSI_IDLE) = Some d \<and>
           t_state (tcbs k d) = T_RUNNABLE \<and> schedule_select k \<noteq> panic ''Reached end of schedule()''"
proof -
  obtain d where "idle_ok d k" using idle_reachable [OF assms] by auto
  then show ?thesis using idle_no_panic [of d k] by (auto simp: idle_ok_def)
qed


theorem scheduler_never_panics_witness:
  "\<exists>k d. main boot_image [] 0 boot_kernel = Inr k \<and> idle k = Some d \<and>
     t_state (tcbs k d) = T_RUNNABLE \<and> schedule_select k \<noteq> panic ''Reached end of schedule()''"
proof -
  have "im_memmap boot_image = []" "length (l4_puts (im_banner boot_image)) \<le> SEND_BUFSIZE - 2"
    by (simp_all add: boot_image_def SEND_BUFSIZE_def newline_def)
  then obtain k where k: "main boot_image [] 0 boot_kernel = Inr k"
    using main_completes [OF boot_kernel_ready(1,2) boot_console_ready] by metis
  then have "reachable boot_image [] (demo_cpu, k)" by (rule reachable.start [OF boot_kernel_ready(3)])
  then show ?thesis using k scheduler_never_panics [of boot_image "[]" demo_cpu k] by auto
qed

end
