(* ===== verification/F9_Ipc_Spec.thy ===== *)
theory F9_Ipc_Spec
  imports F9_Ipc F9_Thread_Map
begin

text \<open>
  Correctness of message passing: a message to a thread that waits for it arrives as it was sent, both
  threads are in the states the protocol prescribes, and nothing else changes.
\<close>

section \<open>Message registers as one array\<close>

definition mr_word :: "memptr \<Rightarrow> nat \<Rightarrow> memptr" where
  "mr_word p i = p + (UTCB_mr + 4 * of_nat (i - 8))"

definition mrs :: "kernel_t \<Rightarrow> nat \<Rightarrow> nat \<Rightarrow> u32" where
  "mrs k t i = (if i \<ge> 8 then ram k (mr_word (t_utcb (tcbs k t)) i) else ctx_regs (ctx (tcbs k t)) ! i)"

definition mr_words :: "kernel_t \<Rightarrow> nat \<Rightarrow> memptr set" where
  "mr_words k t = mr_word (t_utcb (tcbs k t)) ` {8..<16}"

definition mr_ok :: "kernel_t \<Rightarrow> nat \<Rightarrow> bool" where
  "mr_ok k t \<longleftrightarrow> t_utcb (tcbs k t) \<noteq> 0 \<and> length (ctx_regs (ctx (tcbs k t))) = 8"

lemma mr_word_inj: "i < 16 \<Longrightarrow> j < 16 \<Longrightarrow> 8 \<le> i \<Longrightarrow> 8 \<le> j \<Longrightarrow> mr_word p i = mr_word p j \<Longrightarrow> i = j"
proof -
  assume b: "i < 16" "j < 16" "8 \<le> i" "8 \<le> j" and eq: "mr_word p i = mr_word p j"
  have "(of_nat (4 * (i - 8)) :: u32) = of_nat (4 * (j - 8))" using eq by (simp add: mr_word_def)
  then have "4 * (i - 8) = 4 * (j - 8)"
    using b by (simp add: word_of_nat_eq_iff take_bit_nat_eq_self del: of_nat_mult)
  then show "i = j" using b by simp
qed

lemma read_mr: "mr_ok k t \<Longrightarrow> i < 16 \<Longrightarrow> ipc_read_mr k t i = Inr (mrs k t i)"
  by (simp add: ipc_read_mr_def mrs_def mr_ok_def utcb_read_def mr_word_def)

text \<open>Only the message registers of \<open>to\<close> differ.\<close>

definition message_only :: "nat \<Rightarrow> kernel_t \<Rightarrow> kernel_t \<Rightarrow> bool" where
  "message_only to k k' \<longleftrightarrow> (\<exists>rs r. length rs = length (ctx_regs (ctx (tcbs k to))) \<and> (\<forall>a. a \<notin> mr_words k to \<longrightarrow> r a = ram k a) \<and>
     k' = k\<lparr>tcbs := (tcbs k)(to := (tcbs k to)\<lparr>ctx := (ctx (tcbs k to))\<lparr>ctx_regs := rs\<rparr>\<rparr>), ram := r\<rparr>)"

lemma message_only_refl: "message_only to k k"
proof -
  have "k = k\<lparr>tcbs := (tcbs k)(to := (tcbs k to)\<lparr>ctx := (ctx (tcbs k to))\<lparr>ctx_regs := ctx_regs (ctx (tcbs k to))\<rparr>\<rparr>), ram := ram k\<rparr>"
    by simp
  then show ?thesis unfolding message_only_def by blast
qed

lemma message_only_trans:
  assumes "message_only to k k1" "message_only to k1 k2"
  shows "message_only to k k2"
proof -
  obtain rs r where k1: "length rs = length (ctx_regs (ctx (tcbs k to)))" "\<And>a. a \<notin> mr_words k to \<Longrightarrow> r a = ram k a"
    "k1 = k\<lparr>tcbs := (tcbs k)(to := (tcbs k to)\<lparr>ctx := (ctx (tcbs k to))\<lparr>ctx_regs := rs\<rparr>\<rparr>), ram := r\<rparr>"
    using assms(1) unfolding message_only_def by blast
  have w: "mr_words k1 to = mr_words k to" unfolding k1(3) by (simp add: mr_words_def)
  obtain rs2 r2 where k2: "length rs2 = length (ctx_regs (ctx (tcbs k1 to)))" "\<And>a. a \<notin> mr_words k1 to \<Longrightarrow> r2 a = ram k1 a"
    "k2 = k1\<lparr>tcbs := (tcbs k1)(to := (tcbs k1 to)\<lparr>ctx := (ctx (tcbs k1 to))\<lparr>ctx_regs := rs2\<rparr>\<rparr>), ram := r2\<rparr>"
    using assms(2) unfolding message_only_def by blast
  show ?thesis
    unfolding message_only_def
    by (rule exI [of _ rs2], rule exI [of _ r2]) (use k1 k2 w in simp)
qed

lemma message_only_keeps:
  assumes "message_only to k k'"
  shows "mr_ok k' t = mr_ok k t" "mr_words k' t = mr_words k t"
    "from \<noteq> to \<Longrightarrow> mr_words k from \<inter> mr_words k to = {} \<Longrightarrow> i < 16 \<Longrightarrow> mrs k' from i = mrs k from i"
proof -
  obtain rs r where k': "length rs = length (ctx_regs (ctx (tcbs k to)))" "\<And>a. a \<notin> mr_words k to \<Longrightarrow> r a = ram k a"
    "k' = k\<lparr>tcbs := (tcbs k)(to := (tcbs k to)\<lparr>ctx := (ctx (tcbs k to))\<lparr>ctx_regs := rs\<rparr>\<rparr>), ram := r\<rparr>"
    using assms(1) unfolding message_only_def by blast
  show "mr_ok k' t = mr_ok k t" "mr_words k' t = mr_words k t"
    unfolding k'(3) using k'(1) by (cases "t = to"; simp add: mr_ok_def mr_words_def)+
  assume ne: "from \<noteq> to" and dis: "mr_words k from \<inter> mr_words k to = {}" and i: "i < 16"
  have "mr_word (t_utcb (tcbs k from)) i \<in> mr_words k from" if "8 \<le> i" using that i by (simp add: mr_words_def)
  then have "r (mr_word (t_utcb (tcbs k from)) i) = ram k (mr_word (t_utcb (tcbs k from)) i)" if "8 \<le> i"
    using dis that by (intro k'(2)) blast
  then show "mrs k' from i = mrs k from i" unfolding k'(3) using ne by (simp add: mrs_def)
qed

lemma write_mr:
  assumes "mr_ok k to" "i < 16"
  obtains k' where "ipc_write_mr to i v k = Inr k'" "message_only to k k'" "mrs k' to i = v"
    "\<And>j. j < 16 \<Longrightarrow> j \<noteq> i \<Longrightarrow> mrs k' to j = mrs k to j"
proof (cases "i \<ge> 8")
  case True
  let ?a = "mr_word (t_utcb (tcbs k to)) i"
  have w: "ipc_write_mr to i v k = Inr (write_ram ?a v k)"
    using assms True by (simp add: ipc_write_mr_def utcb_write_def mr_ok_def mr_word_def)
  have "message_only to k (write_ram ?a v k)"
    unfolding message_only_def
    by (rule exI [of _ "ctx_regs (ctx (tcbs k to))"], rule exI [of _ "(ram k)(?a := v)"])
      (use assms(2) True in \<open>auto simp: write_ram_def mr_words_def\<close>)
  moreover have "mrs (write_ram ?a v k) to i = v" using True by (simp add: mrs_def)
  moreover have "mrs (write_ram ?a v k) to j = mrs k to j" if "j < 16" "j \<noteq> i" for j
    using that mr_word_inj [of j i] assms(2) True by (auto simp: mrs_def)
  ultimately show thesis using that [OF w] by blast
next
  case False
  let ?k = "upd_tcb to (\<lambda>t. t\<lparr>ctx := (ctx t)\<lparr>ctx_regs := (ctx_regs (ctx (tcbs k to)))[i := v]\<rparr>\<rparr>) k"
  have w: "ipc_write_mr to i v k = Inr ?k"
    using assms False by (simp add: ipc_write_mr_def array_set_def mr_ok_def)
  have "message_only to k ?k"
    unfolding message_only_def
    by (rule exI [of _ "(ctx_regs (ctx (tcbs k to)))[i := v]"], rule exI [of _ "ram k"]) (auto simp: upd_tcb_def)
  moreover have "mrs ?k to i = v" "\<And>j. j < 16 \<Longrightarrow> j \<noteq> i \<Longrightarrow> mrs ?k to j = mrs k to j"
    using False assms by (auto simp: mrs_def mr_ok_def)
  ultimately show thesis using that [OF w] by blast
qed

lemma copy_untyped_spec:
  assumes "mr_ok k from" "mr_ok k to" "from \<noteq> to" "mr_words k from \<inter> mr_words k to = {}" "i + n \<le> 16"
  obtains k' where "copy_untyped n i from to k = Inr k'" "message_only to k k'"
    "\<And>j. j < 16 \<Longrightarrow> mrs k' to j = (if i \<le> j \<and> j < i + n then mrs k from j else mrs k to j)"
  using assms
proof (induction n arbitrary: i k thesis)
  case 0
  show ?case by (rule 0(1) [of k]) (simp, rule message_only_refl, auto)
next
  case (Suc n)
  have i: "i < 16" using Suc.prems by simp
  obtain k1 where k1: "ipc_write_mr to i (mrs k from i) k = Inr k1" "message_only to k k1" "mrs k1 to i = mrs k from i"
    "\<And>j. j < 16 \<Longrightarrow> j \<noteq> i \<Longrightarrow> mrs k1 to j = mrs k to j"
    using write_mr [OF Suc.prems(3) i] by metis
  note keep = message_only_keeps [OF k1(2)]
  obtain k' where k': "copy_untyped n (Suc i) from to k1 = Inr k'" "message_only to k1 k'"
    "\<And>j. j < 16 \<Longrightarrow> mrs k' to j = (if Suc i \<le> j \<and> j < Suc i + n then mrs k1 from j else mrs k1 to j)"
    by (rule Suc.IH [of "Suc i" k1]) (use Suc.prems keep(1,2) in auto)
  have src: "mrs k1 from j = mrs k from j" if "j < 16" for j using keep(3) [OF Suc.prems(4,5) that] .
  show ?case
  proof (rule Suc.prems(1))
    show "copy_untyped (Suc n) i from to k = Inr k'" using read_mr [OF Suc.prems(2) i] k1(1) k'(1) by simp
    show "message_only to k k'" using k1(2) k'(2) by (rule message_only_trans)
    show "mrs k' to j = (if i \<le> j \<and> j < i + Suc n then mrs k from j else mrs k to j)" if "j < 16" for j
      using k'(3) [OF that] src [OF that] k1(3) k1(4) [OF that] by (cases "j = i") auto
  qed
qed

section \<open>Delivery\<close>

definition reply_word :: "kernel_t \<Rightarrow> nat \<Rightarrow> memptr" where
  "reply_word k t = stack_word (ctx_sp (ctx (tcbs k t))) REG_R0"

definition receive_word :: "kernel_t \<Rightarrow> nat \<Rightarrow> memptr" where
  "receive_word k t = stack_word (ctx_sp (ctx (tcbs k t))) REG_R1"

definition sender_word :: "kernel_t \<Rightarrow> nat \<Rightarrow> memptr" where
  "sender_word k t = t_utcb (tcbs k t) + UTCB_sender"

text \<open>
  Two threads with control blocks and stacks that do not overlap where the transfer reads and writes.
\<close>

definition ipc_pair :: "kernel_t \<Rightarrow> nat \<Rightarrow> nat \<Rightarrow> bool" where
  "ipc_pair k from to \<longleftrightarrow> from \<noteq> to \<and> mr_ok k from \<and> mr_ok k to \<and> ctx_sp (ctx (tcbs k from)) \<noteq> 0 \<and>
     ctx_sp (ctx (tcbs k to)) \<noteq> 0 \<and> mr_words k from \<inter> mr_words k to = {} \<and> sender_word k to \<notin> mr_words k to \<and>
     reply_word k to \<notin> mr_words k to \<and>
     receive_word k from \<notin> insert (sender_word k to) (insert (reply_word k to) (mr_words k to))"

definition sender_after :: "u32 \<Rightarrow> tcb_t \<Rightarrow> tcb_t" where
  "sender_after recv t = (if recv = L4_NILTHREAD then t\<lparr>t_state := T_RUNNABLE\<rparr>
     else t\<lparr>t_state := T_RECV_BLOCKED, ipc_from := recv\<rparr>)"

lemma finish_ipc_spec:
  assumes "ipc_pair k from to"
  obtains k' where "finish_ipc from to k = Inr k'"
    "tcbs k' = (tcbs k)(to := (tcbs k to)\<lparr>t_state := T_RUNNABLE, ipc_from := L4_NILTHREAD\<rparr>,
       from := sender_after (ram k (receive_word k from)) (tcbs k from))"
    "ram k' = (ram k)(sender_word k to := t_globalid (tcbs k from), reply_word k to := t_globalid (tcbs k from))"
    "slots k' = slots (sched_slot_dispatch SSI_IPC_THREAD (Some to) (sched_slot_dispatch SSI_NORMAL_THREAD (Some from) k))"
    "mem k' = mem k"
proof -
  note p = assms [unfolded ipc_pair_def]
  let ?k' = "case finish_ipc from to k of Inr k' \<Rightarrow> k' | _ \<Rightarrow> k"
  show thesis
    by (rule that [of ?k'])
      (use p in \<open>auto simp: finish_ipc_def utcb_write_def mr_ok_def sender_word_def reply_word_def receive_word_def
         sender_after_def set_state_def sched_slot_dispatch_def upd_slot_def upd_tcb_def Let_def fun_eq_iff\<close>)
qed

lemma message_only_pair:
  assumes "message_only to k k'"
  shows "ipc_pair k' from to = ipc_pair k from to" "sender_word k' t = sender_word k t" "reply_word k' t = reply_word k t"
    "receive_word k' t = receive_word k t" "a \<notin> mr_words k to \<Longrightarrow> ram k' a = ram k a" "slots k' = slots k" "mem k' = mem k"
    "t \<noteq> to \<Longrightarrow> tcbs k' t = tcbs k t" "t_globalid (tcbs k' t) = t_globalid (tcbs k t)" "ctx_sp (ctx (tcbs k' t)) = ctx_sp (ctx (tcbs k t))"
proof -
  note keep = message_only_keeps(1,2) [OF assms]
  obtain rs r where k': "length rs = length (ctx_regs (ctx (tcbs k to)))" "\<And>a. a \<notin> mr_words k to \<Longrightarrow> r a = ram k a"
    "k' = k\<lparr>tcbs := (tcbs k)(to := (tcbs k to)\<lparr>ctx := (ctx (tcbs k to))\<lparr>ctx_regs := rs\<rparr>\<rparr>), ram := r\<rparr>"
    using assms(1) unfolding message_only_def by blast
  show w: "sender_word k' t = sender_word k t" "reply_word k' t = reply_word k t" "receive_word k' t = receive_word k t"
    and sp: "ctx_sp (ctx (tcbs k' t)) = ctx_sp (ctx (tcbs k t))" for t
    unfolding k'(3) by (simp_all add: sender_word_def reply_word_def receive_word_def)
  show "ipc_pair k' from to = ipc_pair k from to" by (simp add: ipc_pair_def keep w sp)
  show "a \<notin> mr_words k to \<Longrightarrow> ram k' a = ram k a" "slots k' = slots k" "mem k' = mem k"
    "t \<noteq> to \<Longrightarrow> tcbs k' t = tcbs k t" "t_globalid (tcbs k' t) = t_globalid (tcbs k t)"
    unfolding k'(3) using k'(2) by simp_all
qed

lemma do_ipc_transfers:
  assumes pair: "ipc_pair k from to" and tag: "tag_n_untyped (mrs k from 0) < 16" "tag_n_typed (mrs k from 0) = 0"
  obtains k1 k' where "do_ipc im from to k = Inr k'" "message_only to k k1" "finish_ipc from to k1 = Inr k'"
    "\<And>i. i \<le> tag_n_untyped (mrs k from 0) \<Longrightarrow> mrs k1 to i = mrs k from i"
proof -
  let ?n = "tag_n_untyped (mrs k from 0)"
  note p = pair [unfolded ipc_pair_def]
  obtain k0 where k0: "ipc_write_mr to 0 (mrs k from 0) k = Inr k0" "message_only to k k0" "mrs k0 to 0 = mrs k from 0"
    by (rule write_mr [of k to 0 "mrs k from 0"]) (use p in auto)
  note keep = message_only_keeps [OF k0(2)]
  obtain k1 where k1: "copy_untyped ?n 1 from to k0 = Inr k1" "message_only to k0 k1"
    "\<And>j. j < 16 \<Longrightarrow> mrs k1 to j = (if 1 \<le> j \<and> j < 1 + ?n then mrs k0 from j else mrs k0 to j)"
    by (rule copy_untyped_spec [of k0 "from" to 1 ?n]) (use p keep(1,2) tag(1) in auto)
  have m: "message_only to k k1" using k0(2) k1(2) by (rule message_only_trans)
  note pm = message_only_pair [OF m]
  have "ipc_pair k1 from to" using pair pm(1) by simp
  then obtain k' where k': "finish_ipc from to k1 = Inr k'" by (rule finish_ipc_spec)
  have "mrs k1 to i = mrs k from i" if "i \<le> ?n" for i
    using k1(3) [of i] that tag(1) keep(3) [of "from" i] p k0(3) by (cases "i = 0") auto
  moreover have "do_ipc im from to k = Inr k'"
    using read_mr [of k "from" 0] p tag k0(1) k1(1) k' pm(10)
    by (simp add: do_ipc_def Let_def IPC_MR_COUNT_def)
  ultimately show thesis using that m k' by blast
qed

text \<open>
  C3: A message to a thread that waits for it is delivered in full. The system call of the sender succeeds;
  the receiver finds the tag and all words of the message in its message registers, in processor registers
  and in memory alike, and the identifier of the sender in its control block and in its result register,
  and it is runnable again; the sender is runnable, or waits for the thread from which it wants an answer;
  both are handed to the scheduler. No other thread and no other word of memory changes, and no page is
  mapped. The message has no typed words, and the memory of the two threads does not overlap.
\<close>

theorem ipc_delivers_message:
  assumes pair: "ipc_pair k from to" and tag: "tag_n_untyped (mrs k from 0) < 16" "tag_n_typed (mrs k from 0) = 0"
    and call: "caller k = Some from" "ram k (stack_word p REG_R0) = tid" "tid \<noteq> L4_NILTHREAD"
      "tid \<noteq> TID_TO_GLOBALID THREAD_LOG"
    and wait: "thread_by_globalid k tid = Inr (Some to)" "t_state (tcbs k to) = T_RECV_BLOCKED"
  shows "\<exists>k'. sys_ipc im p k = Inr k' \<and>
    (\<forall>i. i \<le> tag_n_untyped (mrs k from 0) \<longrightarrow> mrs k' to i = mrs k from i) \<and>
    t_state (tcbs k' to) = T_RUNNABLE \<and> ipc_from (tcbs k' to) = L4_NILTHREAD \<and>
    ram k' (sender_word k to) = t_globalid (tcbs k from) \<and> ram k' (reply_word k to) = t_globalid (tcbs k from) \<and>
    tcbs k' from = sender_after (ram k (receive_word k from)) (tcbs k from) \<and>
    slots k' = slots (sched_slot_dispatch SSI_IPC_THREAD (Some to) (sched_slot_dispatch SSI_NORMAL_THREAD (Some from) k)) \<and>
    (\<forall>t. t \<noteq> from \<and> t \<noteq> to \<longrightarrow> tcbs k' t = tcbs k t) \<and>
    (\<forall>a. a \<notin> mr_words k to \<and> a \<noteq> sender_word k to \<and> a \<noteq> reply_word k to \<longrightarrow> ram k' a = ram k a) \<and> mem k' = mem k"
proof -
  obtain k1 k' where r: "do_ipc im from to k = Inr k'" "message_only to k k1" "finish_ipc from to k1 = Inr k'"
    "\<And>i. i \<le> tag_n_untyped (mrs k from 0) \<Longrightarrow> mrs k1 to i = mrs k from i"
    by (rule do_ipc_transfers [OF pair tag, of im]) blast
  note m = message_only_pair [OF r(2)] and p = pair [unfolded ipc_pair_def]
  obtain k2 where k2: "finish_ipc from to k1 = Inr k2"
    "tcbs k2 = (tcbs k1)(to := (tcbs k1 to)\<lparr>t_state := T_RUNNABLE, ipc_from := L4_NILTHREAD\<rparr>,
       from := sender_after (ram k1 (receive_word k1 from)) (tcbs k1 from))"
    "ram k2 = (ram k1)(sender_word k1 to := t_globalid (tcbs k1 from), reply_word k1 to := t_globalid (tcbs k1 from))"
    "slots k2 = slots (sched_slot_dispatch SSI_IPC_THREAD (Some to) (sched_slot_dispatch SSI_NORMAL_THREAD (Some from) k1))"
    "mem k2 = mem k1"
    by (rule finish_ipc_spec [of k1 "from" to]) (use pair m(1) in auto)
  have k': "k' = k2" using r(3) k2(1) by simp
  have mr: "mrs k' to i = mrs k1 to i" if "i < 16" for i
  proof -
    have "mr_word (t_utcb (tcbs k1 to)) i \<in> mr_words k to" if "8 \<le> i"
      using that \<open>i < 16\<close> message_only_keeps(2) [OF r(2), of to] by (auto simp: mr_words_def)
    then show ?thesis using p m(2,3) unfolding k' by (auto simp: mrs_def k2(2,3))
  qed
  have sys: "sys_ipc im p k = Inr k'" using call wait r(1) by (simp add: sys_ipc_def Let_def)
  have "mrs k' to i = mrs k from i" if "i \<le> tag_n_untyped (mrs k from 0)" for i
    using that tag(1) mr [of i] r(4) by simp
  moreover have "t_state (tcbs k' to) = T_RUNNABLE" "ipc_from (tcbs k' to) = L4_NILTHREAD"
    using p unfolding k' by (simp_all add: k2(2))
  moreover have "ram k' (sender_word k to) = t_globalid (tcbs k from)" "ram k' (reply_word k to) = t_globalid (tcbs k from)"
    unfolding k' by (simp_all add: k2(3) m)
  moreover have "tcbs k' from = sender_after (ram k (receive_word k from)) (tcbs k from)"
    using p m(4,5,8) unfolding k' by (simp add: k2(2))
  moreover have "slots k' = slots (sched_slot_dispatch SSI_IPC_THREAD (Some to) (sched_slot_dispatch SSI_NORMAL_THREAD (Some from) k))"
    unfolding k' k2(4) by (simp add: sched_slot_dispatch_def upd_slot_def m(6))
  moreover have "tcbs k' t = tcbs k t" if "t \<noteq> from" "t \<noteq> to" for t using that m(8) unfolding k' by (simp add: k2(2))
  moreover have "ram k' a = ram k a" if "a \<notin> mr_words k to" "a \<noteq> sender_word k to" "a \<noteq> reply_word k to" for a
    using that m(2,3,5) unfolding k' by (simp add: k2(3))
  moreover have "mem k' = mem k" unfolding k' by (simp add: k2(5) m(7))
  ultimately show ?thesis using sys by blast
qed

definition ipc_kernel :: kernel_t where
  "ipc_kernel = demo_kernel\<lparr>caller := Some 4,
     tcbs := (tcbs demo_kernel)(4 := (tcbs demo_kernel 4)\<lparr>ctx := (ctx (tcbs demo_kernel 4))\<lparr>ctx_regs := [2, 10, 20, 0, 0, 0, 0, 0]\<rparr>\<rparr>),
     ram := (\<lambda>_. 0)(0x20014100 := TID_TO_GLOBALID 256)\<rparr>"

lemma ipc_kernel_pair: "ipc_pair ipc_kernel 4 3"
proof -
  have "{8..<16} = {8, 9, 10, 11, 12, 13, 14, 15 :: nat}" by auto
  then show ?thesis
    by (simp add: ipc_pair_def ipc_kernel_def demo_kernel_def demo_tcb_def mr_ok_def mr_words_def mr_word_def utcb_defs
        sender_word_def reply_word_def receive_word_def stack_word_def REG_R0_def REG_R1_def)
qed

theorem ipc_delivers_message_witness:
  "\<exists>k'. sys_ipc demo_image 0x20014100 ipc_kernel = Inr k' \<and> mrs k' 3 1 = 10 \<and> mrs k' 3 2 = 20 \<and>
     t_state (tcbs k' 3) = T_RUNNABLE"
proof -
  have m: "mrs ipc_kernel 4 0 = 2" "mrs ipc_kernel 4 1 = 10" "mrs ipc_kernel 4 2 = 20"
    by (simp_all add: mrs_def ipc_kernel_def)
  have t: "tag_n_untyped 2 = 2" "tag_n_typed 2 = 0" by (simp_all add: tag_n_untyped_def tag_n_typed_def)
  have tid: "thread_by_globalid ipc_kernel (TID_TO_GLOBALID 256) = Inr (Some 3)" by code_simp
  have c: "caller ipc_kernel = Some 4" "ram ipc_kernel (stack_word 0x20014100 REG_R0) = TID_TO_GLOBALID 256"
    "t_state (tcbs ipc_kernel 3) = T_RECV_BLOCKED"
    by (simp_all add: ipc_kernel_def stack_word_def REG_R0_def demo_kernel_def demo_tcb_def)
  have n: "TID_TO_GLOBALID 256 \<noteq> L4_NILTHREAD" "TID_TO_GLOBALID 256 \<noteq> TID_TO_GLOBALID THREAD_LOG" by code_simp+
  have u: "tag_n_untyped (mrs ipc_kernel 4 0) = 2" "tag_n_typed (mrs ipc_kernel 4 0) = 0" using m t by simp_all
  obtain k' where "sys_ipc demo_image 0x20014100 ipc_kernel = Inr k'" "\<forall>i. i \<le> 2 \<longrightarrow> mrs k' 3 i = mrs ipc_kernel 4 i"
    "t_state (tcbs k' 3) = T_RUNNABLE"
    using ipc_delivers_message [OF ipc_kernel_pair _ u(2) c(1,2) n tid c(3), of demo_image] u(1) by auto
  then show ?thesis using m by auto
qed

end
