(* ===== verification/F9_Kprobe_Spec.thy ===== *)
theory F9_Kprobe_Spec
  imports F9_Kprobe F9_Thread_Map
begin

text \<open>
  Correctness of breakpoints: the pool and the comparators of the hardware stay consistent, and a software
  breakpoint can be set and cleared without a trace, as long as it is cleared before it is released.
\<close>

section \<open>The pool\<close>

abbreviation "bkpt_at k i \<equiv> breakpoints (dbg k) ! i"

text \<open>
  Every hardware breakpoint owns the comparator it names, every software breakpoint lies in memory that
  can be written, and a comparator that is taken belongs to one hardware breakpoint.
\<close>

definition bkpt_ok :: "int list \<Rightarrow> nat \<Rightarrow> breakpoint \<Rightarrow> bool" where
  "bkpt_ok hs i b =
     (case bk_type b of
        BKPT_NONE \<Rightarrow> True
      | BKPT_HARD \<Rightarrow> bk_ops b = Some Hard_ops \<and> breakpoint_type_by_addr (bk_addr b) = BKPT_HARD \<and>
                     unat (bk_data b) < length hs \<and> hs ! unat (bk_data b) = int i
      | BKPT_SOFT \<Rightarrow> bk_ops b = Some Soft_ops \<and> breakpoint_type_by_addr (bk_addr b) = BKPT_SOFT)"

definition pool_ok :: "kernel_t \<Rightarrow> bool" where
  "pool_ok k \<longleftrightarrow> length (breakpoints (dbg k)) = BKPT_MAX_NUM \<and> length (hard_breakpoints (dbg k)) = FPB_MAX_COMP \<and>
     (\<forall>i<BKPT_MAX_NUM. bkpt_ok (hard_breakpoints (dbg k)) i (bkpt_at k i)) \<and>
     (\<forall>h<FPB_MAX_COMP. hard_breakpoints (dbg k) ! h = - 1 \<or>
        (\<exists>i<BKPT_MAX_NUM. hard_breakpoints (dbg k) ! h = int i \<and> bk_type (bkpt_at k i) = BKPT_HARD \<and>
           unat (bk_data (bkpt_at k i)) = h))"

lemma first_index_cases:
  obtains (none) "first_index P xs i = - 1" "\<forall>x\<in>set xs. \<not> P x"
  | (found) j where "first_index P xs i = int (i + j)" "j < length xs" "P (xs ! j)"
proof -
  have "(first_index P xs i = - 1 \<and> (\<forall>x\<in>set xs. \<not> P x)) \<or>
    (\<exists>j. first_index P xs i = int (i + j) \<and> j < length xs \<and> P (xs ! j))"
  proof (induction xs arbitrary: i)
    case (Cons x xs)
    then show ?case
    proof (cases "P x")
      case False
      with Cons.IH [of "i + 1"] show ?thesis by (auto 0 3 intro: exI [of _ "Suc _"])
    qed auto
  qed simp
  then show thesis using none found by blast
qed

lemma unat_comparator: "h < FPB_MAX_COMP \<Longrightarrow> unat (of_int (int h) :: u16) = h"
  by (simp add: FPB_MAX_COMP_def unsigned_of_nat take_bit_nat_eq_self)

lemma pool_okD:
  assumes "pool_ok k" "i < BKPT_MAX_NUM"
  shows "bkpt_ok (hard_breakpoints (dbg k)) i (bkpt_at k i)" "i < length (breakpoints (dbg k))"
  using assms by (auto simp: pool_ok_def)

lemma bkpt_fields [simp]:
  "breakpoints (dbg (upd_bkpt b f k)) = (breakpoints (dbg k))[b := f (bkpt_at k b)]"
  "hard_breakpoints (dbg (upd_bkpt b f k)) = hard_breakpoints (dbg k)"
  "breakpoints (dbg (upd_hard h v k)) = breakpoints (dbg k)"
  "hard_breakpoints (dbg (upd_hard h v k)) = (hard_breakpoints (dbg k))[h := v]"
  "dbg (modify_reg im a g k) = dbg k" "dbg (store_reg a w k) = dbg k" "dbg (store16 a u k) = dbg k"
  by (simp_all add: upd_bkpt_def upd_hard_def upd_dbg_def modify_reg_def store_reg_def store16_def Let_def)

lemma hard_config_ok:
  assumes ok: "pool_ok k" and b: "b < BKPT_MAX_NUM" "bk_type (bkpt_at k b) = BKPT_NONE"
    and h: "h < FPB_MAX_COMP" "hard_breakpoints (dbg k) ! h = - 1" and a: "breakpoint_type_by_addr addr = BKPT_HARD"
  shows "pool_ok (upd_bkpt b (\<lambda>x. x\<lparr>bk_type := BKPT_HARD, bk_addr := addr, bk_data := of_int (int h),
           bk_ops := Some Hard_ops\<rparr>) (upd_hard h (int b) k))" (is "pool_ok ?k")
proof -
  let ?hs = "hard_breakpoints (dbg k)"
  have len: "length (breakpoints (dbg k)) = BKPT_MAX_NUM" "length ?hs = FPB_MAX_COMP"
    using ok by (simp_all add: pool_ok_def)
  have "bkpt_ok (?hs[h := int b]) i (bkpt_at ?k i)" if i: "i < BKPT_MAX_NUM" for i
    using pool_okD(1) [OF ok i] unat_comparator [OF h(1)] a h len b(1) i
    by (cases "i = b") (auto simp: bkpt_ok_def nth_list_update split: bkpt_type.splits)
  moreover have "?hs[h := int b] ! h' = - 1 \<or> (\<exists>i<BKPT_MAX_NUM. ?hs[h := int b] ! h' = int i \<and>
      bk_type (bkpt_at ?k i) = BKPT_HARD \<and> unat (bk_data (bkpt_at ?k i)) = h')" if h': "h' < FPB_MAX_COMP" for h'
  proof (cases "h' = h")
    case True
    then show ?thesis using unat_comparator [OF h(1)] len b(1) h(1) by auto
  next
    case False
    have "?hs ! h' = - 1 \<or> (\<exists>i<BKPT_MAX_NUM. ?hs ! h' = int i \<and> bk_type (bkpt_at k i) = BKPT_HARD \<and>
        unat (bk_data (bkpt_at k i)) = h')"
      using ok h' by (simp add: pool_ok_def)
    then show ?thesis
    proof (elim disjE exE conjE)
      fix i assume i: "i < BKPT_MAX_NUM" "?hs ! h' = int i" "bk_type (bkpt_at k i) = BKPT_HARD"
        "unat (bk_data (bkpt_at k i)) = h'"
      then have "i \<noteq> b" using b(2) by auto
      then show ?thesis using i False by auto
    qed (use False in simp)
  qed
  ultimately show ?thesis using len by (simp add: pool_ok_def)
qed

lemma pool_upd_other:
  assumes ok: "pool_ok k" and b: "b < BKPT_MAX_NUM" "bk_type (bkpt_at k b) \<noteq> BKPT_HARD"
    and x: "bk_type (f (bkpt_at k b)) \<noteq> BKPT_HARD" "bkpt_ok (hard_breakpoints (dbg k)) b (f (bkpt_at k b))"
  shows "pool_ok (upd_bkpt b f k)"
proof -
  let ?bs = "(breakpoints (dbg k))[b := f (bkpt_at k b)]" and ?hs = "hard_breakpoints (dbg k)"
  have len: "length (breakpoints (dbg k)) = BKPT_MAX_NUM" using ok by (simp add: pool_ok_def)
  have "\<forall>i<BKPT_MAX_NUM. bkpt_ok ?hs i (?bs ! i)"
    using pool_okD(1) [OF ok] x(2) b(1) len by (auto simp: nth_list_update)
  moreover have "\<forall>i. bk_type (bkpt_at k i) = BKPT_HARD \<longrightarrow> ?bs ! i = bkpt_at k i"
    using b len by (auto simp: nth_list_update)
  then have "\<forall>h<FPB_MAX_COMP. ?hs ! h = - 1 \<or>
      (\<exists>i<BKPT_MAX_NUM. ?hs ! h = int i \<and> bk_type (?bs ! i) = BKPT_HARD \<and> unat (bk_data (?bs ! i)) = h)"
    using ok unfolding pool_ok_def by (metis (no_types, lifting))
  ultimately show ?thesis using ok by (simp add: pool_ok_def)
qed

lemma hard_release_ok:
  assumes ok: "pool_ok k" and b: "b < BKPT_MAX_NUM" "bk_type (bkpt_at k b) = BKPT_HARD"
  shows "pool_ok (hard_breakpoint_release im b k)"
proof -
  let ?hs = "hard_breakpoints (dbg k)" and ?h = "unat (bk_data (bkpt_at k b))"
  let ?bs = "(breakpoints (dbg k))[b := (bkpt_at k b)\<lparr>bk_type := BKPT_NONE\<rparr>]"
  have len: "length (breakpoints (dbg k)) = BKPT_MAX_NUM" "length ?hs = FPB_MAX_COMP"
    using ok by (simp_all add: pool_ok_def)
  have h: "?h < FPB_MAX_COMP" "?hs ! ?h = int b"
    using pool_okD(1) [OF ok b(1)] b(2) len by (simp_all add: bkpt_ok_def)
  have "bkpt_ok (?hs[?h := - 1]) i (?bs ! i)" if i: "i < BKPT_MAX_NUM" for i
    using pool_okD(1) [OF ok i] h len b(1) i
    by (cases "i = b") (auto simp: bkpt_ok_def nth_list_update split: bkpt_type.splits)
  moreover have "?hs[?h := - 1] ! h' = - 1 \<or> (\<exists>i<BKPT_MAX_NUM. ?hs[?h := - 1] ! h' = int i \<and>
      bk_type (?bs ! i) = BKPT_HARD \<and> unat (bk_data (?bs ! i)) = h')" if h': "h' < FPB_MAX_COMP" for h'
  proof (cases "h' = ?h \<or> ?hs ! h' = - 1")
    case False
    then obtain i where i: "i < BKPT_MAX_NUM" "?hs ! h' = int i" "bk_type (bkpt_at k i) = BKPT_HARD"
        "unat (bk_data (bkpt_at k i)) = h'" using ok h' unfolding pool_ok_def by blast
    then have "i \<noteq> b" using False by auto
    then show ?thesis using i False by auto
  qed (use len h in \<open>auto simp: nth_list_update\<close>)
  ultimately show ?thesis using len by (simp add: pool_ok_def hard_breakpoint_release_def Let_def)
qed

lemma install_cases [consumes 1, case_names full hard soft]:
  assumes ok: "pool_ok k"
  obtains (full) "breakpoint_install im addr k = (None, k)"
      "(\<forall>b<BKPT_MAX_NUM. bk_type (bkpt_at k b) \<noteq> BKPT_NONE) \<or>
       breakpoint_type_by_addr addr = BKPT_HARD \<and> - 1 \<notin> set (hard_breakpoints (dbg k))"
  | (hard) b h where "b < BKPT_MAX_NUM" "bk_type (bkpt_at k b) = BKPT_NONE" "h < FPB_MAX_COMP"
      "hard_breakpoints (dbg k) ! h = - 1" "breakpoint_type_by_addr addr = BKPT_HARD"
      "breakpoint_install im addr k = (Some b, upd_bkpt b (\<lambda>x. x\<lparr>bk_type := BKPT_HARD, bk_addr := addr,
         bk_data := of_int (int h), bk_ops := Some Hard_ops\<rparr>) (upd_hard h (int b) k))"
  | (soft) b where "b < BKPT_MAX_NUM" "bk_type (bkpt_at k b) = BKPT_NONE" "breakpoint_type_by_addr addr = BKPT_SOFT"
      "breakpoint_install im addr k = (Some b, upd_bkpt b (\<lambda>x. x\<lparr>bk_type := BKPT_SOFT, bk_addr := addr,
         bk_data := load16 im addr k, bk_ops := Some Soft_ops\<rparr>) k)"
proof (cases rule: first_index_cases [of "\<lambda>b. bk_type b = BKPT_NONE" "breakpoints (dbg k)" 0])
  case none
  then show thesis using full ok
    by (auto simp: breakpoint_install_def get_avail_breakpoint_def pool_ok_def)
next
  case (found b)
  have b: "b < BKPT_MAX_NUM" using found(2) ok by (simp add: pool_ok_def)
  have install: "breakpoint_install im addr k = breakpoint_config im b addr k"
    using found(1) by (simp add: breakpoint_install_def get_avail_breakpoint_def)
  show thesis
  proof (cases "breakpoint_type_by_addr addr = BKPT_HARD")
    case True
    show thesis
    proof (cases rule: first_index_cases [of "\<lambda>v. v = - 1" "hard_breakpoints (dbg k)" 0])
      case none
      then have "breakpoint_install im addr k = (None, k)"
        using True install by (simp add: breakpoint_config_def hard_breakpoint_config_def get_avail_hard_breakpoint_def)
      then show thesis using full none True by auto
    next
      case (found h)
      then have "breakpoint_install im addr k = (Some b, upd_bkpt b (\<lambda>x. x\<lparr>bk_type := BKPT_HARD, bk_addr := addr,
         bk_data := of_int (int h), bk_ops := Some Hard_ops\<rparr>) (upd_hard h (int b) k))"
        using True install b by (simp add: breakpoint_config_def hard_breakpoint_config_def get_avail_hard_breakpoint_def
            get_breakpoint_id_def)
      then show thesis using hard b \<open>bk_type (bkpt_at k b) = BKPT_NONE\<close> found ok True by (auto simp: pool_ok_def)
    qed
  next
    case False
    then have "breakpoint_type_by_addr addr = BKPT_SOFT" by (auto simp: breakpoint_type_by_addr_def split: if_splits)
    then show thesis using soft b found(3) install by (simp add: breakpoint_config_def soft_breakpoint_config_def)
  qed
qed

lemma install_keeps_pool:
  assumes ok: "pool_ok k" and run: "breakpoint_install im addr k = (r, k')"
  shows "pool_ok k'"
proof (use ok in \<open>cases rule: install_cases [of k im addr]\<close>)
  case full
  then show ?thesis using ok run by simp
next
  case (hard b h)
  then show ?thesis using run hard_config_ok [OF ok hard(1-5)] by simp
next
  case (soft b)
  then show ?thesis using run pool_upd_other [OF ok soft(1)] by (auto simp: bkpt_ok_def)
qed

lemma uninstall_keeps_pool:
  assumes ok: "pool_ok k" and b: "b < BKPT_MAX_NUM" "bk_type (bkpt_at k b) \<noteq> BKPT_NONE"
  shows "\<exists>k'. breakpoint_uninstall im (Some b) k = Inr k' \<and> pool_ok k' \<and>
    breakpoints (dbg k') = (breakpoints (dbg k))[b := (bkpt_at k b)\<lparr>bk_type := BKPT_NONE\<rparr>]"
proof (cases "bk_type (bkpt_at k b)")
  case BKPT_HARD
  then show ?thesis
    using pool_okD [OF ok b(1)] hard_release_ok [OF ok b(1) BKPT_HARD, of im]
    by (auto simp: breakpoint_uninstall_def bkpt_call_def the_function_def bkpt_ok_def)
      (simp add: hard_breakpoint_release_def Let_def)
next
  case BKPT_SOFT
  then show ?thesis
    using pool_okD [OF ok b(1)] pool_upd_other [OF ok b(1), of "\<lambda>x. x\<lparr>bk_type := BKPT_NONE\<rparr>"]
    by (auto simp: breakpoint_uninstall_def bkpt_call_def the_function_def bkpt_ok_def soft_breakpoint_release_def)
qed (use b in simp)

text \<open>
  C22: The breakpoints and the comparators of the hardware stay consistent. Installing a breakpoint takes a
  free entry of the pool, sets it up for its address and changes no other entry; it is refused, with
  nothing changed, only when no entry is free or when an address in flash finds every comparator taken.
  Releasing a breakpoint in use succeeds and frees exactly its entry. Both keep the invariant that every
  hardware breakpoint owns the comparator it names and every taken comparator belongs to one breakpoint.
\<close>

theorem breakpoint_pool_consistent:
  assumes "pool_ok k"
  shows "(case breakpoint_install im addr k of (r, k') \<Rightarrow> pool_ok k' \<and>
      (case r of
         None \<Rightarrow> k' = k \<and> ((\<forall>b<BKPT_MAX_NUM. bk_type (bkpt_at k b) \<noteq> BKPT_NONE) \<or>
           breakpoint_type_by_addr addr = BKPT_HARD \<and> - 1 \<notin> set (hard_breakpoints (dbg k)))
       | Some b \<Rightarrow> b < BKPT_MAX_NUM \<and> bk_type (bkpt_at k b) = BKPT_NONE \<and>
           bk_type (bkpt_at k' b) = breakpoint_type_by_addr addr \<and> bk_addr (bkpt_at k' b) = addr \<and>
           (\<forall>j. j \<noteq> b \<longrightarrow> bkpt_at k' j = bkpt_at k j))) \<and>
    (\<forall>b<BKPT_MAX_NUM. bk_type (bkpt_at k b) \<noteq> BKPT_NONE \<longrightarrow>
      (\<exists>k'. breakpoint_uninstall im (Some b) k = Inr k' \<and> pool_ok k' \<and>
         breakpoints (dbg k') = (breakpoints (dbg k))[b := (bkpt_at k b)\<lparr>bk_type := BKPT_NONE\<rparr>]))"
    (is "?install \<and> ?release")
proof
  show ?install
  proof (use assms in \<open>cases rule: install_cases [of k im addr]\<close>)
    case full
    then show ?thesis using assms by simp
  next
    case (hard b h)
    then show ?thesis using install_keeps_pool [OF assms hard(6)] pool_okD(2) [OF assms hard(1)] by simp
  next
    case (soft b)
    then show ?thesis using install_keeps_pool [OF assms soft(4)] pool_okD(2) [OF assms soft(1)] by simp
  qed
  show ?release using uninstall_keeps_pool [OF assms] by blast
qed

lemma init_pool_ok:
  "pool_ok (kprobe_init demo_image demo_kernel)"
  "\<exists>b<BKPT_MAX_NUM. bk_type (bkpt_at (kprobe_init demo_image demo_kernel) b) = BKPT_NONE"
  "kp_list (dbg (kprobe_init demo_image demo_kernel)) = None"
proof -
  let ?k = "kprobe_init demo_image demo_kernel"
  note defs = kprobe_init_def kprobe_arch_init_def breakpoint_pool_init_def hard_breakpoint_pool_init_def
    enable_all_hard_breakpoints_def Let_def upd_dbg_def demo_kernel_def debug_reset_def
  have [simp]: "[0..<FPB_MAX_COMP] = [0, 1, 2, 3, 4, 5]" by (simp add: FPB_MAX_COMP_def upt_rec)
  have [simp]: "kp_list (dbg (upd_bkpt b f k)) = kp_list (dbg k)" "kp_list (dbg (upd_hard h v k)) = kp_list (dbg k)" for b f h v k
    by (simp_all add: upd_bkpt_def upd_hard_def upd_dbg_def)
  show "kp_list (dbg ?k) = None" by (simp add: defs)
  have "hard_breakpoints (dbg ?k) = replicate FPB_MAX_COMP (- 1)"
    by (simp add: defs) (simp add: FPB_MAX_COMP_def eval_nat_numeral)
  moreover have len: "length (breakpoints (dbg ?k)) = BKPT_MAX_NUM"
    and none: "\<forall>b\<in>set (breakpoints (dbg ?k)). bk_type b = BKPT_NONE"
    by (simp_all add: defs) (simp add: BKPT_MAX_NUM_def eval_nat_numeral)
  ultimately show "pool_ok ?k" by (auto simp: pool_ok_def bkpt_ok_def)
  have "0 < BKPT_MAX_NUM" by (simp add: BKPT_MAX_NUM_def)
  then show "\<exists>b<BKPT_MAX_NUM. bk_type (bkpt_at ?k b) = BKPT_NONE" using len none by (metis nth_mem)
qed

theorem breakpoint_pool_consistent_witness:
  "pool_ok (kprobe_init demo_image demo_kernel) \<and>
   (case breakpoint_install demo_image 0x08000100 (kprobe_init demo_image demo_kernel) of (r, k') \<Rightarrow> pool_ok k')"
  using breakpoint_pool_consistent [OF init_pool_ok(1), of "0x08000100" demo_image] init_pool_ok(1)
  by (auto split: prod.splits)

section \<open>Software breakpoints\<close>

lemma half_mask: "(0xFFFF :: u32) = mask 16"
  by (simp add: mask_eq_exp_minus_1)

lemma half_replaced:
  "ucast (drop_bit sh ((w AND NOT (push_bit sh 0xFFFF)) OR push_bit sh (ucast v)) :: u32) = (v :: u16)"
  if "sh = 0 \<or> sh = 16"
  unfolding half_mask using that
  by (auto simp: bit_simps intro!: bit_word_eqI)

lemma half_restored:
  fixes w :: u32
  assumes "sh = 0 \<or> sh = 16"
  defines "m \<equiv> NOT (push_bit sh 0xFFFF)"
  shows "(((w AND m) OR push_bit sh (ucast (v :: u16))) AND m) OR push_bit sh (ucast (ucast (drop_bit sh w) :: u16)) = w"
proof -
  have "\<not> bit v n" if "\<not> n < 16" for n using that bit_imp_le_length [of v n] by auto
  then show ?thesis
    unfolding m_def half_mask using assms(1)
    by (auto simp: bit_simps intro!: bit_word_eqI)
qed

text \<open>A halfword of memory: what was stored is loaded, and storing the old value undoes a store.\<close>

lemma load_store16: "\<not> a < 0x20000000 \<Longrightarrow> load16 im a (store16 a v k) = v"
proof -
  have sh: "half_shift a = 0 \<or> half_shift a = 16" by (simp add: half_shift_def)
  assume "\<not> a < 0x20000000"
  then show ?thesis
    unfolding load16_def store16_def Let_def
    by (simp only: if_False write_ram_simps(1) fun_upd_same half_replaced [OF sh])
qed

lemma store16_undo:
  assumes "\<not> a < 0x20000000"
  shows "ram (store16 a (load16 im a k) (store16 a v k)) = ram k"
proof -
  have sh: "half_shift a = 0 \<or> half_shift a = 16" by (simp add: half_shift_def)
  show ?thesis
    using assms half_restored [OF sh, of "ram k (a AND NOT 3)" v]
    unfolding load16_def store16_def Let_def
    by (simp only: if_False write_ram_simps(1) fun_upd_same fun_upd_upd fun_upd_triv)
qed

lemma soft_install:
  assumes ok: "pool_ok k" and a: "\<not> addr < 0x20000000" and run: "breakpoint_install im addr k = (Some b, k1)"
  shows "breakpoint_uninstall im (Some b) k1 = Inr (upd_bkpt b (\<lambda>x. x\<lparr>bk_type := BKPT_NONE\<rparr>) k1)"
    "enable_breakpoint (Some b) k1 = Inr (store16 addr 0xbe11 k1)"
    "disable_breakpoint im (Some b) (store16 addr 0xbe11 k1) = Inr (store16 addr (load16 im addr k1) (store16 addr 0xbe11 k1))"
    "ram k1 = ram k"
proof -
  have t: "breakpoint_type_by_addr addr = BKPT_SOFT" using a by (simp only: breakpoint_type_by_addr_def if_False)
  obtain k1: "b < BKPT_MAX_NUM" "k1 = upd_bkpt b (\<lambda>x. x\<lparr>bk_type := BKPT_SOFT, bk_addr := addr,
         bk_data := load16 im addr k, bk_ops := Some Soft_ops\<rparr>) k"
    using ok by (cases rule: install_cases [of k im addr]) (use run t in auto)
  have b: "b < length (breakpoints (dbg k))" using k1(1) ok by (simp add: pool_ok_def)
  show r: "ram k1 = ram k" unfolding k1(2) by (simp add: upd_bkpt_def upd_dbg_def)
  then have l: "load16 im addr k1 = load16 im addr k" unfolding load16_def by simp
  show "breakpoint_uninstall im (Some b) k1 = Inr (upd_bkpt b (\<lambda>x. x\<lparr>bk_type := BKPT_NONE\<rparr>) k1)"
    "enable_breakpoint (Some b) k1 = Inr (store16 addr 0xbe11 k1)"
    using b unfolding k1(2)
    by (simp_all add: breakpoint_uninstall_def enable_breakpoint_def bkpt_call_def the_function_def
        soft_breakpoint_release_def soft_breakpoint_enable_def)
  show "disable_breakpoint im (Some b) (store16 addr 0xbe11 k1) =
      Inr (store16 addr (load16 im addr k1) (store16 addr 0xbe11 k1))"
    using b unfolding l unfolding k1(2)
    by (simp add: disable_breakpoint_def bkpt_call_def the_function_def soft_breakpoint_disable_def)
qed

text \<open>
  C32: Setting and clearing a software breakpoint leaves no trace. After the installation at an address in
  memory, enabling the breakpoint puts the instruction \<^verbatim>\<open>bkpt\<close> at the address, and disabling it restores the
  memory as it was before the installation.
\<close>

theorem soft_breakpoint_roundtrip:
  assumes "pool_ok k" "\<not> addr < 0x20000000" "breakpoint_install im addr k = (Some b, k1)"
  shows "\<exists>k2 k3. enable_breakpoint (Some b) k1 = Inr k2 \<and> load16 im addr k2 = 0xbe11 \<and>
    disable_breakpoint im (Some b) k2 = Inr k3 \<and> ram k3 = ram k"
  using soft_install [OF assms] load_store16 [OF assms(2)] store16_undo [OF assms(2), of im k1] by simp

lemma soft_installs:
  assumes "pool_ok k" "\<not> addr < 0x20000000" "\<exists>b<BKPT_MAX_NUM. bk_type (bkpt_at k b) = BKPT_NONE"
  obtains b where "b < BKPT_MAX_NUM" "breakpoint_install im addr k = (Some b, upd_bkpt b (\<lambda>x. x\<lparr>bk_type := BKPT_SOFT,
    bk_addr := addr, bk_data := load16 im addr k, bk_ops := Some Soft_ops\<rparr>) k)"
proof -
  have t: "breakpoint_type_by_addr addr = BKPT_SOFT" using assms(2) by (simp only: breakpoint_type_by_addr_def if_False)
  show thesis
    using assms(1) by (cases rule: install_cases [of k im addr]) (use assms(3) t that in auto)
qed

theorem soft_breakpoint_roundtrip_witness:
  "\<exists>b k1 k2 k3. breakpoint_install demo_image 0x20001000 (kprobe_init demo_image demo_kernel) = (Some b, k1) \<and>
     enable_breakpoint (Some b) k1 = Inr k2 \<and> load16 demo_image 0x20001000 k2 = 0xbe11 \<and>
     disable_breakpoint demo_image (Some b) k2 = Inr k3 \<and> ram k3 = ram (kprobe_init demo_image demo_kernel)"
proof -
  have a: "\<not> (0x20001000 :: u32) < 0x20000000" by simp
  obtain b k1 where k1: "breakpoint_install demo_image 0x20001000 (kprobe_init demo_image demo_kernel) = (Some b, k1)"
    by (rule soft_installs [OF init_pool_ok(1) a init_pool_ok(2), of demo_image])
  show ?thesis using k1 soft_breakpoint_roundtrip [OF init_pool_ok(1) a k1] by blast
qed

lemma kprobe_fields [simp]:
  "breakpoints (dbg (upd_kprobe p f k)) = breakpoints (dbg k)"
  "hard_breakpoints (dbg (upd_kprobe p f k)) = hard_breakpoints (dbg k)"
  "kp_list (dbg (upd_kprobe p f k)) = kp_list (dbg k)" "kprobes (dbg (upd_kprobe p f k)) = (kprobes (dbg k))(p := f (kprobe_at k p))"
  "kp_list (dbg (upd_bkpt b g k)) = kp_list (dbg k)" "kprobes (dbg (upd_bkpt b g k)) = kprobes (dbg k)"
  "ram (upd_kprobe p f k) = ram k" "ram (upd_bkpt b g k) = ram k" "ram (upd_dbg h k) = ram k"
  "dbg (upd_dbg h k) = h (dbg k)"
  by (simp_all add: upd_kprobe_def upd_bkpt_def upd_dbg_def)

lemma load16_ram: "ram k = ram k' \<Longrightarrow> load16 im a k = load16 im a k'"
  by (simp add: load16_def)

text \<open>
  C37: Removing a probe from code in memory leaves the breakpoint in the code. A probe at an address in memory
  is registered and unregistered again; both succeed, the list of probes is empty and the breakpoint is
  free, but the instruction at the address is still \<^verbatim>\<open>bkpt\<close>, because the release of a software breakpoint
  does not restore the instruction and nobody disables it.
\<close>

theorem unregister_leaves_breakpoint:
  assumes "pool_ok k" "kp_list (dbg k) = None" "\<exists>b<BKPT_MAX_NUM. bk_type (bkpt_at k b) = BKPT_NONE"
    "\<not> kp_addr (kprobe_at k kp) AND NOT 1 < 0x20000000"
  shows "\<exists>k1 k2. kprobe_register im kp k = Inr (0, k1) \<and> kprobe_unregister im kp k1 = Inr (0, k2) \<and>
    kp_list (dbg k2) = None \<and> load16 im (kp_addr (kprobe_at k kp) AND NOT 1) k2 = 0xbe11"
proof -
  define a where "a = kp_addr (kprobe_at k kp) AND NOT 1"
  have a: "\<not> a < 0x20000000" using assms(4) unfolding a_def .
  define k0 where "k0 = upd_kprobe kp (\<lambda>x. x\<lparr>kp_addr := a,
    kp_step_addr := (if is_thumb32 (load16 im a k) then a + 4 else a + 2)\<rparr>) k"
  have "pool_ok k0" "\<exists>b<BKPT_MAX_NUM. bk_type (bkpt_at k0 b) = BKPT_NONE"
    using assms(1,3) by (simp_all add: k0_def pool_ok_def)
  then obtain b where b: "b < BKPT_MAX_NUM" "breakpoint_install im a k0 = (Some b, upd_bkpt b (\<lambda>x. x\<lparr>bk_type := BKPT_SOFT,
    bk_addr := a, bk_data := load16 im a k0, bk_ops := Some Soft_ops\<rparr>) k0)" (is "_ = (_, ?k1)")
    using soft_installs [OF _ a] by metis
  have b': "b < length (breakpoints (dbg k0))" using b(1) \<open>pool_ok k0\<close> by (simp add: pool_ok_def)
  define k2 where "k2 = kplist_add kp (store16 a 0xbe11 (upd_kprobe kp (\<lambda>x. x\<lparr>kp_bkpt := Some b\<rparr>) ?k1))"
  have search: "kp_list (dbg k') = None \<Longrightarrow> kplist_search x k' = Inr None" for k' x
    by (simp add: kplist_search_def PROBE_FUEL_def eval_nat_numeral)
  have k0: "kp_list (dbg k0) = None" "kp_addr (kprobe_at k0 kp) = a" using assms(2) by (simp_all add: k0_def)
  have "kprobe_register im kp k = Inr (0, k2)"
    unfolding kprobe_register_def Let_def a_def [symmetric] k0_def [symmetric]
    using k0 b(2) b' by (simp add: kprobe_arch_add_def search enable_breakpoint_def bkpt_call_def the_function_def
        soft_breakpoint_enable_def k2_def)
  moreover have "kprobe_unregister im kp k2 = Inr (0, soft_breakpoint_release b (upd_dbg (\<lambda>d. d\<lparr>kp_list := None\<rparr>) k2))"
    using k0 b' by (simp add: kprobe_unregister_def kplist_del_def kprobe_arch_del_def search breakpoint_uninstall_def
        bkpt_call_def the_function_def k2_def kplist_add_def)
  moreover have "load16 im a (soft_breakpoint_release b (upd_dbg (\<lambda>d. d\<lparr>kp_list := None\<rparr>) k2)) = 0xbe11"
  proof -
    let ?k3 = "upd_kprobe kp (\<lambda>x. x\<lparr>kp_bkpt := Some b\<rparr>) ?k1"
    have "ram (soft_breakpoint_release b (upd_dbg (\<lambda>d. d\<lparr>kp_list := None\<rparr>) k2)) = ram (store16 a 0xbe11 ?k3)"
      by (simp add: soft_breakpoint_release_def k2_def kplist_add_def)
    from load16_ram [OF this, of im a] show ?thesis using load_store16 [OF a, of im "0xbe11" ?k3] by (rule trans)
  qed
  moreover have "kp_list (dbg (soft_breakpoint_release b (upd_dbg (\<lambda>d. d\<lparr>kp_list := None\<rparr>) k2))) = None"
    by (simp add: soft_breakpoint_release_def)
  ultimately show ?thesis unfolding a_def [symmetric] by blast
qed

theorem unregister_leaves_breakpoint_witness:
  "\<exists>k k1 k2. kp_addr (kprobe_at k 0) = 0x20001000 \<and> kprobe_register demo_image 0 k = Inr (0, k1) \<and>
     kprobe_unregister demo_image 0 k1 = Inr (0, k2) \<and> load16 demo_image 0x20001000 k2 = 0xbe11"
proof -
  let ?k = "upd_kprobe 0 (\<lambda>x. x\<lparr>kp_addr := 0x20001000\<rparr>) (kprobe_init demo_image demo_kernel)"
  have k: "pool_ok ?k" "kp_list (dbg ?k) = None" "\<exists>b<BKPT_MAX_NUM. bk_type (bkpt_at ?k b) = BKPT_NONE"
    using init_pool_ok by (simp_all add: pool_ok_def)
  have a: "kp_addr (kprobe_at ?k 0) = 0x20001000" by simp
  have e: "(0x20001000 :: u32) AND NOT 1 = 0x20001000" by simp
  have "\<not> kp_addr (kprobe_at ?k 0) AND NOT 1 < 0x20000000" unfolding a e by simp
  from unregister_leaves_breakpoint [OF k this, of demo_image, unfolded a e] show ?thesis using a by blast
qed

end
