(* ===== verification/F9_Kdb_Spec.thy ===== *)
theory F9_Kdb_Spec
  imports F9_Kdb F9_Console_Spec
begin

text \<open>
  What the commands of the kernel debugger may change, and what they answer.
\<close>

lemma kdb_options: "map kdb_option kdb_functions = ''Kenstmap''"
  by (simp add: kdb_functions_def)

lemma kdb_special:
  "\<forall>f\<in>set kdb_functions. (kdb_function f = Kdb_dump_as \<longrightarrow> kdb_option f = CHR ''a'') \<and>
     (kdb_function f = Kdb_show_sampling \<longrightarrow> kdb_option f = CHR ''p'')"
  by (simp add: kdb_functions_def)

lemma find_option:
  "find (\<lambda>f. kdb_option f = c) kdb_functions = Some f \<Longrightarrow>
   c \<in> set ''Kenstmap'' \<and> (kdb_function f = Kdb_dump_as \<longrightarrow> c = CHR ''a'') \<and>
   (kdb_function f = Kdb_show_sampling \<longrightarrow> c = CHR ''p'')"
  "find (\<lambda>f. kdb_option f = c) kdb_functions = None \<Longrightarrow> c \<notin> set ''Kenstmap''"
proof -
  show "find (\<lambda>f. kdb_option f = c) kdb_functions = Some f \<Longrightarrow>
    c \<in> set ''Kenstmap'' \<and> (kdb_function f = Kdb_dump_as \<longrightarrow> c = CHR ''a'') \<and>
    (kdb_function f = Kdb_show_sampling \<longrightarrow> c = CHR ''p'')"
    unfolding kdb_options [symmetric] find_Some_iff using kdb_special by (metis image_eqI list.set_map nth_mem)
  show "find (\<lambda>f. kdb_option f = c) kdb_functions = None \<Longrightarrow> c \<notin> set ''Kenstmap''"
    unfolding kdb_options [symmetric] find_None_iff by auto
qed

lemma io_only_function:
  "run_kdb_function f im k = Inr k' \<Longrightarrow> f \<noteq> Kdb_dump_as \<Longrightarrow> f \<noteq> Kdb_show_sampling \<Longrightarrow> io_only k k'"
  by (cases f) (simp_all add: io_only_dumps)

lemma probe_only_function: "run_kdb_function f im k = Inr k' \<Longrightarrow> f \<noteq> Kdb_dump_as \<Longrightarrow> probe_only k k'"
  using io_probe [OF io_only_function] probe_only_sampling by (cases "f = Kdb_show_sampling") auto

text \<open>
  C30: The commands of the debugger only look. Every command but the listing of address spaces and the
  profile changes nothing except the device registers and the variables of the debugger: threads, pages,
  address spaces, timers, soft interrupts and memory are as before. The profile may also change memory,
  where it puts its breakpoint, but no object of the kernel. The handler answers 0 to a command of the menu
  and to the question mark, and 1 to any other key.
\<close>

theorem kdb_inspects:
  assumes "kdb_handler im c k = Inr (r, k')"
  shows "(c \<noteq> CHR ''a'' \<and> c \<noteq> CHR ''p'' \<longrightarrow> io_only k k') \<and> (c \<noteq> CHR ''a'' \<longrightarrow> probe_only k k') \<and>
    r = (if c \<in> set ''Kenstmap?'' then 0 else 1)"
proof -
  note pr = io_only_print(2) and prp = io_probe [OF io_only_print(2)]
  from assms obtain k1 where k1: "kprint im ([newline, newline] @ ''## KDB ##'' @ [newline]) [] k = Inr k1"
    by (auto simp: kdb_handler_def)
  show ?thesis
  proof (cases "find (\<lambda>f. kdb_option f = c) kdb_functions")
    case None
    then show ?thesis
      using assms k1 find_option(2) [OF None] io_only_trans [OF pr [OF k1]]
      by (auto simp: kdb_handler_def Let_def dest!: pr io_only_dumps(7) split: if_splits
          intro: io_only_trans io_probe)
  next
    case (Some f)
    then obtain k2 k3 where k: "kprint im (''-------%s------'' @ [newline]) [Str (kdb_name f)] k1 = Inr k2"
      "run_kdb_function (kdb_function f) im k2 = Inr k3"
      "kprint im (''----------------'' @ [newline]) [] k3 = Inr k'" "r = 0"
      using assms k1 by (auto simp: kdb_handler_def run_kdb_entry_def Let_def)
    have "io_only k k'" if "c \<noteq> CHR ''a''" "c \<noteq> CHR ''p''"
      using that find_option(1) [OF Some] io_only_function [OF k(2)] pr [OF k1] pr [OF k(1)] pr [OF k(3)]
      by (metis io_only_trans)
    moreover have "probe_only k k'" if "c \<noteq> CHR ''a''"
      using that find_option(1) [OF Some] probe_only_function [OF k(2)] prp [OF k1] prp [OF k(1)] prp [OF k(3)]
      by (metis probe_only_trans)
    ultimately show ?thesis using find_option(1) [OF Some] k(4) by auto
  qed
qed

theorem kdb_inspects_witness:
  "let k = dbg_device_init_hook demo_image demo_kernel in
   \<exists>k'. kdb_handler demo_image (CHR ''x'') k = Inr (1, k') \<and> io_only k k'"
proof -
  let ?k = "dbg_device_init_hook demo_image demo_kernel"
  have "cur_dev (dbg demo_kernel) = DBG_DEV_UART" "length (dbg_dev (dbg demo_kernel)) = DBG_DEV_MAX"
    by (simp_all add: demo_kernel_def debug_reset_def DBG_DEV_UART_def)
  note k = init_hook_console [OF this, of demo_image]
  let ?s = "[carriage_return, newline, carriage_return, newline] @ ''## KDB ##'' @ [carriage_return, newline]"
  have "l4_vprintf ([newline, newline] @ ''## KDB ##'' @ [newline]) [] = Inr ?s"
    by (simp add: l4_vprintf_def newline_def)
  moreover have "dbg_layer (dbg ?k) = DL_KDB" by (simp add: dbg_device_init_hook_def)
  moreover obtain k' where "put_string demo_image ?s ?k = Inr k'"
    using put_string_appends [OF k(1,3), of ?s demo_image] by (auto simp: k(2) SEND_BUFSIZE_def)
  ultimately have r: "kdb_handler demo_image (CHR ''x'') ?k = Inr (1, k')"
    by (simp add: kdb_handler_def dbg_printf_def dbg_vprintf_def DL_KDB_def DL_EMERG_def kdb_functions_def)
  then show ?thesis using kdb_inspects [OF r] by (simp add: Let_def)
qed

end
