(* ===== verification/F9_Memlib.thy ===== *)
theory F9_Memlib
  imports F9_Prelude
begin

text \<open>
  The byte routines of \<^verbatim>\<open>kernel/lib/memcpy.c\<close>, \<^verbatim>\<open>memset.c\<close> and \<^verbatim>\<open>strcmp.c\<close>, over a memory of bytes with
  32-bit addresses that wrap around. Words are little endian. The counter \<open>n\<close> of the C functions is
  decremented only below its value, so that it is a natural number here; its bits steer the tails.
\<close>

section \<open>Bytes and words\<close>

type_synonym bytes = "memptr \<Rightarrow> u8"

definition load32 :: "bytes \<Rightarrow> memptr \<Rightarrow> u32" where
  "load32 m a = ucast (m a) OR push_bit 8 (ucast (m (a + 1))) OR push_bit 16 (ucast (m (a + 2))) OR
     push_bit 24 (ucast (m (a + 3)))"

definition store32 :: "memptr \<Rightarrow> u32 \<Rightarrow> bytes \<Rightarrow> bytes" where
  "store32 a v m = m(a := ucast v, a + 1 := ucast (drop_bit 8 v), a + 2 := ucast (drop_bit 16 v),
     a + 3 := ucast (drop_bit 24 v))"

definition store64 :: "memptr \<Rightarrow> u64 \<Rightarrow> bytes \<Rightarrow> bytes" where
  "store64 a v m = store32 (a + 4) (ucast (drop_bit 32 v)) (store32 a (ucast v) m)"

section \<open>memcpy\<close>

text \<open>A run of \<open>k\<close> assignments \<^verbatim>\<open>*d++ = *s++\<close>.\<close>

fun copy_run :: "nat \<Rightarrow> memptr \<Rightarrow> memptr \<Rightarrow> bytes \<Rightarrow> bytes" where
  "copy_run 0 d s m = m"
| "copy_run (Suc k) d s m = copy_run k (d + 1) (s + 1) (m(d := m s))"

definition copy_word :: "memptr \<Rightarrow> memptr \<Rightarrow> bytes \<Rightarrow> bytes" where
  "copy_word d s m = store32 d (load32 m s) m"

fun copy_head :: "nat \<Rightarrow> memptr \<Rightarrow> memptr \<Rightarrow> bytes \<Rightarrow> memptr \<times> memptr \<times> nat \<times> bytes" where
  "copy_head 0 d s m = (d, s, 0, m)"
| "copy_head (Suc n) d s m =
     (if s mod 4 \<noteq> 0 then copy_head n (d + 1) (s + 1) (m(d := m s)) else (d, s, Suc n, m))"

fun copy_words :: "nat \<Rightarrow> memptr \<Rightarrow> memptr \<Rightarrow> bytes \<Rightarrow> memptr \<times> memptr \<times> nat \<times> bytes" where
  "copy_words n d s m =
     (if n \<ge> 16
      then copy_words (n - 16) (d + 16) (s + 16)
             (copy_word (d + 12) (s + 12) (copy_word (d + 8) (s + 8) (copy_word (d + 4) (s + 4) (copy_word d s m))))
      else (d, s, n, m))"

declare copy_words.simps [simp del]

text \<open>The tail of the copy between aligned pointers.\<close>

definition copy_aligned :: "nat \<Rightarrow> memptr \<Rightarrow> memptr \<Rightarrow> bytes \<Rightarrow> bytes" where
  "copy_aligned n d s m =
     (let (d, s, n, m) = copy_words n d s m;
          (d, s, m) = (if bit n 3 then (d + 8, s + 8, copy_word (d + 4) (s + 4) (copy_word d s m)) else (d, s, m));
          (d, s, m) = (if bit n 2 then (d + 4, s + 4, copy_word d s m) else (d, s, m));
          (d, s, m) = (if bit n 1 then (d + 2, s + 2, copy_run 2 d s m) else (d, s, m)) in
      if bit n 0 then m(d := m s) else m)"

text \<open>
  The loops for a misaligned destination: every word stored is put together from the rest of the word
  \<open>w\<close> read before, shifted right by \<open>ls\<close>, and the word read at offset \<open>o\<close>, shifted left by \<open>rs\<close>. The three
  cases of the switch differ in these numbers and in the least count \<open>lim\<close> for another round.
\<close>

function copy_shifted ::
  "nat \<Rightarrow> nat \<Rightarrow> memptr \<Rightarrow> nat \<Rightarrow> nat \<Rightarrow> memptr \<Rightarrow> memptr \<Rightarrow> u32 \<Rightarrow> bytes \<Rightarrow> memptr \<times> memptr \<times> nat \<times> bytes" where
  "copy_shifted ls rs off lim n d s w m =
     (if n \<ge> lim \<and> n \<ge> 16
      then let x = load32 m (s + off);
               m = store32 d (drop_bit ls w OR push_bit rs x) m;
               w = load32 m (s + off + 4);
               m = store32 (d + 4) (drop_bit ls x OR push_bit rs w) m;
               x = load32 m (s + off + 8);
               m = store32 (d + 8) (drop_bit ls w OR push_bit rs x) m;
               w = load32 m (s + off + 12);
               m = store32 (d + 12) (drop_bit ls x OR push_bit rs w) m in
           copy_shifted ls rs off lim (n - 16) (d + 16) (s + 16) w m
      else (d, s, n, m))"
  by pat_completeness auto
termination
  by (relation "measure (\<lambda>(ls, rs, off, lim, n, d, s, w, m). n)") auto

declare copy_shifted.simps [simp del]

definition copy_switch :: "nat \<Rightarrow> memptr \<Rightarrow> memptr \<Rightarrow> bytes \<Rightarrow> memptr \<times> memptr \<times> nat \<times> bytes" where
  "copy_switch n d s m =
     (let w = load32 m s in
      if d mod 4 = 1 then copy_shifted 24 8 1 17 (n - 3) (d + 3) (s + 3) w (copy_run 3 d s m)
      else if d mod 4 = 2 then copy_shifted 16 16 2 18 (n - 2) (d + 2) (s + 2) w (copy_run 2 d s m)
      else if d mod 4 = 3 then copy_shifted 8 24 3 19 (n - 1) (d + 1) (s + 1) w (copy_run 1 d s m)
      else (d, s, n, m))"

definition copy_tail :: "nat \<Rightarrow> memptr \<Rightarrow> memptr \<Rightarrow> bytes \<Rightarrow> bytes" where
  "copy_tail n d s m =
     (let (d, s, m) = (if bit n 4 then (d + 16, s + 16, copy_run 16 d s m) else (d, s, m));
          (d, s, m) = (if bit n 3 then (d + 8, s + 8, copy_run 8 d s m) else (d, s, m));
          (d, s, m) = (if bit n 2 then (d + 4, s + 4, copy_run 4 d s m) else (d, s, m));
          (d, s, m) = (if bit n 1 then (d + 2, s + 2, copy_run 2 d s m) else (d, s, m)) in
      if bit n 0 then m(d := m s) else m)"

text \<open>The pointer that \<^verbatim>\<open>memcpy\<close> returns is its argument \<open>dest\<close>.\<close>

definition memcpy :: "memptr \<Rightarrow> memptr \<Rightarrow> nat \<Rightarrow> bytes \<Rightarrow> memptr \<times> bytes" where
  "memcpy dest src n m =
     (let (d, s, n, m) = copy_head n dest src m in
      if d mod 4 = 0 then (dest, copy_aligned n d s m)
      else let (d, s, n, m) = (if n \<ge> 32 then copy_switch n d s m else (d, s, n, m)) in
           (dest, copy_tail n d s m))"

section \<open>memset\<close>

definition put_byte :: "memptr \<Rightarrow> nat \<Rightarrow> u8 \<Rightarrow> bytes \<Rightarrow> bytes" where
  "put_byte s i c m = m(s + of_nat i := c)"

text \<open>The aligned rest, 32 bytes at a time.\<close>

fun fill_words :: "nat \<Rightarrow> memptr \<Rightarrow> u64 \<Rightarrow> bytes \<Rightarrow> bytes" where
  "fill_words n s c64 m =
     (if n \<ge> 32
      then fill_words (n - 32) (s + 32) c64
             (store64 (s + 24) c64 (store64 (s + 16) c64 (store64 (s + 8) c64 (store64 s c64 m))))
      else m)"

declare fill_words.simps [simp del]

text \<open>
  The part after the byte-wise head and tail: \<open>s\<close> is aligned and \<open>n\<close> is a multiple of 4, at least 4; \<open>o4\<close> is an
  offset from \<open>s\<close> and \<open>e4\<close> one back from the end.
\<close>

definition fill_aligned :: "nat \<Rightarrow> memptr \<Rightarrow> u8 \<Rightarrow> bytes \<Rightarrow> bytes" where
  "fill_aligned n s c m =
     (let c32 = (- 1) div 255 * ucast c;
          o4 = (\<lambda>i. store32 (s + of_nat i) c32); e4 = (\<lambda>i. store32 (s + of_nat (n - i)) c32);
          m = e4 4 (o4 0 m) in
      if n \<le> 8 then m
      else let m = e4 8 (e4 12 (o4 8 (o4 4 m))) in
      if n \<le> 24 then m
      else let m = e4 16 (e4 20 (e4 24 (e4 28 (o4 24 (o4 20 (o4 16 (o4 12 m)))))));
               k = 24 + unat (s AND 4);
               c64 = ucast c32 OR push_bit 32 (ucast c32) in
           fill_words (n - k) (s + of_nat k) c64 m)"

text \<open>In \<^verbatim>\<open>s[0] = s[n - 1] = c\<close> the right store comes first.\<close>

definition memset :: "memptr \<Rightarrow> u8 \<Rightarrow> nat \<Rightarrow> bytes \<Rightarrow> memptr \<times> bytes" where
  "memset dest c n m =
     (let s = dest; b = (\<lambda>i. put_byte s i c) in
      if n = 0 then (dest, m)
      else let m = b 0 (b (n - 1) m) in
      if n \<le> 2 then (dest, m)
      else let m = b 2 (b (n - 3) (b 1 (b (n - 2) m))) in
      if n \<le> 6 then (dest, m)
      else let m = b 3 (b (n - 4) m) in
      if n \<le> 8 then (dest, m)
      else let k = unat ((- s) AND 3); s = s + of_nat k; n = n - k; n = n - n mod 4 in
           (dest, fill_aligned n s c m))"

section \<open>strcmp\<close>

text \<open>The strings are read up to the first difference or their common end; \<open>fuel\<close> bounds the walk.\<close>

fun strcmp :: "nat \<Rightarrow> bytes \<Rightarrow> memptr \<Rightarrow> memptr \<Rightarrow> int outcome" where
  "strcmp 0 m l r = Inl Diverges"
| "strcmp (Suc fuel) m l r =
     (if m l = m r \<and> m l \<noteq> 0 \<and> m r \<noteq> 0 then strcmp fuel m (l + 1) (r + 1)
      else Inr (uint (m l) - uint (m r)))"

section \<open>The copy, byte by byte\<close>

text \<open>The memory after the first \<open>k\<close> bytes at \<open>s\<close> were copied to \<open>d\<close>, and regions without a common address.\<close>

definition copied :: "nat \<Rightarrow> memptr \<Rightarrow> memptr \<Rightarrow> bytes \<Rightarrow> bytes" where
  "copied k d s m = (\<lambda>a. if unat (a - d) < k then m (s + (a - d)) else m a)"

definition apart :: "nat \<Rightarrow> memptr \<Rightarrow> memptr \<Rightarrow> bool" where
  "apart n d s \<longleftrightarrow> n < 4294967296 \<and> (\<forall>i<n. \<forall>j<n. d + of_nat i \<noteq> s + of_nat j)"

lemma copied_0 [simp]: "copied 0 d s m = m"
  by (simp add: copied_def)

lemma copied_source:
  assumes "apart n d s" "j < n" "k \<le> n"
  shows "copied k d s m (s + of_nat j) = m (s + of_nat j)"
proof -
  have "\<not> unat (s + of_nat j - d) < k"
  proof
    assume "unat (s + of_nat j - d) < k"
    then have "unat (s + of_nat j - d) < n" using assms(3) by simp
    moreover have "d + of_nat (unat (s + of_nat j - d)) = s + of_nat j" by simp
    ultimately show False using assms(1,2) unfolding apart_def by blast
  qed
  then show ?thesis by (simp add: copied_def)
qed

lemma copied_Suc:
  assumes "apart n d s" "k < n"
  shows "(copied k d s m)(d + of_nat k := copied k d s m (s + of_nat k)) = copied (Suc k) d s m"
proof
  fix a
  have k: "unat (of_nat k :: u32) = k" using assms by (intro unat_of_nat32) (simp add: apart_def)
  have "d + of_nat (unat (a - d)) = a" by simp
  then have "a = d + of_nat k \<longleftrightarrow> unat (a - d) = k" using k by (metis add_diff_cancel_left')
  then show "((copied k d s m)(d + of_nat k := copied k d s m (s + of_nat k))) a = copied (Suc k) d s m a"
    using copied_source [OF assms(1,2), of k] assms(2) by (auto simp: copied_def k less_Suc_eq)
qed

lemma copy_run_copied:
  assumes "apart n d s" "k + j \<le> n"
  shows "copy_run j (d + of_nat k) (s + of_nat k) (copied k d s m) = copied (k + j) d s m"
  using assms(2)
proof (induction j arbitrary: k)
  case (Suc j)
  have "copy_run (Suc j) (d + of_nat k) (s + of_nat k) (copied k d s m) =
      copy_run j (d + of_nat (Suc k)) (s + of_nat (Suc k)) (copied (Suc k) d s m)"
    using copied_Suc [OF assms(1)] Suc.prems by (simp add: add.assoc add.commute [of 1])
  then show ?case using Suc.IH [of "Suc k"] Suc.prems by simp
qed simp

lemma copy_byte_copied:
  assumes "apart n d s" "k < n"
  shows "(copied k d s m)(d + of_nat k := copied k d s m (s + of_nat k)) = copied (k + 1) d s m"
  using copied_Suc [OF assms] by simp

subsection \<open>Words\<close>

lemma bit_load32:
  "bit (load32 m a) p \<longleftrightarrow> p < 32 \<and> bit (m (a + of_nat (p div 8))) (p mod 8)"
proof -
  have r: "p div 8 = i \<Longrightarrow> p mod 8 = p - 8 * i" for i by (simp add: modulo_nat_def)
  consider "p < 8" | "8 \<le> p" "p < 16" | "16 \<le> p" "p < 24" | "24 \<le> p" "p < 32" | "32 \<le> p" by linarith
  then show ?thesis
  proof cases
    case 1
    then show ?thesis by (simp add: load32_def bit_simps)
  next
    case 2
    then have "p div 8 = 1" by simp
    with 2 r [OF this] show ?thesis by (auto simp: load32_def bit_simps dest: bit_imp_le_length)
  next
    case 3
    then have "p div 8 = 2" by simp
    with 3 r [OF this] show ?thesis by (auto simp: load32_def bit_simps dest: bit_imp_le_length)
  next
    case 4
    then have "p div 8 = 3" by simp
    with 4 r [OF this] show ?thesis by (auto simp: load32_def bit_simps dest: bit_imp_le_length)
  next
    case 5
    then show ?thesis by (auto dest: bit_imp_le_length)
  qed
qed

lemma load32_bytes:
  "(ucast (load32 m a) :: u8) = m a" "(ucast (drop_bit 8 (load32 m a)) :: u8) = m (a + 1)"
  "(ucast (drop_bit 16 (load32 m a)) :: u8) = m (a + 2)" "(ucast (drop_bit 24 (load32 m a)) :: u8) = m (a + 3)"
proof -
  have d: "n < 8 \<Longrightarrow> (8 * i + n) div 8 = i \<and> (8 * i + n) mod 8 = n" for n i :: nat by simp
  show "(ucast (load32 m a) :: u8) = m a" by (rule bit_word_eqI) (simp add: bit_simps bit_load32)
  show "(ucast (drop_bit 8 (load32 m a)) :: u8) = m (a + 1)"
    by (rule bit_word_eqI) (use d [of _ 1] in \<open>simp add: bit_simps bit_load32\<close>)
  show "(ucast (drop_bit 16 (load32 m a)) :: u8) = m (a + 2)"
    by (rule bit_word_eqI) (use d [of _ 2] in \<open>simp add: bit_simps bit_load32\<close>)
  show "(ucast (drop_bit 24 (load32 m a)) :: u8) = m (a + 3)"
    by (rule bit_word_eqI) (use d [of _ 3] in \<open>simp add: bit_simps bit_load32\<close>)
qed

text \<open>A word put together from two neighbours is the word between them.\<close>

lemma load32_merge:
  assumes "ls + rs = 32" "ls = 8 * i" "rs = 8 * j"
  shows "drop_bit ls (load32 m a) OR push_bit rs (load32 m (a + 4)) = load32 m (a + of_nat i)"
proof (rule bit_word_eqI)
  fix p assume "p < LENGTH(32)"
  then have p: "p < 32" by simp
  have ij: "i + j = 4" using assms by simp
  show "bit (drop_bit ls (load32 m a) OR push_bit rs (load32 m (a + 4))) p = bit (load32 m (a + of_nat i)) p"
  proof (cases "p < rs")
    case True
    have "(ls + p) div 8 = i + p div 8" "(ls + p) mod 8 = p mod 8" using assms(2) by simp_all
    then show ?thesis using True p assms(1) by (simp add: bit_simps bit_load32 add.assoc)
  next
    case False
    then obtain q where q: "p = rs + q" by (metis le_add_diff_inverse not_less)
    have "p div 8 = j + q div 8" "p mod 8 = q mod 8" using q assms(3) by simp_all
    moreover have "(of_nat i :: u32) + of_nat j = 4" using ij by (metis of_nat_add of_nat_numeral)
    ultimately show ?thesis using False q p assms(1)
      by (simp add: bit_simps bit_load32 add.assoc [symmetric]) (simp add: add.assoc)
  qed
qed

lemma copy_word_run:
  assumes "apart 4 d s"
  shows "copy_word d s m = copy_run 4 d s m"
proof -
  have "d + of_nat i \<noteq> s + of_nat j" if "i < 4" "j < 4" for i j using assms that by (simp add: apart_def)
  from this [of 0 1] this [of 0 2] this [of 0 3] this [of 1 2] this [of 1 3] this [of 2 3]
  have "d \<noteq> s + 1" "d \<noteq> s + 2" "d \<noteq> s + 3" "d + 1 \<noteq> s + 2" "d + 1 \<noteq> s + 3" "d + 2 \<noteq> s + 3" by simp_all
  moreover have "copy_run 4 d s m = copy_run (Suc (Suc (Suc (Suc 0)))) d s m" by (simp add: eval_nat_numeral)
  ultimately show ?thesis by (auto simp: copy_word_def store32_def load32_bytes add.assoc)
qed

lemma apart_part:
  "apart n d s \<Longrightarrow> k + j \<le> n \<Longrightarrow> apart j (d + of_nat k) (s + of_nat k)"
proof -
  assume a: "apart n d s" "k + j \<le> n"
  have "d + of_nat k + of_nat x \<noteq> s + of_nat k + of_nat y" if "x < j" "y < j" for x y
    using a that unfolding apart_def by (metis (no_types, lifting) add.assoc add_less_mono1 add.commute of_nat_add order_less_le_trans)
  then show ?thesis using a by (auto simp: apart_def)
qed

lemma copy_word_copied:
  assumes "apart n d s" "k + 4 \<le> n"
  shows "copy_word (d + of_nat k) (s + of_nat k) (copied k d s m) = copied (k + 4) d s m"
  using copy_word_run [OF apart_part [OF assms]] copy_run_copied [OF assms] by simp

subsection \<open>The parts of the copy\<close>

lemma copy_head_copied:
  assumes "apart n d s" "k \<le> n"
  shows "\<exists>j\<le>n. copy_head (n - k) (d + of_nat k) (s + of_nat k) (copied k d s m) =
    (d + of_nat j, s + of_nat j, n - j, copied j d s m) \<and> ((s + of_nat j) mod 4 = 0 \<or> j = n)"
  using assms(2)
proof (induction "n - k" arbitrary: k)
  case (Suc r)
  then have k: "n - k = Suc (n - Suc k)" "k < n" by auto
  show ?case
  proof (cases "(s + of_nat k) mod 4 = 0")
    case False
    have "copy_head (n - k) (d + of_nat k) (s + of_nat k) (copied k d s m) =
        copy_head (n - Suc k) (d + of_nat (Suc k)) (s + of_nat (Suc k)) (copied (Suc k) d s m)"
      using False copied_Suc [OF assms(1) k(2)] unfolding k(1) by (simp add: add.assoc add.commute [of 1])
    then show ?thesis using Suc.hyps(1) [of "Suc k"] Suc.hyps(2) k(2) by simp
  next
    case True
    then show ?thesis using k by (intro exI [of _ k]) (simp del: mod_eq_0_iff_dvd)
  qed
qed auto

lemma copy_words_copied:
  assumes "apart n d s" "k \<le> n"
  shows "\<exists>j\<le>n. copy_words (n - k) (d + of_nat k) (s + of_nat k) (copied k d s m) =
    (d + of_nat j, s + of_nat j, n - j, copied j d s m) \<and> n - j < 16"
  using assms(2)
proof (induction "n - k" arbitrary: k rule: less_induct)
  case less
  show ?case
  proof (cases "16 \<le> n - k")
    case True
    note w = copy_word_copied [OF assms(1)]
    have "copy_words (n - k) (d + of_nat k) (s + of_nat k) (copied k d s m) =
        copy_words (n - (k + 16)) (d + of_nat (k + 16)) (s + of_nat (k + 16)) (copied (k + 16) d s m)"
      using True w [of k m] w [of "k + 4" m] w [of "k + 8" m] w [of "k + 12" m]
      by (subst copy_words.simps) (simp add: add.assoc)
    then show ?thesis using less.hyps [of "k + 16"] True by simp
  qed (use less.prems in \<open>auto simp: copy_words.simps\<close>)
qed

text \<open>The tails copy the rest by its binary digits.\<close>

definition digits5 :: "nat \<Rightarrow> nat" where
  "digits5 r = of_bool (bit r 4) * 16 + of_bool (bit r 3) * 8 + of_bool (bit r 2) * 4 + of_bool (bit r 1) * 2 +
     of_bool (bit r 0)"

lemma binary5: "r < 32 \<Longrightarrow> digits5 r = r"
proof -
  have "list_all (\<lambda>r. digits5 r = r) [0..<32]" by code_simp
  then show "r < 32 \<Longrightarrow> digits5 r = r" by (simp add: list_all_iff)
qed

text \<open>One stage of a tail: \<open>j\<close> bytes when the digit is set, and the pointers with them.\<close>

lemma copy_stage:
  assumes "apart n d s" "b \<longrightarrow> k + j \<le> n"
  shows "(if b then (d + of_nat k + of_nat j, s + of_nat k + of_nat j,
             copy_run j (d + of_nat k) (s + of_nat k) (copied k d s m))
          else (d + of_nat k, s + of_nat k, copied k d s m)) =
    (d + of_nat (k + of_bool b * j), s + of_nat (k + of_bool b * j), copied (k + of_bool b * j) d s m)"
  using assms copy_run_copied [OF assms(1), of k j] by (cases b) (simp_all add: add.assoc)

lemma copy_word_copied2:
  assumes "apart n d s" "k + 8 \<le> n"
  shows "copy_word (d + of_nat k + 4) (s + of_nat k + 4) (copy_word (d + of_nat k) (s + of_nat k) (copied k d s m)) =
    copied (k + 8) d s m"
  using copy_word_copied [OF assms(1), of k m] copy_word_copied [OF assms(1), of "k + 4" m] assms(2)
  by (simp add: add.assoc)

lemma copy_last:
  assumes "apart n d s" "n = k + of_bool b"
  shows "(if b then (copied k d s m)(d + of_nat k := copied k d s m (s + of_nat k)) else copied k d s m) = copied n d s m"
  using assms copy_byte_copied [of n d s k m] by auto

lemma copy_tail_copied:
  assumes a: "apart n d s" and k: "k \<le> n" "n - k < 32"
  shows "copy_tail (n - k) (d + of_nat k) (s + of_nat k) (copied k d s m) = copied n d s m"
proof -
  let ?r = "n - k"
  define k4 where "k4 = k + of_bool (bit ?r 4) * 16"
  define k3 where "k3 = k4 + of_bool (bit ?r 3) * 8"
  define k2 where "k2 = k3 + of_bool (bit ?r 2) * 4"
  define k1 where "k1 = k2 + of_bool (bit ?r 1) * 2"
  have n: "n = k1 + of_bool (bit ?r 0)"
    using binary5 [OF k(2)] k(1) unfolding digits5_def k1_def k2_def k3_def k4_def by linarith
  have le: "k4 \<le> n" "k3 \<le> n" "k2 \<le> n" "k1 \<le> n" using n by (simp_all add: k1_def k2_def k3_def)
  have "bit ?r 4 \<longrightarrow> k + 16 \<le> n" "bit ?r 3 \<longrightarrow> k4 + 8 \<le> n" "bit ?r 2 \<longrightarrow> k3 + 4 \<le> n" "bit ?r 1 \<longrightarrow> k2 + 2 \<le> n"
    using le k4_def k3_def k2_def k1_def by (auto simp del: One_nat_def)
  note st = this [THEN copy_stage [OF a], unfolded of_nat_numeral, folded k1_def k2_def k3_def k4_def]
  show ?thesis
    unfolding copy_tail_def Let_def st prod.case by (rule copy_last [OF a n])
qed

lemma copy_aligned_copied:
  assumes a: "apart n d s" and k: "k \<le> n"
  shows "copy_aligned (n - k) (d + of_nat k) (s + of_nat k) (copied k d s m) = copied n d s m"
proof -
  obtain j where j: "j \<le> n" "n - j < 16" and w: "copy_words (n - k) (d + of_nat k) (s + of_nat k) (copied k d s m) =
      (d + of_nat j, s + of_nat j, n - j, copied j d s m)"
    using copy_words_copied [OF a k] by blast
  let ?r = "n - j"
  define k3 where "k3 = j + of_bool (bit ?r 3) * 8"
  define k2 where "k2 = k3 + of_bool (bit ?r 2) * 4"
  define k1 where "k1 = k2 + of_bool (bit ?r 1) * 2"
  have "\<not> bit ?r 4" using j(2) by (simp add: bit_iff_odd)
  then have n: "n = k1 + of_bool (bit ?r 0)"
    using binary5 [of ?r] j unfolding digits5_def k1_def k2_def k3_def by (simp only: of_bool_def if_False) linarith
  have le: "k3 \<le> n" "k2 \<le> n" "k1 \<le> n" using n by (simp_all add: k1_def k2_def)
  then have r: "bit ?r 3 \<Longrightarrow> j + 8 \<le> n" "bit ?r 2 \<Longrightarrow> k3 + 4 \<le> n" "bit ?r 1 \<longrightarrow> k2 + 2 \<le> n"
    using k3_def k2_def k1_def by (auto simp del: One_nat_def)
  have "(if bit ?r 3 then (d + of_nat j + 8, s + of_nat j + 8, copy_word (d + of_nat j + 4) (s + of_nat j + 4)
        (copy_word (d + of_nat j) (s + of_nat j) (copied j d s m)))
      else (d + of_nat j, s + of_nat j, copied j d s m)) = (d + of_nat k3, s + of_nat k3, copied k3 d s m)"
    using copy_word_copied2 [OF a r(1)] by (simp add: k3_def add.assoc)
  moreover have "(if bit ?r 2 then (d + of_nat k3 + 4, s + of_nat k3 + 4,
        copy_word (d + of_nat k3) (s + of_nat k3) (copied k3 d s m))
      else (d + of_nat k3, s + of_nat k3, copied k3 d s m)) = (d + of_nat k2, s + of_nat k2, copied k2 d s m)"
    using copy_word_copied [OF a r(2)] by (simp add: k2_def add.assoc)
  moreover note copy_stage [OF a r(3), unfolded of_nat_numeral, folded k1_def]
  ultimately show ?thesis
    unfolding copy_aligned_def w Let_def prod.case
    by (simp only: prod.case k1_def [symmetric]) (rule copy_last [OF a n])
qed

subsection \<open>Misaligned destinations\<close>

lemma load32_copied:
  assumes "apart n d s" "j + 4 \<le> n" "k \<le> n"
  shows "load32 (copied k d s m) (s + of_nat j) = load32 m (s + of_nat j)"
proof -
  have "copied k d s m (s + of_nat j + of_nat i) = m (s + of_nat j + of_nat i)" if "i < 4" for i
    using copied_source [OF assms(1) _ assms(3), of "j + i"] assms(2) that by (simp add: add.assoc)
  from this [of 0] this [of 1] this [of 2] this [of 3] show ?thesis by (simp add: load32_def)
qed

lemma store_merged:
  assumes a: "apart n d s" and k: "k + 4 + i \<le> n" "4 \<le> k + i" and i: "i < 4" "ls = 8 * (4 - i)" "rs = 8 * i"
    and w: "w = load32 m (s + of_nat (k + i) - 4)" and x: "x = load32 m (s + of_nat (k + i))"
  shows "store32 (d + of_nat k) (drop_bit ls w OR push_bit rs x) (copied k d s m) = copied (k + 4) d s m"
proof -
  have "drop_bit ls w OR push_bit rs x = load32 m (s + of_nat (k + i) - 4 + of_nat (4 - i))"
    using load32_merge [of ls rs "4 - i" i m "s + of_nat (k + i) - 4"] i by (simp add: w x)
  moreover have "(of_nat (4 - i) :: u32) = 4 - of_nat i" using i(1) by (simp add: of_nat_diff)
  ultimately have "drop_bit ls w OR push_bit rs x = load32 m (s + of_nat k)" by simp
  then have "drop_bit ls w OR push_bit rs x = load32 (copied k d s m) (s + of_nat k)"
    using load32_copied [OF a, of k k m] k(1) by simp
  then show ?thesis using copy_word_copied [OF a, of k m] k(1) by (simp add: copy_word_def)
qed

lemma copy_shifted_round:
  assumes "lim \<le> n" "16 \<le> lim" "load32 m (s + off) = x" "store32 d (drop_bit ls w OR push_bit rs x) m = m1"
    "load32 m1 (s + off + 4) = w1" "store32 (d + 4) (drop_bit ls x OR push_bit rs w1) m1 = m2"
    "load32 m2 (s + off + 8) = x1" "store32 (d + 8) (drop_bit ls w1 OR push_bit rs x1) m2 = m3"
    "load32 m3 (s + off + 12) = w2" "store32 (d + 12) (drop_bit ls x1 OR push_bit rs w2) m3 = m4"
  shows "copy_shifted ls rs off lim n d s w m = copy_shifted ls rs off lim (n - 16) (d + 16) (s + 16) w2 m4"
  using assms by (subst copy_shifted.simps) (simp only: Let_def order.trans [OF assms(2,1)] simp_thms if_True)

lemma copy_shifted_copied:
  assumes a: "apart n d s" and i: "0 < i" "i < 4" "ls = 8 * (4 - i)" "rs = 8 * i" "lim = 16 + i"
    and k: "k \<le> n" "4 \<le> k + i" and w: "w = load32 m (s + of_nat (k + i) - 4)"
  shows "\<exists>j\<le>n. copy_shifted ls rs (of_nat i) lim (n - k) (d + of_nat k) (s + of_nat k) w (copied k d s m) =
    (d + of_nat j, s + of_nat j, n - j, copied j d s m) \<and> n - j < lim"
  using k w
proof (induction "n - k" arbitrary: k w rule: less_induct)
  case less
  show ?case
  proof (cases "lim \<le> n - k")
    case True
    define l where "l j = load32 m (s + of_nat (k + i + j))" for j
    have ld: "load32 (copied (k + q) d s m) (s + of_nat k + of_nat i + of_nat q) = l q" if "q \<le> 12" for q
      using load32_copied [OF a, of "k + i + q" "k + q" m] True i(5) that by (simp add: l_def add.assoc)
    note st = store_merged [OF a _ _ i(2-4), where m = m]
    have s4: "store32 (d + of_nat k + of_nat (q + 4)) (drop_bit ls (l q) OR push_bit rs (l (q + 4)))
        (copied (k + q + 4) d s m) = copied (k + q + 8) d s m" if "q \<le> 8" for q
      using st [of "k + q + 4" "l q" "l (q + 4)"] True i(5) that by (simp add: l_def algebra_simps)
    have s0: "store32 (d + of_nat k) (drop_bit ls w OR push_bit rs (l 0)) (copied k d s m) = copied (k + 4) d s m"
      using st [of k w "l 0"] True i(5) less.prems(2,3) by (simp add: l_def)
    have "copy_shifted ls rs (of_nat i) lim (n - k) (d + of_nat k) (s + of_nat k) w (copied k d s m) =
        copy_shifted ls rs (of_nat i) lim (n - k - 16) (d + of_nat k + 16) (s + of_nat k + 16) (l 12)
          (copied (k + 16) d s m)"
    proof (rule copy_shifted_round [OF True])
      show "16 \<le> lim" using i(5) by simp
      show "load32 (copied k d s m) (s + of_nat k + of_nat i) = l 0" using ld [of 0] by simp
      show "load32 (copied (k + 4) d s m) (s + of_nat k + of_nat i + 4) = l 4" using ld [of 4] by simp
      show "load32 (copied (k + 8) d s m) (s + of_nat k + of_nat i + 8) = l 8" using ld [of 8] by simp
      show "load32 (copied (k + 12) d s m) (s + of_nat k + of_nat i + 12) = l 12" using ld [of 12] by simp
      show "store32 (d + of_nat k + 4) (drop_bit ls (l 0) OR push_bit rs (l 4)) (copied (k + 4) d s m) = copied (k + 8) d s m"
        using s4 [of 0] by (simp add: add.commute)
      show "store32 (d + of_nat k + 8) (drop_bit ls (l 4) OR push_bit rs (l 8)) (copied (k + 8) d s m) = copied (k + 12) d s m"
        using s4 [of 4] by (simp add: add.commute)
      show "store32 (d + of_nat k + 12) (drop_bit ls (l 8) OR push_bit rs (l 12)) (copied (k + 12) d s m) = copied (k + 16) d s m"
        using s4 [of 8] by (simp add: add.commute)
    qed (rule s0)
    moreover have "\<exists>j\<le>n. copy_shifted ls rs (of_nat i) lim (n - (k + 16)) (d + of_nat (k + 16)) (s + of_nat (k + 16))
          (l 12) (copied (k + 16) d s m) = (d + of_nat j, s + of_nat j, n - j, copied j d s m) \<and> n - j < lim"
      using True i(5) less.prems by (intro less.hyps) (simp_all add: l_def algebra_simps)
    ultimately show ?thesis by (simp add: add.assoc)
  qed (use less.prems in \<open>auto simp: copy_shifted.simps\<close>)
qed

lemma copy_switch_copied:
  assumes a: "apart n d s" and k: "k \<le> n" "32 \<le> n - k" and d: "(d + of_nat k) mod 4 \<noteq> 0"
  shows "\<exists>j\<le>n. copy_switch (n - k) (d + of_nat k) (s + of_nat k) (copied k d s m) =
    (d + of_nat j, s + of_nat j, n - j, copied j d s m) \<and> n - j < 32"
proof -
  let ?w = "load32 m (s + of_nat k)"
  have w: "load32 (copied k d s m) (s + of_nat k) = ?w" using load32_copied [OF a, of k k m] k by simp
  have case_i: "\<exists>j\<le>n. copy_shifted (8 * r) (8 * i) (of_nat i) (16 + i) (n - k - r) (d + of_nat k + of_nat r)
      (s + of_nat k + of_nat r) ?w (copy_run r (d + of_nat k) (s + of_nat k) (copied k d s m)) =
      (d + of_nat j, s + of_nat j, n - j, copied j d s m) \<and> n - j < 32" if i: "r + i = 4" "0 < i" "0 < r" for r i
  proof -
    have run: "copy_run r (d + of_nat k) (s + of_nat k) (copied k d s m) = copied (k + r) d s m"
      using copy_run_copied [OF a, of k r m] k i by simp
    have "(of_nat r :: u32) + of_nat i = 4" using i(1) by (metis of_nat_add of_nat_numeral)
    then have "?w = load32 m (s + of_nat (k + r + i) - 4)" by (simp add: add.assoc)
    then have "\<exists>j\<le>n. copy_shifted (8 * r) (8 * i) (of_nat i) (16 + i)
        (n - (k + r)) (d + of_nat (k + r)) (s + of_nat (k + r)) ?w (copied (k + r) d s m) =
        (d + of_nat j, s + of_nat j, n - j, copied j d s m) \<and> n - j < 16 + i"
      by (rule copy_shifted_copied [OF a i(2) _ _ refl refl, rotated 4]) (use i k in linarith)+
    then obtain j where "j \<le> n" "n - j < 16 + i" "copy_shifted (8 * r) (8 * i) (of_nat i) (16 + i)
        (n - (k + r)) (d + of_nat (k + r)) (s + of_nat (k + r)) ?w (copied (k + r) d s m) =
        (d + of_nat j, s + of_nat j, n - j, copied j d s m)" by blast
    then show ?thesis using i by (intro exI [of _ j]) (simp add: run add.assoc)
  qed
  have "unat (d + of_nat k) mod 4 < 4" by simp
  then consider "unat (d + of_nat k) mod 4 = 0" | "unat (d + of_nat k) mod 4 = 1" | "unat (d + of_nat k) mod 4 = 2"
    | "unat (d + of_nat k) mod 4 = 3" by linarith
  then have "(d + of_nat k) mod 4 = 1 \<or> (d + of_nat k) mod 4 = 2 \<or> (d + of_nat k) mod 4 = 3"
    using d by cases (simp_all add: word_unat_eq_iff unat_mod)
  then show ?thesis
    using case_i [of 3 1] case_i [of 2 2] case_i [of 1 3] by (auto simp: copy_switch_def Let_def w)
qed

text \<open>
  C9: \<^verbatim>\<open>memcpy\<close> copies exactly the \<open>n\<close> bytes at the source to the destination and changes no other byte,
  for every alignment of the two pointers: the word loops, the shifted loops for a misaligned
  destination and the tails by the binary digits of the rest equal the copy byte by byte.
\<close>

theorem memcpy_copies:
  assumes "apart n dest src"
  shows "memcpy dest src n m = (dest, \<lambda>a. if unat (a - dest) < n then m (src + (a - dest)) else m a)"
proof -
  obtain k where k: "k \<le> n" and h: "copy_head n dest src m =
      (dest + of_nat k, src + of_nat k, n - k, copied k dest src m)"
    using copy_head_copied [OF assms, of 0 m] by auto
  have "snd (memcpy dest src n m) = copied n dest src m"
  proof (cases "(dest + of_nat k) mod 4 = 0")
    case True
    then show ?thesis by (simp add: memcpy_def h copy_aligned_copied [OF assms k] del: mod_eq_0_iff_dvd)
  next
    case False
    show ?thesis
    proof (cases "32 \<le> n - k")
      case True
      obtain j where "j \<le> n" "n - j < 32" "copy_switch (n - k) (dest + of_nat k) (src + of_nat k) (copied k dest src m) =
          (dest + of_nat j, src + of_nat j, n - j, copied j dest src m)"
        using copy_switch_copied [OF assms k True False] by blast
      then show ?thesis using False True by (simp add: memcpy_def h copy_tail_copied [OF assms])
    next
      case short: False
      then show ?thesis using False by (simp add: memcpy_def h copy_tail_copied [OF assms k])
    qed
  qed
  moreover have "fst (memcpy dest src n m) = dest" by (simp add: memcpy_def split: prod.splits)
  ultimately show ?thesis by (cases "memcpy dest src n m") (simp add: copied_def)
qed

lemma apart_below:
  assumes "unat d + n \<le> unat s" "unat s + n < 4294967296"
  shows "apart n d s" "apart n s d"
proof -
  have "unat (d + of_nat i) = unat d + i" "unat (s + of_nat i) = unat s + i" if "i < n" for i
    using assms that by (simp_all add: unat_add32 unat_of_nat32)
  note u = this
  have "d + of_nat i \<noteq> s + of_nat j" if "i < n" "j < n" for i j
  proof
    assume "d + of_nat i = s + of_nat j"
    then have "unat d + i = unat s + j" using u that by metis
    then show False using assms(1) that by linarith
  qed
  then show "apart n d s" "apart n s d" using assms unfolding apart_def by fastforce+
qed

theorem memcpy_copies_witness:
  "let m = snd (memcpy 0x20000101 0x20001000 40 (\<lambda>a. ucast a)) in
   m 0x20000101 = 0x00 \<and> m 0x20000128 = 0x27 \<and> m 0x20000129 = 0x29 \<and> m 0x20000100 = 0x00"
proof -
  have "apart 40 0x20000101 0x20001000" by (rule apart_below) simp_all
  then show ?thesis by (simp add: memcpy_copies Let_def unsigned_minus_1_eq_mask mask_eq_exp_minus_1)
qed

section \<open>The fill\<close>

text \<open>The memory with \<open>c\<close> at the offsets in \<open>S\<close> from \<open>d\<close>.\<close>

definition filled :: "nat set \<Rightarrow> memptr \<Rightarrow> u8 \<Rightarrow> bytes \<Rightarrow> bytes" where
  "filled S d c m = (\<lambda>a. if unat (a - d) \<in> S then c else m a)"

lemma put_byte_filled:
  assumes "k + i < 4294967296"
  shows "put_byte (d + of_nat k) i c (filled S d c m) = filled (insert (k + i) S) d c m"
proof
  fix a
  have "unat (of_nat (k + i) :: u32) = k + i" using assms by (rule unat_of_nat32)
  moreover have "d + of_nat (unat (a - d)) = a" by simp
  ultimately have "a = d + of_nat (k + i) \<longleftrightarrow> unat (a - d) = k + i" by (metis add_diff_cancel_left')
  then show "put_byte (d + of_nat k) i c (filled S d c m) a = filled (insert (k + i) S) d c m a"
    by (auto simp: put_byte_def filled_def add.assoc)
qed

lemma byte_word: "(- 1) div 255 * (ucast (c :: u8) :: u32) = load32 (\<lambda>_. c) a"
proof -
  let ?x = "ucast c :: u32"
  have b: "bit ?x n \<Longrightarrow> n < 8" for n by (auto simp: bit_simps dest: bit_imp_le_length)
  have p: "push_bit i ?x = ?x * 2 ^ i" for i by (simp add: push_bit_eq_mult)
  have "push_bit 16 ?x OR push_bit 24 ?x = push_bit 16 ?x + push_bit 24 ?x"
    by (rule disjunctive_add [symmetric]) (auto simp: bit_simps dest: bit_imp_le_length)
  moreover have "push_bit 8 ?x OR (push_bit 16 ?x OR push_bit 24 ?x) = push_bit 8 ?x + (push_bit 16 ?x OR push_bit 24 ?x)"
    by (rule disjunctive_add [symmetric]) (auto simp: bit_simps dest: bit_imp_le_length)
  moreover have "?x OR (push_bit 8 ?x OR (push_bit 16 ?x OR push_bit 24 ?x)) =
      ?x + (push_bit 8 ?x OR (push_bit 16 ?x OR push_bit 24 ?x))"
    by (rule disjunctive_add [symmetric]) (auto simp: bit_simps dest: bit_imp_le_length)
  ultimately show ?thesis by (simp add: load32_def p)
qed

lemma store_byte_word:
  assumes "k + i + 4 \<le> 4294967296"
  shows "store32 (d + of_nat k + of_nat i) ((- 1) div 255 * ucast c) (filled S d c m) =
    filled ({k + i..<k + i + 4} \<union> S) d c m"
proof -
  have "store32 (d + of_nat k + of_nat i) ((- 1) div 255 * ucast c) (filled S d c m) =
    put_byte (d + of_nat k) (i + 3) c (put_byte (d + of_nat k) (i + 2) c (put_byte (d + of_nat k) (i + 1) c
      (put_byte (d + of_nat k) i c (filled S d c m))))"
    unfolding byte_word [of c 0] store32_def load32_bytes by (simp add: put_byte_def ac_simps)
  also have "\<dots> = filled (insert (k + (i + 3)) (insert (k + (i + 2)) (insert (k + (i + 1)) (insert (k + i) S)))) d c m"
    using assms by (simp add: put_byte_filled)
  also have "insert (k + (i + 3)) (insert (k + (i + 2)) (insert (k + (i + 1)) (insert (k + i) S))) = {k + i..<k + i + 4} \<union> S"
    by auto
  finally show ?thesis .
qed

lemma store_byte_dword:
  assumes "k + i + 8 \<le> 4294967296" and c: "c32 = (- 1) div 255 * (ucast c :: u32)"
  shows "store64 (d + of_nat k + of_nat i) (ucast c32 OR push_bit 32 (ucast c32)) (filled S d c m) =
    filled ({k + i..<k + i + 8} \<union> S) d c m"
proof -
  have "(ucast (ucast c32 OR push_bit 32 (ucast c32) :: u64) :: u32) = c32"
    by (rule bit_word_eqI) (auto simp: bit_simps)
  moreover have "(ucast (drop_bit 32 (ucast c32 OR push_bit 32 (ucast c32) :: u64)) :: u32) = c32"
    by (rule bit_word_eqI) (auto simp: bit_simps dest: bit_imp_le_length)
  moreover have "d + of_nat k + of_nat i + 4 = d + of_nat k + of_nat (i + 4)" by (simp add: add.assoc)
  ultimately have "store64 (d + of_nat k + of_nat i) (ucast c32 OR push_bit 32 (ucast c32)) (filled S d c m) =
      filled ({k + (i + 4)..<k + (i + 4) + 4} \<union> ({k + i..<k + i + 4} \<union> S)) d c m"
    using assms(1) by (simp only: store64_def c store_byte_word)
  moreover have "{k + (i + 4)..<k + (i + 4) + 4} \<union> ({k + i..<k + i + 4} \<union> S) = {k + i..<k + i + 8} \<union> S" by auto
  ultimately show ?thesis by simp
qed

lemma fill_words_filled:
  assumes "k + n < 4294967296" and c: "c32 = (- 1) div 255 * (ucast c :: u32)"
  shows "fill_words n (d + of_nat k) (ucast c32 OR push_bit 32 (ucast c32)) (filled S d c m) =
    filled ({k..<k + (n - n mod 32)} \<union> S) d c m"
  using assms(1)
proof (induction n arbitrary: k S rule: less_induct)
  case (less n)
  let ?c = "ucast c32 OR push_bit 32 (ucast c32) :: u64"
  show ?case
  proof (cases "32 \<le> n")
    case True
    have st: "store64 (d + of_nat k + of_nat i) ?c (filled T d c m) = filled ({k + i..<k + i + 8} \<union> T) d c m" if "i \<le> 24" for i T
      using store_byte_dword [OF _ c] less.prems True that by simp
    have "fill_words n (d + of_nat k) ?c (filled S d c m) =
        fill_words (n - 32) (d + of_nat (k + 32)) ?c
          (filled ({k + 24..<k + 24 + 8} \<union> ({k + 16..<k + 16 + 8} \<union> ({k + 8..<k + 8 + 8} \<union> ({k + 0..<k + 0 + 8} \<union> S)))) d c m)"
      using True st [of 0 S] st [of 8] st [of 16] st [of 24] by (subst fill_words.simps) (simp add: add.assoc)
    also have "{k + 24..<k + 24 + 8} \<union> ({k + 16..<k + 16 + 8} \<union> ({k + 8..<k + 8 + 8} \<union> ({k + 0..<k + 0 + 8} \<union> S))) =
        {k..<k + 32} \<union> S" by auto
    also have "fill_words (n - 32) (d + of_nat (k + 32)) ?c (filled ({k..<k + 32} \<union> S) d c m) =
        filled ({k + 32..<k + 32 + (n - 32 - (n - 32) mod 32)} \<union> ({k..<k + 32} \<union> S)) d c m"
      using less.prems True by (intro less.IH) auto
    also have "{k + 32..<k + 32 + (n - 32 - (n - 32) mod 32)} \<union> ({k..<k + 32} \<union> S) = {k..<k + (n - n mod 32)} \<union> S"
      using True mod_less_eq_dividend [of "n - 32" 32] by (auto simp: le_mod_geq)
    finally show ?thesis .
  qed (simp add: fill_words.simps)
qed

text \<open>Word stores at neighbouring offsets cover the interval of both.\<close>

lemma ivl_join: "a \<le> c \<Longrightarrow> c \<le> b \<Longrightarrow> b \<le> d \<Longrightarrow> {a..<b} \<union> {c..<d} = {a..<d :: nat}"
  by auto

lemma fill_aligned_filled:
  assumes n: "k + n < 4294967296" "4 dvd n" "4 \<le> n"
  shows "fill_aligned n (d + of_nat k) c (filled S d c m) = filled ({k..<k + n} \<union> S) d c m"
proof -
  define c32 where "c32 = (- 1) div 255 * (ucast c :: u32)"
  define W where "W i = {k + i..<k + i + 4}" for i
  have w: "store32 (d + of_nat k + of_nat i) c32 (filled T d c m) = filled (W i \<union> T) d c m" if "i + 4 \<le> n" for i T
    using store_byte_word [of k i d c T m] n that unfolding c32_def W_def by simp
  obtain q where q: "n = 4 * q" using n(2) by (rule dvdE)
  then have "n \<le> 8 \<or> 8 < n \<and> n \<le> 24 \<and> 12 \<le> n \<or> 28 \<le> n" by presburger
  then consider "n \<le> 8" | "8 < n" "n \<le> 24" "12 \<le> n" | "28 \<le> n" by blast
  note cs = this
  note fold = fill_aligned_def Let_def c32_def [symmetric]
  have lo: "W 0 \<union> W 4 \<union> W 8 = {k..<k + 12}" "W 12 \<union> W 16 \<union> W 20 \<union> W 24 = {k + 12..<k + 28}"
    by (auto simp: W_def)
  have hi: "W (n - 12) \<union> W (n - 8) \<union> W (n - 4) = {k + n - 12..<k + n}" if "12 \<le> n"
    using that by (auto simp: W_def)
  have hi2: "W (n - 28) \<union> W (n - 24) \<union> W (n - 20) \<union> W (n - 16) = {k + n - 28..<k + n - 12}" if "28 \<le> n"
    using that by (auto simp: W_def)
  from cs show ?thesis
  proof cases
    case 1
    then have "0 + 4 \<le> n" "n - 4 + 4 \<le> n" using n(3) by simp_all
    note ww = this [THEN w]
    have "W (n - 4) \<union> (W 0 \<union> S) = {k..<k + n} \<union> S" using 1 n(3) by (auto simp: W_def)
    then show ?thesis unfolding fold using 1 by (simp only: ww if_True)
  next
    case 2
    then have "0 + 4 \<le> n" "n - 4 + 4 \<le> n" "4 + 4 \<le> n" "8 + 4 \<le> n" "n - 12 + 4 \<le> n" "n - 8 + 4 \<le> n" by simp_all
    note ww = this [THEN w]
    have "W (n - 8) \<union> (W (n - 12) \<union> (W 8 \<union> (W 4 \<union> (W (n - 4) \<union> (W 0 \<union> S))))) =
        (W 0 \<union> W 4 \<union> W 8) \<union> (W (n - 12) \<union> W (n - 8) \<union> W (n - 4)) \<union> S" by blast
    also have "\<dots> = {k..<k + n} \<union> S" unfolding lo hi [OF 2(3)] using 2 by (simp add: ivl_join)
    finally have T: "W (n - 8) \<union> (W (n - 12) \<union> (W 8 \<union> (W 4 \<union> (W (n - 4) \<union> (W 0 \<union> S))))) = {k..<k + n} \<union> S" .
    have "\<not> n \<le> 8" using 2 by simp
    then show ?thesis unfolding fold using 2(2) by (simp only: ww if_True if_False T)
  next
    case 3
    let ?j = "24 + unat ((d + of_nat k) AND 4)"
    let ?T = "{k..<k + 28} \<union> {k + n - 28..<k + n} \<union> S"
    have j: "?j = 24 \<or> ?j = 28"
    proof -
      have "bit ((d + of_nat k) AND 2 ^ 2) p = bit (if bit (d + of_nat k) 2 then 2 ^ 2 else 0 :: u32) p" for p
        by (auto simp: bit_and_iff bit_exp_iff simp del: power_numeral)
      then have "(d + of_nat k) AND 2 ^ 2 = (if bit (d + of_nat k) 2 then 2 ^ 2 else 0)" by (rule bit_word_eqI)
      then show ?thesis by simp
    qed
    have 28: "(n - ?j) mod 32 \<le> 28"
    proof -
      obtain r where "n - ?j = 4 * r" using j q by (auto intro: that [of "q - 6"] that [of "q - 7"])
      then have "(n - ?j) mod 32 = 4 * (r mod 8)" by (simp add: mult_mod_right)
      then show ?thesis using mod_less_divisor [of 8 r] by linarith
    qed
    have "fill_words (n - ?j) (d + of_nat k + of_nat ?j) (ucast c32 OR push_bit 32 (ucast c32)) (filled ?T d c m) =
        filled ({k + ?j..<k + ?j + (n - ?j - (n - ?j) mod 32)} \<union> ?T) d c m"
      using fill_words_filled [of "k + ?j" "n - ?j" c32 c d ?T m] n(1) 3 j by (auto simp: c32_def add.assoc)
    also have "{k + ?j..<k + ?j + (n - ?j - (n - ?j) mod 32)} \<union> ?T = {k..<k + n} \<union> S"
    proof -
      define e where "e = n - ?j - (n - ?j) mod 32"
      have "?j \<le> 28" "n \<le> ?j + e + 28" "?j + e \<le> n" using j 3 28 by (auto simp: e_def)
      then show ?thesis using 3 unfolding e_def [symmetric] by auto
    qed
    finally have "fill_words (n - ?j) (d + of_nat k + of_nat ?j) (ucast c32 OR push_bit 32 (ucast c32)) (filled ?T d c m) =
        filled ({k..<k + n} \<union> S) d c m" .
    note fin = this
    from 3 have "0 + 4 \<le> n" "n - 4 + 4 \<le> n" "4 + 4 \<le> n" "8 + 4 \<le> n" "n - 12 + 4 \<le> n" "n - 8 + 4 \<le> n"
      "12 + 4 \<le> n" "16 + 4 \<le> n" "20 + 4 \<le> n" "24 + 4 \<le> n" "n - 28 + 4 \<le> n" "n - 24 + 4 \<le> n" "n - 20 + 4 \<le> n"
      "n - 16 + 4 \<le> n" by simp_all
    note ww = this [THEN w]
    have "W (n - 16) \<union> (W (n - 20) \<union> (W (n - 24) \<union> (W (n - 28) \<union> (W 24 \<union> (W 20 \<union> (W 16 \<union> (W 12 \<union>
        (W (n - 8) \<union> (W (n - 12) \<union> (W 8 \<union> (W 4 \<union> (W (n - 4) \<union> (W 0 \<union> S))))))))))))) =
        ((W 0 \<union> W 4 \<union> W 8) \<union> (W 12 \<union> W 16 \<union> W 20 \<union> W 24)) \<union> ((W (n - 28) \<union> W (n - 24) \<union> W (n - 20) \<union> W (n - 16)) \<union>
          (W (n - 12) \<union> W (n - 8) \<union> W (n - 4))) \<union> S" by blast
    also have "\<dots> = ?T" unfolding lo hi2 [OF 3] using 3 hi by (simp add: ivl_join)
    finally have T: "W (n - 16) \<union> (W (n - 20) \<union> (W (n - 24) \<union> (W (n - 28) \<union> (W 24 \<union> (W 20 \<union> (W 16 \<union> (W 12 \<union>
        (W (n - 8) \<union> (W (n - 12) \<union> (W 8 \<union> (W 4 \<union> (W (n - 4) \<union> (W 0 \<union> S))))))))))))) = ?T" .
    have "\<not> n \<le> 8" "\<not> n \<le> 24" using 3 by simp_all
    then show ?thesis unfolding fold by (simp only: ww if_False T fin)
  qed
qed

lemma memset_filled:
  assumes n: "n < 4294967296"
  shows "memset dest c n m = (dest, filled {..<n} dest c m)"
proof -
  define b where "b i = put_byte dest i c" for i
  have b: "foldr b is m = filled (set is) dest c m" if "set is \<subseteq> {..<n}" for "is"
    using that
  proof (induction "is")
    case (Cons i "is")
    then show ?case using put_byte_filled [of 0 i dest c "set is" m] n by (simp add: b_def)
  qed (simp add: filled_def)
  note fold = memset_def Let_def b_def [symmetric]
  consider "n = 0" | "0 < n" "n \<le> 2" | "2 < n" "n \<le> 6" | "6 < n" "n \<le> 8" | "8 < n" by linarith
  then show ?thesis
  proof cases
    case 1
    then show ?thesis using b [of "[]"] by (simp add: fold)
  next
    case 2
    then have "set [0, n - 1] = {..<n}" by auto
    with b [of "[0, n - 1]"] show ?thesis using 2 by (simp add: fold)
  next
    case 3
    then have "set [2, n - 3, 1, n - 2, 0, n - 1] = {..<n}" by auto
    with b [of "[2, n - 3, 1, n - 2, 0, n - 1]"] show ?thesis using 3 by (simp add: fold)
  next
    case 4
    then have "set [3, n - 4, 2, n - 3, 1, n - 2, 0, n - 1] = {..<n}" by auto
    with b [of "[3, n - 4, 2, n - 3, 1, n - 2, 0, n - 1]"] show ?thesis using 4 by (simp add: fold)
  next
    case 5
    define k where "k = unat ((- dest) AND 3)"
    define n' where "n' = n - k - (n - k) mod 4"
    define S where "S = set [3, n - 4, 2, n - 3, 1, n - 2, 0, n - 1]"
    have kd: "of_nat k = (- dest) AND 3" by (simp add: k_def)
    have "(- dest) AND 3 = take_bit 2 (- dest)" by (simp add: take_bit_eq_mask mask_eq_exp_minus_1)
    then have k: "k < 4" unfolding k_def using take_bit_nat_less_exp [of 2 "unat (- dest)"] by (simp add: unsigned_take_bit_eq)
    have n': "4 dvd n'" "4 \<le> n'" "k + n' \<le> n" "n < k + n' + 4" using 5 k unfolding n'_def by (simp_all add: minus_mod_eq_mult_div)
    have "memset dest c n m = (dest, fill_aligned n' (dest + of_nat k) c (foldr b [3, n - 4, 2, n - 3, 1, n - 2, 0, n - 1] m))"
      using 5 kd by (simp add: fold k_def [symmetric] n'_def)
    also have "foldr b [3, n - 4, 2, n - 3, 1, n - 2, 0, n - 1] m = filled S dest c m" unfolding S_def using 5 by (intro b) auto
    also have "fill_aligned n' (dest + of_nat k) c (filled S dest c m) = filled ({k..<k + n'} \<union> S) dest c m"
      using n n' by (intro fill_aligned_filled) auto
    also have "{k..<k + n'} \<union> S = {..<n}" using k n' 5 by (auto simp: S_def)
    finally show ?thesis .
  qed
qed

text \<open>
  C28: \<^verbatim>\<open>memset\<close> sets exactly the \<open>n\<close> bytes from the destination, for every alignment and length: the bytes
  at both ends, the overlapping words and the loop over 32 bytes leave no gap and reach no byte outside.
\<close>

theorem memset_fills:
  assumes "n < 4294967296"
  shows "memset dest c n m = (dest, \<lambda>a. if unat (a - dest) < n then c else m a)"
  using memset_filled [OF assms] by (simp add: filled_def)

theorem memset_fills_witness:
  "let m = snd (memset 0x20000001 0xAB 75 (\<lambda>_. 0)) in
   m 0x20000001 = 0xAB \<and> m 0x2000004B = 0xAB \<and> m 0x2000004C = 0 \<and> m 0x20000000 = 0"
  by (simp add: memset_fills Let_def unsigned_minus_1_eq_mask mask_eq_exp_minus_1)

section \<open>The comparison\<close>

text \<open>A string in memory: its characters, none of them zero, and the zero at its end.\<close>

fun has_string :: "bytes \<Rightarrow> memptr \<Rightarrow> u8 list \<Rightarrow> bool" where
  "has_string m a [] \<longleftrightarrow> m a = 0"
| "has_string m a (c # cs) \<longleftrightarrow> m a = c \<and> c \<noteq> 0 \<and> has_string m (a + 1) cs"

text \<open>The walk ends within the length of the first string, and gives zero exactly for equal strings.\<close>

lemma strcmp_spec:
  assumes "has_string m l xs" "has_string m r ys" "length xs < fuel"
  shows "\<exists>v. strcmp fuel m l r = Inr v \<and> (v = 0 \<longleftrightarrow> xs = ys)"
  using assms
proof (induction fuel arbitrary: l r xs ys)
  case (Suc fuel)
  show ?case
  proof (cases xs; cases ys)
    fix x xs' y ys' assume "xs = x # xs'" "ys = y # ys'"
    then show ?thesis using Suc.prems Suc.IH [of "l + 1" xs' "r + 1" ys'] by (auto simp: word_uint_eq_iff)
  qed (use Suc.prems in \<open>auto simp: word_uint_eq_iff\<close>)
qed simp

end
