(* ===== verification/Spec2Isabelle.thy ===== *)
theory Spec2Isabelle
  imports F9_Queue F9_Fpage_Assign F9_Fpage_Map F9_Mpu_Spec F9_Memory_Spec F9_Boot F9_Ipc_Spec F9_Kprobe_Spec F9_Kdb_Spec F9_Memlib
begin

text \<open>
  \<^bold>\<open>A verification library for the F9 microkernel.\<close> The program is the kernel under
  \<^verbatim>\<open>src/kernel\<close>, \<^verbatim>\<open>src/platform\<close> and \<^verbatim>\<open>src/include\<close>, in the default configuration of the board
  \<^verbatim>\<open>src/board/discoveryf4\<close>: an L4-style kernel for a Cortex-M4 with a memory protection unit.

  \<^bold>\<open>The parts and how they interact.\<close> Kernel objects (threads, pages, address spaces, timer events) live in
  fixed tables whose free slots a bitmap shows. The memory manager cuts the memory pools of the board into
  pages of a power of two, links them into address spaces, and loads those of the running thread into the
  protection unit. Threads form a tree and are found through a sorted map of identifiers. The scheduler has six
  slots in order of priority, the last of which holds the idle thread. A system call, a timer tick or a byte
  from the serial port only records a request: the kernel thread runs the soft interrupts, which carry out
  system calls, fire timer events and serve the debugger; a context switch follows the return from the
  interrupt. Messages between threads are copied by the system call of the sender or by a periodic event.

  \<^bold>\<open>State and operations.\<close> A table of objects is a function from slot numbers, a pointer to an object is
  \<open>Some\<close> slot or \<open>None\<close> for NULL; a \<^verbatim>\<open>struct\<close> is a record with the fields of the source, a static variable
  a field of \<open>mem_t\<close> (memory manager), \<open>ktimer_t\<close>, \<open>debug_t\<close> or \<open>kernel_t\<close> (everything). Integers are words
  of their width. Each function of the source is one definition of its name (with \<^verbatim>\<open>__\<close> dropped); a loop is a
  recursive function beside it. An operation returns an \<open>outcome\<close>: \<open>Inl\<close> a fault (a NULL pointer, an index out
  of bounds, a failed assertion, a panic with its message, a loop that does not end) or \<open>Inr\<close> its result and
  the new state. Device registers are hardware: a store is recorded in the log \<open>mmio\<close>, and what a load
  returns is the function \<open>im_dev\<close> of that log. \<open>image_t\<close> holds what the linker and the build provide.

  \<^bold>\<open>The theories.\<close>

  \<^item> \<open>F9_Prelude\<close>: words, outcomes, chains through a table (\<open>lseg\<close>), shared lemmas.
  \<^item> \<open>F9_Bitmap\<close>, \<open>F9_Ktable\<close>: \<^verbatim>\<open>include/lib/bitmap.h\<close>, \<^verbatim>\<open>kernel/lib/ktable.c\<close>. The locale \<open>slot_table\<close>
    states the contract of a table of slots and is interpreted on \<open>ktable_alloc_slot\<close> and \<open>ktable_free_slot\<close>;
    pages, address spaces, threads and events use its facts.
  \<^item> \<open>F9_Queue\<close>: \<^verbatim>\<open>kernel/lib/queue.c\<close>. The locale \<open>byte_fifo\<close> is the contract of a byte queue; the serial port
    uses the interpretation.
  \<^item> \<open>F9_Memlib\<close>, \<open>F9_Sort\<close>, \<open>F9_Stdio\<close>: \<^verbatim>\<open>kernel/lib\<close> (copying and filling memory, heap sort and binary
    search, formatted output), each proved equal to a simple reference. The locales \<open>comparator\<close> and
    \<open>array_comparator\<close> hold the sorting proof and are interpreted on the comparisons of the profiler.
  \<^item> \<open>F9_Mempool\<close>, \<open>F9_Fpage\<close> with \<open>F9_Fpage_Spec\<close>, \<open>F9_Fpage_Assign\<close>, \<open>F9_Fpage_Map\<close>: \<^verbatim>\<open>kernel/fpage.c\<close>
    (creation, splitting, assignment and mapping of pages) and what these do to the chains and rings of pages.
  \<^item> \<open>F9_Mpu\<close>, \<open>F9_Memory\<close> with \<open>F9_Mpu_Spec\<close>, \<open>F9_Memory_Spec\<close>: \<^verbatim>\<open>platform/stm32f4/mpu.c\<close>, \<^verbatim>\<open>kernel/memory.c\<close>;
    after a switch the unit opens the pages of the address space only.
  \<^item> \<open>F9_Sampling\<close>: \<^verbatim>\<open>kernel/ksym.c\<close>, \<^verbatim>\<open>kernel/sampling.c\<close>; the ranking of the profile.
  \<^item> \<open>F9_Debug_State\<close>, \<open>F9_State\<close>: the static variables and records of the kernel.
  \<^item> \<open>F9_Thread\<close> with \<open>F9_Thread_Map\<close>, \<open>F9_Thread_Tree\<close>: \<^verbatim>\<open>kernel/thread.c\<close>; the map of identifiers stays
    sorted and complete, and the selection of a thread walks the tree in preorder.
  \<^item> \<open>F9_Sched\<close>, \<open>F9_Sched_Spec\<close>: \<^verbatim>\<open>kernel/sched.c\<close> and the requests of \<^verbatim>\<open>kernel/softirq.c\<close>.
  \<^item> \<open>F9_Ktimer\<close>, \<open>F9_Ktimer_Spec\<close>: \<^verbatim>\<open>kernel/ktimer.c\<close>, \<^verbatim>\<open>platform/stm32f4/systick.c\<close>.
  \<^item> \<open>F9_Irq\<close>, \<open>F9_Irq_Spec\<close>: \<^verbatim>\<open>include/platform/irq.h\<close>, \<^verbatim>\<open>platform/stm32f4/nvic.c\<close>; a switch away and back restores
    a thread.
  \<^item> \<open>F9_Driver\<close>: the drivers of the pins, the serial port, the clocks and the interrupt controller under
    \<^verbatim>\<open>platform/stm32f4\<close>. \<open>io_only\<close> says that an operation touches devices and debug variables only.
  \<^item> \<open>F9_Console\<close>, \<open>F9_Console_Spec\<close>: \<^verbatim>\<open>platform/debug_uart.c\<close>, \<^verbatim>\<open>platform/debug_device.c\<close>, \<^verbatim>\<open>kernel/debug.c\<close>; output
    keeps its order and a panic flushes it.
  \<^item> \<open>F9_Ipc\<close>, \<open>F9_Ipc_Spec\<close>: \<^verbatim>\<open>kernel/ipc.c\<close>, \<^verbatim>\<open>kernel/user-log.c\<close>; a message arrives in full.
  \<^item> \<open>F9_Kprobe\<close>, \<open>F9_Kprobe_Spec\<close>: \<^verbatim>\<open>kernel/kprobes.c\<close>, \<^verbatim>\<open>platform/kprobes-arch.c\<close>, \<^verbatim>\<open>platform/breakpoint.c\<close> and its
    two kinds of breakpoints; the pool of breakpoints stays consistent.
  \<^item> \<open>F9_Kdb\<close>, \<open>F9_Kdb_Spec\<close>: \<^verbatim>\<open>kernel/kdb.c\<close>, the dumps of the other components and the panic of
    \<^verbatim>\<open>kernel/error.c\<close>; the commands only look.
  \<^item> \<open>F9_Kernel\<close>: \<^verbatim>\<open>kernel/syscall.c\<close>, \<^verbatim>\<open>kernel/softirq.c\<close>, \<^verbatim>\<open>kernel/systhread.c\<close>, \<^verbatim>\<open>kernel/init.c\<close>, \<^verbatim>\<open>kernel/start.c\<close>.
  \<^item> \<open>F9_Kernel_Inv\<close>, \<open>F9_Boot\<close>: the step relation \<open>kstep\<close> of the whole kernel, an invariant of every
    state reachable from \<open>main\<close>, and that \<open>main\<close> completes on a concrete board.

  \<^bold>\<open>What the properties show.\<close> Most are correctness statements: tables, queues, pages, address spaces, the
  protection unit, the thread map and tree, scheduler, timer, context switch, messages, output and breakpoints do
  what their callers rely on, on the branches stated. Some record defects that the model exposes, such as an
  address space that inherits the loaded pages of its predecessor, or a released thread that is still found.

  \<^bold>\<open>Bounds and fuel.\<close> A loop along a chain of objects takes one unit of fuel per step and the value
  \<open>Diverges\<close> when it runs out. \<open>WALK_FUEL\<close>, \<open>THREAD_FUEL\<close> and \<open>EVENT_FUEL\<close> are one more than the number of slots of
  the table, so that only a cyclic chain exhausts them; a property that claims a result of such a
  loop proves that it returns.
  \<open>thread_select\<close> is shown to end on every well-formed tree. The flush of the transmit queue has fuel for more bytes
  than the queue holds. \<open>PROBE_FUEL\<close> (256) bounds the list of probes, \<open>WAIT_FUEL\<close> (4096) the interrupts during
  the wait for a key, and \<open>LOG_FUEL\<close> (4096) the length of a string of a user thread; these have no bound in the
  source, and a longer run counts as endless. \<open>softirq_execute\<close> has its fuel as an argument, and the steps of the
  kernel allow any. A loop that polls a device register ends at the value at which \<open>im_dev\<close> says the register settles.

  \<^bold>\<open>Hypotheses on hardware.\<close> \<open>loaded_page_is_hit\<close> assumes the documented answer of the protection unit, and
  \<open>panic_flushes_output\<close> that the serial port reports a completed transmission.

  \<^bold>\<open>Not modelled.\<close> The reset handler before \<^verbatim>\<open>main\<close> copies and clears memory segments that the model has as
  fields of the state. The vector table and its default handlers have no effect of their own. Messages of
  debug layers other than the debugger's are switched off by \<^verbatim>\<open>dbg_layer\<close> and left out. The memory-mapped
  debug device, the check of tickless sleep, spin locks and the loader are switched off in the configuration. User
  programs and their library run on the kernel and are not part of it: in \<open>kstep\<close> they may do anything to
  registers and user memory. Interrupts are taken between the steps of \<open>kstep\<close>, not inside them, except in
  the wait for a key. The configuration tool and the build files are not part of the program.
\<close>

end
